(* ===== verification/Prelude.thy ===== *)
theory Prelude
  imports Main "HOL-Library.Word" "HOL-Library.Monad_Syntax"
begin

text \<open>
  Shared vocabulary of the development: the machine integer types of the Rust code, slices and
  their fallible accessors (\<open>slice.get(a..b)\<close>), little-endian encodings
  (\<open>uN::from_le_bytes\<close>, \<open>uN::to_le_bytes\<close>), and the generic lemmas on them.

  Conventions. \<open>usize\<close> is 64 bits wide; a \<open>usize\<close> that is only ever an index into or a length
  of an in-memory slice is a \<open>nat\<close>, one that is computed from untrusted 64-bit input is a
  \<open>64 word\<close>. Arithmetic on fixed-width integers wraps, as in the release profile. A value of
  type \<open>'a option\<close> is Rust's \<open>Option\<close>; the \<open>?\<close> operator on it is the bind of the option monad.
\<close>

unbundle bit_operations_syntax

type_synonym u8 = "8 word"
type_synonym u16 = "16 word"
type_synonym u32 = "32 word"
type_synonym u64 = "64 word"
type_synonym bytes = "u8 list"

named_theorems slice_simps \<open>evaluation of slice accessors on concatenations\<close>
named_theorems codec_simps \<open>lengths and inverses of encoders\<close>

subsection \<open>Slices\<close>

text \<open>\<open>s.get(a..b)\<close>\<close>
definition slice_get :: "'a list \<Rightarrow> nat \<Rightarrow> nat \<Rightarrow> 'a list option" where
  "slice_get s a b = (if a \<le> b \<and> b \<le> length s then Some (take (b - a) (drop a s)) else None)"

text \<open>\<open>s.get(a..)\<close>\<close>
definition slice_from :: "'a list \<Rightarrow> nat \<Rightarrow> 'a list option" where
  "slice_from s a = (if a \<le> length s then Some (drop a s) else None)"

text \<open>\<open>s.get(i)\<close>\<close>
definition slice_at :: "'a list \<Rightarrow> nat \<Rightarrow> 'a option" where
  "slice_at s i = (if i < length s then Some (s ! i) else None)"

text \<open>\<open>slice.try_into().ok()\<close> into an array of \<open>n\<close> elements\<close>
definition try_into :: "nat \<Rightarrow> 'a list \<Rightarrow> 'a list option" where
  "try_into n s = (if length s = n then Some s else None)"

text \<open>\<open>s.starts_with(p)\<close>\<close>
definition starts_with :: "'a list \<Rightarrow> 'a list \<Rightarrow> bool" where
  "starts_with s p \<longleftrightarrow> take (length p) s = p"

lemma slice_get_Some_iff:
  "slice_get s a b = Some r \<longleftrightarrow> a \<le> b \<and> b \<le> length s \<and> r = take (b - a) (drop a s)"
  by (auto simp: slice_get_def)

lemma slice_get_length: "slice_get s a b = Some r \<Longrightarrow> length r = b - a"
  by (auto simp: slice_get_def split: if_splits)

lemma slice_get_None_iff: "slice_get s a b = None \<longleftrightarrow> b < a \<or> length s < b"
  by (auto simp: slice_get_def)

lemma slice_get_skip [slice_simps]:
  "length xs \<le> a \<Longrightarrow> a \<le> b \<Longrightarrow>
   slice_get (xs @ ys) a b = slice_get ys (a - length xs) (b - length xs)"
  by (auto simp: slice_get_def)

lemma slice_get_first [slice_simps]: "length xs = b \<Longrightarrow> slice_get (xs @ ys) 0 b = Some xs"
  by (auto simp: slice_get_def)

lemma slice_get_whole [slice_simps]: "length xs = b \<Longrightarrow> slice_get xs 0 b = Some xs"
  by (auto simp: slice_get_def)

lemma slice_get_prefix:
  "b \<le> length xs \<Longrightarrow> slice_get (xs @ ys) a b = slice_get xs a b"
  by (auto simp: slice_get_def)

lemma slice_from_skip [slice_simps]: "length xs = a \<Longrightarrow> slice_from (xs @ ys) a = Some ys"
  by (auto simp: slice_from_def)

lemma slice_from_skip_le:
  "length xs \<le> a \<Longrightarrow> slice_from (xs @ ys) a = slice_from ys (a - length xs)"
  by (auto simp: slice_from_def)

lemma slice_at_skip [slice_simps]:
  "length xs \<le> i \<Longrightarrow> slice_at (xs @ ys) i = slice_at ys (i - length xs)"
  by (auto simp: slice_at_def nth_append)

lemma slice_at_Cons_0 [slice_simps]: "slice_at (x # xs) 0 = Some x"
  by (simp add: slice_at_def)

lemma slice_at_prefix: "i < length xs \<Longrightarrow> slice_at (xs @ ys) i = slice_at xs i"
  by (simp add: slice_at_def nth_append)

lemma try_into_len [simp]: "length s = n \<Longrightarrow> try_into n s = Some s"
  by (simp add: try_into_def)

lemma starts_with_append [simp]: "starts_with (p @ s) p"
  by (simp add: starts_with_def)

subsection \<open>Little-endian encodings\<close>

text \<open>\<open>uN::from_le_bytes(bytes)\<close>\<close>
fun from_le_bytes :: "bytes \<Rightarrow> 'a::len word" where
  "from_le_bytes [] = 0"
| "from_le_bytes (b # bs) = ucast b OR push_bit 8 (from_le_bytes bs)"

text \<open>\<open>x.to_le_bytes()\<close>, for an integer of \<open>n\<close> bytes\<close>
fun to_le_bytes :: "nat \<Rightarrow> 'a::len word \<Rightarrow> bytes" where
  "to_le_bytes 0 w = []"
| "to_le_bytes (Suc n) w = ucast w # to_le_bytes n (drop_bit 8 w)"

lemma length_to_le_bytes [simp, codec_simps]: "length (to_le_bytes n w) = n"
  by (induction n w rule: to_le_bytes.induct) auto

lemma bit_from_le_bytes:
  fixes bs :: bytes
  shows "bit (from_le_bytes bs :: 'a::len word) n \<longleftrightarrow>
     n < LENGTH('a) \<and> n div 8 < length bs \<and> bit (bs ! (n div 8)) (n mod 8)"
proof (induction bs arbitrary: n)
  case Nil
  then show ?case by simp
next
  case (Cons b bs)
  show ?case
  proof (cases "n < 8")
    case True
    then show ?thesis by (auto simp: bit_simps)
  next
    case False
    then have "n div 8 = Suc ((n - 8) div 8)" and "n mod 8 = (n - 8) mod 8"
      by (simp_all add: le_div_geq le_mod_geq)
    moreover from False have "\<not> bit (ucast b :: 'a word) n"
      by (auto simp: bit_simps dest: bit_imp_le_length)
    ultimately show ?thesis
      using False Cons.IH [of "n - 8"] by (auto simp: bit_simps)
  qed
qed

lemma bit_nth_to_le_bytes:
  "i < n \<Longrightarrow> bit (to_le_bytes n (w :: 'a::len word) ! i) k \<longleftrightarrow> k < 8 \<and> bit w (8 * i + k)"
proof (induction n w arbitrary: i rule: to_le_bytes.induct)
  case (1 w)
  then show ?case by simp
next
  case (2 n w)
  show ?case
  proof (cases i)
    case 0
    then show ?thesis by (auto simp: bit_simps)
  next
    case (Suc j)
    with 2 have "bit (to_le_bytes n (drop_bit 8 w) ! j) k \<longleftrightarrow> k < 8 \<and> bit (drop_bit 8 w) (8 * j + k)"
      by simp
    with Suc show ?thesis by (simp add: bit_simps algebra_simps)
  qed
qed

text \<open>Decoding what was encoded, at any width that fits.\<close>

lemma from_to_le_bytes:
  fixes w :: "'a::len word"
  assumes "LENGTH('a) \<le> 8 * n"
  shows "from_le_bytes (to_le_bytes n w) = w"
proof (rule bit_word_eqI)
  fix k assume k: "k < LENGTH('a)"
  with assms have "k div 8 < n" by (simp add: less_mult_imp_div_less mult.commute)
  with k show "bit (from_le_bytes (to_le_bytes n w) :: 'a word) k = bit w k"
    by (simp add: bit_from_le_bytes bit_nth_to_le_bytes)
qed

lemma to_from_le_bytes:
  fixes bs :: bytes
  assumes "8 * length bs \<le> LENGTH('a::len)"
  shows "to_le_bytes (length bs) (from_le_bytes bs :: 'a word) = bs"
proof (rule nth_equalityI)
  show "length (to_le_bytes (length bs) (from_le_bytes bs :: 'a word)) = length bs" by simp
next
  fix i assume "i < length (to_le_bytes (length bs) (from_le_bytes bs :: 'a word))"
  then have i: "i < length bs" by simp
  show "to_le_bytes (length bs) (from_le_bytes bs :: 'a word) ! i = bs ! i"
  proof (rule bit_word_eqI)
    fix k :: nat assume "k < LENGTH(8)"
    then have k: "k < 8" by simp
    moreover from i k assms have "8 * i + k < LENGTH('a)" by linarith
    moreover from k have "(8 * i + k) div 8 = i" "(8 * i + k) mod 8 = k" by simp_all
    ultimately show "bit (to_le_bytes (length bs) (from_le_bytes bs :: 'a word) ! i) k = bit (bs ! i) k"
      using i by (simp add: bit_nth_to_le_bytes bit_from_le_bytes)
  qed
qed

lemma from_to_le_u16 [simp, codec_simps]: "from_le_bytes (to_le_bytes 2 (w :: u16)) = w"
  and from_to_le_u32 [simp, codec_simps]: "from_le_bytes (to_le_bytes 4 (v :: u32)) = v"
  and from_to_le_u64 [simp, codec_simps]: "from_le_bytes (to_le_bytes 8 (x :: u64)) = x"
  by (rule from_to_le_bytes, simp)+

text \<open>\<open>uN::from_le_bytes(s.get(a..b)?.try_into().ok()?)\<close>, the pattern every header field uses\<close>

definition read_le :: "nat \<Rightarrow> bytes \<Rightarrow> nat \<Rightarrow> nat \<Rightarrow> 'a::len word option" where
  "read_le n s a b = do { r \<leftarrow> slice_get s a b; arr \<leftarrow> try_into n r; Some (from_le_bytes arr) }"

abbreviation read_u16 :: "bytes \<Rightarrow> nat \<Rightarrow> nat \<Rightarrow> u16 option" where
  "read_u16 \<equiv> read_le 2"

abbreviation read_u32 :: "bytes \<Rightarrow> nat \<Rightarrow> nat \<Rightarrow> u32 option" where
  "read_u32 \<equiv> read_le 4"

abbreviation read_u64 :: "bytes \<Rightarrow> nat \<Rightarrow> nat \<Rightarrow> u64 option" where
  "read_u64 \<equiv> read_le 8"

lemma read_le_skip [slice_simps]:
  "length xs \<le> a \<Longrightarrow> a \<le> b \<Longrightarrow> read_le n (xs @ ys) a b = read_le n ys (a - length xs) (b - length xs)"
  by (simp add: read_le_def slice_get_skip)

lemma read_le_first [slice_simps]:
  "length xs = b \<Longrightarrow> b = n \<Longrightarrow> read_le n (xs @ ys) 0 b = Some (from_le_bytes xs)"
  by (simp add: read_le_def slice_get_first)

lemma read_le_whole [slice_simps]:
  "length xs = b \<Longrightarrow> b = n \<Longrightarrow> read_le n xs 0 b = Some (from_le_bytes xs)"
  by (simp add: read_le_def slice_get_whole)

lemma read_le_eq:
  "b = a + n \<Longrightarrow> read_le n s a b =
     (if b \<le> length s then Some (from_le_bytes (take n (drop a s))) else None)"
  by (auto simp: read_le_def slice_get_def try_into_def)

lemma read_le_prefix:
  "b \<le> length xs \<Longrightarrow> read_le n (xs @ ys) a b = read_le n xs a b"
  by (simp add: read_le_def slice_get_prefix)

lemma read_le_bound: "read_le n s a b = Some w \<Longrightarrow> b \<le> length s"
  by (auto simp: read_le_def slice_get_def split: if_splits)

lemma slice_get_take: "b \<le> k \<Longrightarrow> k \<le> length s \<Longrightarrow> slice_get (take k s @ t) a b = slice_get s a b"
  by (simp add: slice_get_def drop_take)

lemma read_le_take: "b \<le> k \<Longrightarrow> k \<le> length s \<Longrightarrow> read_le n (take k s @ t) a b = read_le n s a b"
  by (simp add: read_le_def slice_get_take)

lemma slice_at_take: "i < k \<Longrightarrow> k \<le> length s \<Longrightarrow> slice_at (take k s @ t) i = slice_at s i"
  by (simp add: slice_at_def nth_append)

lemma bind_Some_None_iff: "Option.bind x (\<lambda>v. Some (f v)) = None \<longleftrightarrow> x = None"
  by (cases x) simp_all

text \<open>\<open>collect::<Option<Vec<_>>>()\<close>\<close>

lemma those_Some_iff: "those xs = Some ys \<longleftrightarrow> xs = map Some ys"
  by (induction xs arbitrary: ys) (auto split: option.splits)

lemma those_None_iff: "those xs = None \<longleftrightarrow> None \<in> set xs"
  by (induction xs) (auto split: option.splits)

lemma slice_get_Cons [slice_simps]:
  "0 < a \<Longrightarrow> a \<le> b \<Longrightarrow> slice_get (x # xs) a b = slice_get xs (a - 1) (b - 1)"
  using slice_get_skip [of "[x]" a b xs] by simp

lemma slice_get_Cons_0 [slice_simps]: "slice_get (x # y # xs) 0 2 = Some [x, y]"
  by (simp add: slice_get_def)

lemma slice_at_Cons [slice_simps]: "0 < i \<Longrightarrow> slice_at (x # xs) i = slice_at xs (i - 1)"
  by (cases i) (simp_all add: slice_at_def)

lemma read_le_Cons [slice_simps]:
  "0 < a \<Longrightarrow> a \<le> b \<Longrightarrow> read_le n (x # xs) a b = read_le n xs (a - 1) (b - 1)"
  by (simp add: read_le_def slice_get_Cons)

lemma unat_of_nat_u32: "n < 2 ^ 32 \<Longrightarrow> unat (of_nat n :: u32) = n"
  and unat_of_nat_u16: "n < 2 ^ 16 \<Longrightarrow> unat (of_nat n :: u16) = n"
  and unat_of_nat_u64: "n < 2 ^ 64 \<Longrightarrow> unat (of_nat n :: u64) = n"
  by (simp_all add: unat_of_nat take_bit_eq_mod)

subsection \<open>Fixed-length encodings\<close>

text \<open>
  The interface of the binary structures the program exchanges: an encoder that writes a fixed
  number of bytes, and a decoder that reads the value back from the front of a slice. The clients
  are the structures that contain a table of such values.
\<close>

locale fixed_codec =
  fixes enc :: "'a \<Rightarrow> bytes" and dec :: "bytes \<Rightarrow> 'a option" and len :: nat and ok :: "'a \<Rightarrow> bool"
  assumes length_enc: "ok x \<Longrightarrow> length (enc x) = len"
    and dec_enc: "ok x \<Longrightarrow> dec (enc x @ rest) = Some x"
begin

lemma enc_inj: "ok x \<Longrightarrow> ok y \<Longrightarrow> enc x = enc y \<Longrightarrow> x = y"
  using dec_enc [of x "[]"] dec_enc [of y "[]"] by simp

lemma length_table: "\<forall>x \<in> set xs. ok x \<Longrightarrow> length (concat (map enc xs)) = length xs * len"
  by (induction xs) (simp_all add: length_enc)

text \<open>Entry \<open>i\<close> of a table that follows \<open>pre\<close> is at \<open>length pre + i * len\<close>.\<close>

lemma dec_table_split:
  assumes "\<forall>y \<in> set ys. ok y" and "ok x"
  shows "dec (drop (length pre + length ys * len) (pre @ concat (map enc (ys @ x # zs)) @ rest)) = Some x"
  unfolding length_table [OF assms(1), symmetric] using dec_enc [OF assms(2)] by simp

lemma dec_table:
  assumes "\<forall>x \<in> set xs. ok x" and "i < length xs"
  shows "dec (drop (length pre + i * len) (pre @ concat (map enc xs) @ rest)) = Some (xs ! i)"
proof -
  have "take i xs @ xs ! i # drop (Suc i) xs = xs"
    using assms(2) by (rule id_take_nth_drop [symmetric])
  moreover have "length (take i xs) = i" and "\<forall>y \<in> set (take i xs). ok y" and "ok (xs ! i)"
    using assms by (auto dest: in_set_takeD)
  ultimately show ?thesis
    using dec_table_split [of "take i xs" "xs ! i" pre "drop (Suc i) xs" rest] by metis
qed

end

subsection \<open>Results\<close>

text \<open>\<open>Result<T, E>\<close> is \<open>'e + 'a\<close>, with \<open>Inl\<close> for \<open>Err\<close> and \<open>Inr\<close> for \<open>Ok\<close>.\<close>

text \<open>\<open>opt.ok_or(e)\<close>\<close>
definition ok_or :: "'e \<Rightarrow> 'a option \<Rightarrow> 'e + 'a" where
  "ok_or e x = (case x of None \<Rightarrow> Inl e | Some v \<Rightarrow> Inr v)"

text \<open>The \<open>?\<close> operator on a \<open>Result\<close>\<close>
definition rbind :: "'e + 'a \<Rightarrow> ('a \<Rightarrow> 'e + 'b) \<Rightarrow> 'e + 'b" where
  "rbind r f = (case r of Inl e \<Rightarrow> Inl e | Inr v \<Rightarrow> f v)"

lemma rbind_simps [simp]: "rbind (Inl e) f = Inl e" "rbind (Inr v) f = f v"
  by (simp_all add: rbind_def)

lemma ok_or_simps [simp]: "ok_or e None = Inl e" "ok_or e (Some v) = Inr v"
  by (simp_all add: ok_or_def)

lemma ok_or_Inr_iff [simp]: "ok_or e x = Inr v \<longleftrightarrow> x = Some v"
  by (cases x) auto

lemma ok_or_Inl_iff [simp]: "ok_or e x = Inl e' \<longleftrightarrow> x = None \<and> e' = e"
  by (cases x) auto

lemma rbind_Inr_iff: "rbind r f = Inr v \<longleftrightarrow> (\<exists>u. r = Inr u \<and> f u = Inr v)"
  by (cases r) auto

lemma rbind_Inl_iff: "rbind r f = Inl e \<longleftrightarrow> r = Inl e \<or> (\<exists>u. r = Inr u \<and> f u = Inl e)"
  by (cases r) auto

end
