(* ===== verification/RustString.thy ===== *)
theory RustString
  imports Prelude "HOL-Library.Char_ord" "HOL-Library.List_Lexorder" "HOL-Library.Sublist"
begin

text \<open>
  The part of Rust's string library the program uses. A \<open>String\<close> is the list of the bytes of its
  UTF-8 encoding, so that its order (\<open>List_Lexorder\<close> over \<open>Char_ord\<close>) is Rust's byte-wise order
  and its length is \<open>str::len\<close>. Case conversion and \<open>char::is_numeric\<close> are modelled on ASCII, the
  character set of every name, path and identifier the program handles; bytes above 127 are
  left alone.
\<close>

subsection \<open>Characters\<close>

definition is_numeric :: "char \<Rightarrow> bool" where
  "is_numeric c \<longleftrightarrow> 48 \<le> (of_char c :: nat) \<and> (of_char c :: nat) \<le> 57"

definition char_lower :: "char \<Rightarrow> char" where
  "char_lower c = (if 65 \<le> (of_char c :: nat) \<and> (of_char c :: nat) \<le> 90
     then char_of (of_char c + (32 :: nat)) else c)"

definition char_upper :: "char \<Rightarrow> char" where
  "char_upper c = (if 97 \<le> (of_char c :: nat) \<and> (of_char c :: nat) \<le> 122
     then char_of (of_char c - (32 :: nat)) else c)"

definition to_lowercase :: "string \<Rightarrow> string" where
  "to_lowercase s = map char_lower s"

definition to_uppercase :: "string \<Rightarrow> string" where
  "to_uppercase s = map char_upper s"

lemma char_lower_idem [simp]: "char_lower (char_lower c) = char_lower c"
  by (simp add: char_lower_def)

lemma to_lowercase_idem [simp]: "to_lowercase (to_lowercase s) = to_lowercase s"
  by (simp add: to_lowercase_def)

lemma to_lowercase_append: "to_lowercase (s @ t) = to_lowercase s @ to_lowercase t"
  by (simp add: to_lowercase_def)

lemma char_lower_literals [simp]:
  "char_lower (CHR ''a'') = CHR ''a''" "char_lower (CHR ''b'') = CHR ''b''"
  "char_lower (CHR ''c'') = CHR ''c''" "char_lower (CHR ''d'') = CHR ''d''"
  "char_lower (CHR ''e'') = CHR ''e''" "char_lower (CHR ''f'') = CHR ''f''"
  "char_lower (CHR ''g'') = CHR ''g''" "char_lower (CHR ''h'') = CHR ''h''"
  "char_lower (CHR ''i'') = CHR ''i''" "char_lower (CHR ''j'') = CHR ''j''"
  "char_lower (CHR ''k'') = CHR ''k''" "char_lower (CHR ''l'') = CHR ''l''"
  "char_lower (CHR ''m'') = CHR ''m''" "char_lower (CHR ''n'') = CHR ''n''"
  "char_lower (CHR ''o'') = CHR ''o''" "char_lower (CHR ''p'') = CHR ''p''"
  "char_lower (CHR ''q'') = CHR ''q''" "char_lower (CHR ''r'') = CHR ''r''"
  "char_lower (CHR ''s'') = CHR ''s''" "char_lower (CHR ''t'') = CHR ''t''"
  "char_lower (CHR ''u'') = CHR ''u''" "char_lower (CHR ''v'') = CHR ''v''"
  "char_lower (CHR ''w'') = CHR ''w''" "char_lower (CHR ''x'') = CHR ''x''"
  "char_lower (CHR ''y'') = CHR ''y''" "char_lower (CHR ''z'') = CHR ''z''"
  "char_lower (CHR ''_'') = CHR ''_''"
  by (simp_all add: char_lower_def)

subsection \<open>Splitting and trimming\<close>

text \<open>\<open>s.split(pattern)\<close> for a pattern that is a character or a set of characters\<close>
fun split_where :: "('a \<Rightarrow> bool) \<Rightarrow> 'a list \<Rightarrow> 'a list list" where
  "split_where P [] = [[]]"
| "split_where P (x # xs) =
     (if P x then [] # split_where P xs
      else case split_where P xs of [] \<Rightarrow> [[x]] | y # ys \<Rightarrow> (x # y) # ys)"

abbreviation split_on :: "char \<Rightarrow> string \<Rightarrow> string list" where
  "split_on c \<equiv> split_where (\<lambda>x. x = c)"

lemma split_where_not_Nil [simp]: "split_where P xs \<noteq> []"
  by (induction xs) (auto split: list.splits)

lemma split_where_none: "\<forall>x \<in> set xs. \<not> P x \<Longrightarrow> split_where P xs = [xs]"
  by (induction xs) auto

lemma split_where_sep:
  "\<forall>x \<in> set xs. \<not> P x \<Longrightarrow> P c \<Longrightarrow> split_where P (xs @ c # ys) = xs # split_where P ys"
  by (induction xs) auto

lemma split_where_pieces: "y \<in> set (split_where P xs) \<Longrightarrow> x \<in> set y \<Longrightarrow> \<not> P x"
proof (induction xs arbitrary: y)
  case Nil
  then show ?case by simp
next
  case (Cons a xs)
  show ?case
  proof (cases "P a")
    case True
    with Cons show ?thesis by auto
  next
    case False
    obtain z zs where z: "split_where P xs = z # zs" by (cases "split_where P xs") auto
    with Cons.IH [of z] Cons.IH [of y] Cons.prems False show ?thesis by auto
  qed
qed

text \<open>\<open>s.split_once(c)\<close>\<close>
definition split_once :: "char \<Rightarrow> string \<Rightarrow> (string \<times> string) option" where
  "split_once c s = (case dropWhile (\<lambda>x. x \<noteq> c) s of [] \<Rightarrow> None
     | _ # r \<Rightarrow> Some (takeWhile (\<lambda>x. x \<noteq> c) s, r))"

lemma split_once_sep:
  assumes "c \<notin> set xs"
  shows "split_once c (xs @ c # ys) = Some (xs, ys)"
proof -
  from assms have "dropWhile (\<lambda>x. x \<noteq> c) (xs @ c # ys) = c # ys"
    and "takeWhile (\<lambda>x. x \<noteq> c) (xs @ c # ys) = xs"
    by (induction xs) auto
  then show ?thesis by (simp add: split_once_def)
qed

lemma split_once_none:
  assumes "c \<notin> set xs"
  shows "split_once c xs = None"
proof -
  from assms have "dropWhile (\<lambda>x. x \<noteq> c) xs = []"
    by (induction xs) auto
  then show ?thesis by (simp only: split_once_def list.case)
qed

text \<open>\<open>s.trim_end_matches(char::is_numeric)\<close>\<close>
definition trim_end_numeric :: "string \<Rightarrow> string" where
  "trim_end_numeric s = rev (dropWhile is_numeric (rev s))"

lemma trim_end_numeric_append:
  "\<forall>c \<in> set d. is_numeric c \<Longrightarrow> trim_end_numeric (s @ d) = trim_end_numeric s"
  by (simp add: trim_end_numeric_def dropWhile_append)

lemma trim_end_numeric_id: "s = [] \<or> \<not> is_numeric (last s) \<Longrightarrow> trim_end_numeric s = s"
  by (cases s rule: rev_cases) (auto simp: trim_end_numeric_def)

lemma trim_end_numeric_decomp:
  "\<exists>d. s = trim_end_numeric s @ d \<and> (\<forall>c \<in> set d. is_numeric c)"
proof (intro exI conjI)
  show "s = trim_end_numeric s @ rev (takeWhile is_numeric (rev s))"
    by (metis rev_append rev_rev_ident takeWhile_dropWhile_id trim_end_numeric_def)
  show "\<forall>c \<in> set (rev (takeWhile is_numeric (rev s))). is_numeric c"
    by (auto dest: set_takeWhileD)
qed

text \<open>\<open>s.strip_prefix(p)\<close>\<close>
definition strip_prefix :: "string \<Rightarrow> string \<Rightarrow> string option" where
  "strip_prefix p s = (if starts_with s p then Some (drop (length p) s) else None)"

text \<open>\<open>s.lines()\<close>: the line ending is \<open>\\n\<close> or \<open>\\r\\n\<close>, and it is optional on the last line.\<close>

definition strip_cr :: "string \<Rightarrow> string" where
  "strip_cr l = (if l \<noteq> [] \<and> last l = CHR 0x0D then butlast l else l)"

function lines :: "string \<Rightarrow> string list" where
  "lines s = (if s = [] then []
     else let l = takeWhile (\<lambda>c. c \<noteq> CHR 0x0A) s in
       case dropWhile (\<lambda>c. c \<noteq> CHR 0x0A) s of [] \<Rightarrow> [l] | _ # r \<Rightarrow> strip_cr l # lines r)"
  by pat_completeness auto
termination
proof (relation "measure length", goal_cases)
  case 1
  show ?case by simp
next
  case (2 s l c r)
  have "length (dropWhile (\<lambda>c. c \<noteq> CHR 0x0A) s) \<le> length s" by (rule length_dropWhile_le)
  with 2 show ?case by simp
qed

declare lines.simps [simp del]

subsection \<open>Printing numbers\<close>

definition digit_lower :: "nat \<Rightarrow> char" where
  "digit_lower d = char_of (if d < 10 then 48 + d else 87 + d)"

definition digit_upper :: "nat \<Rightarrow> char" where
  "digit_upper d = char_of (if d < 10 then 48 + d else 55 + d)"

fun show_radix :: "(nat \<Rightarrow> char) \<Rightarrow> nat \<Rightarrow> nat \<Rightarrow> string" where
  "show_radix dig r n = (if r < 2 \<or> n < r then [dig n] else show_radix dig r (n div r) @ [dig (n mod r)])"

declare show_radix.simps [simp del]

text \<open>\<open>{}\<close>, \<open>{:x}\<close> and \<open>{:X}\<close>\<close>
definition show_dec :: "nat \<Rightarrow> string" where "show_dec n = show_radix digit_lower 10 n"
definition show_hex :: "nat \<Rightarrow> string" where "show_hex n = show_radix digit_lower 16 n"
definition show_HEX :: "nat \<Rightarrow> string" where "show_HEX n = show_radix digit_upper 16 n"

text \<open>\<open>{:0w}\<close>: padding with zeros on the left\<close>
definition zero_pad :: "nat \<Rightarrow> string \<Rightarrow> string" where
  "zero_pad w s = replicate (w - length s) (CHR ''0'') @ s"

subsection \<open>Parsing numbers\<close>

datatype int_error = Empty | InvalidDigit | PosOverflow

definition digit_value :: "nat \<Rightarrow> char \<Rightarrow> nat option" where
  "digit_value r c = (let n = (of_char c :: nat);
       d = (if 48 \<le> n \<and> n \<le> 57 then Some (n - 48)
            else if 97 \<le> n \<and> n \<le> 122 then Some (n - 87)
            else if 65 \<le> n \<and> n \<le> 90 then Some (n - 55) else None)
     in case d of Some v \<Rightarrow> if v < r then Some v else None | None \<Rightarrow> None)"

fun parse_digits :: "nat \<Rightarrow> nat \<Rightarrow> nat \<Rightarrow> string \<Rightarrow> int_error + nat" where
  "parse_digits r m acc [] = Inr acc"
| "parse_digits r m acc (c # cs) =
     (case digit_value r c of None \<Rightarrow> Inl InvalidDigit
      | Some d \<Rightarrow> if m \<le> acc * r + d then Inl PosOverflow else parse_digits r m (acc * r + d) cs)"

text \<open>\<open>uN::from_str_radix(s, r)\<close> for an unsigned type with \<open>m\<close> values; \<open>s.parse()\<close> is radix 10.\<close>
definition from_str_radix :: "nat \<Rightarrow> nat \<Rightarrow> string \<Rightarrow> int_error + nat" where
  "from_str_radix r m s = (case s of [] \<Rightarrow> Inl Empty
     | c # cs \<Rightarrow> if cs = [] \<and> (c = CHR ''+'' \<or> c = CHR ''-'') then Inl InvalidDigit
                 else if c = CHR ''+'' then parse_digits r m 0 cs else parse_digits r m 0 s)"

definition parse_usize :: "string \<Rightarrow> int_error + nat" where
  "parse_usize s = from_str_radix 10 (2 ^ 64) s"

lemma parse_digits_bound: "parse_digits r m acc s = Inr n \<Longrightarrow> acc < m \<Longrightarrow> n < m"
  by (induction r m acc s rule: parse_digits.induct) (auto split: option.splits if_splits)

lemma from_str_radix_bound: "from_str_radix r m s = Inr n \<Longrightarrow> 0 < m \<Longrightarrow> n < m"
  by (auto simp: from_str_radix_def simp del: parse_digits.simps
      split: list.splits if_splits dest: parse_digits_bound)

subsection \<open>Printing and parsing are inverse\<close>

lemma digit_value_lower [simp]:
  "d < r \<Longrightarrow> r \<le> 16 \<Longrightarrow> digit_value r (digit_lower d) = Some d"
  by (auto simp: digit_value_def digit_lower_def Let_def)

lemma is_numeric_digit [simp]: "d < 10 \<Longrightarrow> is_numeric (digit_lower d)"
  by (simp add: is_numeric_def digit_lower_def)

lemma of_char_digit_lower:
  "d < 16 \<Longrightarrow> (of_char (digit_lower d) :: nat) = (if d < 10 then 48 + d else 87 + d)"
  by (simp add: digit_lower_def)

lemma digit_lower_not_sign:
  assumes "d < 16"
  shows "digit_lower d \<noteq> CHR ''+''" and "digit_lower d \<noteq> CHR ''-''"
    and "digit_lower d \<noteq> CHR '':''" and "digit_lower d \<noteq> CHR ''.''"
  using of_char_digit_lower [OF assms] by (auto split: if_splits)

lemma show_radix_set: "2 \<le> r \<Longrightarrow> c \<in> set (show_radix dig r n) \<Longrightarrow> \<exists>d < r. c = dig d"
proof (induction dig r n rule: show_radix.induct)
  case (1 dig r n)
  show ?case
  proof (cases "n < r")
    case True
    with 1 show ?thesis by (auto simp: show_radix.simps [of dig r n])
  next
    case False
    with 1 have "c = dig (n mod r) \<or> c \<in> set (show_radix dig r (n div r))"
      by (auto simp: show_radix.simps [of dig r n])
    moreover from 1 have "n mod r < r" by simp
    ultimately show ?thesis using "1.IH" "1.prems" False by (metis not_le)
  qed
qed

lemma show_radix_not_Nil [simp]: "show_radix dig r n \<noteq> []"
  by (subst show_radix.simps) simp

lemma parse_digits_snoc:
  "parse_digits r m acc (xs @ [c]) = rbind (parse_digits r m acc xs) (\<lambda>v. parse_digits r m v [c])"
  by (induction r m acc xs rule: parse_digits.induct) (auto split: option.splits)

lemma parse_digits_show:
  assumes "2 \<le> r" and "\<forall>d < r. digit_value r (dig d) = Some d"
  shows "n < m \<Longrightarrow> parse_digits r m 0 (show_radix dig r n) = Inr n"
  using assms
proof (induction dig r n rule: show_radix.induct)
  case (1 dig r n)
  show ?case
  proof (cases "n < r")
    case True
    with 1 show ?thesis by (subst show_radix.simps) simp
  next
    case False
    have "n div r < m" using "1.prems"(1) by (meson div_le_dividend order.strict_trans1)
    with 1 False have "parse_digits r m 0 (show_radix dig r (n div r)) = Inr (n div r)" by simp
    with 1 False show ?thesis by (subst show_radix.simps) (simp add: parse_digits_snoc)
  qed
qed

lemma parse_digits_zeros:
  "0 < m \<Longrightarrow> 2 \<le> r \<Longrightarrow> parse_digits r m 0 (replicate k (CHR ''0'') @ s) = parse_digits r m 0 s"
  by (induction k) (auto simp: digit_value_def Let_def)

lemma from_str_radix_eq:
  assumes "s \<noteq> []" and "hd s \<noteq> CHR ''+''" and "hd s \<noteq> CHR ''-''"
  shows "from_str_radix r m s = parse_digits r m 0 s"
  using assms by (cases s) (auto simp: from_str_radix_def simp del: parse_digits.simps)

text \<open>Parsing a printed number, padded or not, gives it back.\<close>

lemma from_str_radix_padded:
  assumes "r \<in> {10, 16}" and "n < m"
  shows "from_str_radix r m (zero_pad w (show_radix digit_lower r n)) = Inr n"
proof -
  let ?s = "zero_pad w (show_radix digit_lower r n)"
  have dig: "\<exists>d < 16. c = digit_lower d" if "c \<in> set ?s" for c
  proof (cases "c = CHR ''0''")
    case True
    then have "(of_char c :: nat) = of_char (digit_lower 0)" by (simp add: digit_lower_def)
    then have "c = digit_lower 0" by (simp only: of_char_eq_iff)
    then show ?thesis by (intro exI [of _ 0]) simp
  next
    case False
    with that have "c \<in> set (show_radix digit_lower r n)" by (auto simp: zero_pad_def)
    with assms(1) obtain d where "d < r" and "c = digit_lower d"
      using show_radix_set [of r c digit_lower n] by auto
    with assms(1) show ?thesis by (intro exI [of _ d]) auto
  qed
  have "?s \<noteq> []" by (simp add: zero_pad_def)
  then have "hd ?s \<in> set ?s" by simp
  with dig digit_lower_not_sign have "hd ?s \<noteq> CHR ''+''" "hd ?s \<noteq> CHR ''-''" by metis+
  with \<open>?s \<noteq> []\<close> have "from_str_radix r m ?s = parse_digits r m 0 ?s" by (rule from_str_radix_eq)
  also have "\<dots> = Inr n"
    using assms by (auto simp: zero_pad_def parse_digits_zeros parse_digits_show)
  finally show ?thesis .
qed

lemma show_dec_numeric: "c \<in> set (show_dec n) \<Longrightarrow> is_numeric c"
  unfolding show_dec_def by (auto dest: show_radix_set [rotated])

lemma show_dec_parse: "n < m \<Longrightarrow> parse_digits 10 m 0 (show_dec n) = Inr n"
  unfolding show_dec_def by (rule parse_digits_show) auto

lemma show_dec_inj:
  assumes "show_dec a = show_dec b"
  shows "a = b"
proof -
  have "Inr a = parse_digits 10 (Suc (a + b)) 0 (show_dec a)" by (simp add: show_dec_parse)
  also have "\<dots> = Inr b" unfolding assms by (simp add: show_dec_parse)
  finally show ?thesis by simp
qed

lemma show_dec_not_Nil [simp]: "show_dec n \<noteq> []"
  by (simp add: show_dec_def)

lemma lower_numeric [simp]: "is_numeric c \<Longrightarrow> char_lower c = c"
  by (simp add: is_numeric_def char_lower_def)

lemma to_lowercase_show_dec [simp]: "to_lowercase (show_dec n) = show_dec n"
  by (simp add: to_lowercase_def map_idI show_dec_numeric)

subsection \<open>UTF-8\<close>

text \<open>The length of the UTF-8 sequence at the front of the bytes, if there is a valid one\<close>
definition utf8_sequence :: "bytes \<Rightarrow> nat option" where
  "utf8_sequence s =
     (let cont = (\<lambda>i lo hi. i < length s \<and> lo \<le> s ! i \<and> s ! i \<le> hi) in
      if s = [] then None
      else let b = s ! 0 in
        if b < 0x80 then Some 1
        else if 0xC2 \<le> b \<and> b \<le> 0xDF then (if cont 1 0x80 0xBF then Some 2 else None)
        else if b = 0xE0 then (if cont 1 0xA0 0xBF \<and> cont 2 0x80 0xBF then Some 3 else None)
        else if b = 0xED then (if cont 1 0x80 0x9F \<and> cont 2 0x80 0xBF then Some 3 else None)
        else if 0xE1 \<le> b \<and> b \<le> 0xEF then (if cont 1 0x80 0xBF \<and> cont 2 0x80 0xBF then Some 3 else None)
        else if b = 0xF0 then
          (if cont 1 0x90 0xBF \<and> cont 2 0x80 0xBF \<and> cont 3 0x80 0xBF then Some 4 else None)
        else if 0xF1 \<le> b \<and> b \<le> 0xF3 then
          (if cont 1 0x80 0xBF \<and> cont 2 0x80 0xBF \<and> cont 3 0x80 0xBF then Some 4 else None)
        else if b = 0xF4 then
          (if cont 1 0x80 0x8F \<and> cont 2 0x80 0xBF \<and> cont 3 0x80 0xBF then Some 4 else None)
        else None)"

lemma utf8_sequence_pos: "utf8_sequence s = Some k \<Longrightarrow> 0 < k"
  by (auto simp: utf8_sequence_def Let_def split: if_splits)

text \<open>\<open>str::from_utf8(s)\<close>: the error carries the number of bytes that are valid.\<close>
function check_utf8 :: "bytes \<Rightarrow> nat \<Rightarrow> nat option" where
  "check_utf8 s n = (if s = [] then None
     else case utf8_sequence s of None \<Rightarrow> Some n | Some k \<Rightarrow> check_utf8 (drop k s) (n + k))"
  by pat_completeness auto
termination by (relation "measure (\<lambda>(s, n). length s)") (auto dest: utf8_sequence_pos)

declare check_utf8.simps [simp del]

definition from_utf8 :: "bytes \<Rightarrow> nat + string" where
  "from_utf8 s = (case check_utf8 s 0 of Some n \<Rightarrow> Inl n | None \<Rightarrow> Inr (map (\<lambda>b. char_of (unat b)) s))"

lemma check_utf8_ascii: "\<forall>b \<in> set s. b < 0x80 \<Longrightarrow> check_utf8 s n = None"
proof (induction s arbitrary: n)
  case Nil
  then show ?case by (simp add: check_utf8.simps)
next
  case (Cons b s)
  then have "utf8_sequence (b # s) = Some 1" by (simp add: utf8_sequence_def Let_def)
  with Cons show ?case by (subst check_utf8.simps) simp
qed

text \<open>ASCII text is valid.\<close>

lemma from_utf8_ascii: "\<forall>b \<in> set s. b < 0x80 \<Longrightarrow> from_utf8 s = Inr (map (\<lambda>b. char_of (unat b)) s)"
  by (simp add: from_utf8_def check_utf8_ascii)

text \<open>\<open>String::from_utf8_lossy(s)\<close>: every maximal invalid sequence becomes U+FFFD.\<close>
definition utf8_invalid_length :: "bytes \<Rightarrow> nat" where
  "utf8_invalid_length s =
     (let cont = (\<lambda>i lo hi. i < length s \<and> lo \<le> s ! i \<and> s ! i \<le> hi); b = s ! 0 in
      if b = 0xE0 then (if cont 1 0xA0 0xBF then 2 else 1)
      else if b = 0xED then (if cont 1 0x80 0x9F then 2 else 1)
      else if 0xE1 \<le> b \<and> b \<le> 0xEF then (if cont 1 0x80 0xBF then 2 else 1)
      else if b = 0xF0 then (if cont 1 0x90 0xBF then (if cont 2 0x80 0xBF then 3 else 2) else 1)
      else if 0xF1 \<le> b \<and> b \<le> 0xF3 then (if cont 1 0x80 0xBF then (if cont 2 0x80 0xBF then 3 else 2) else 1)
      else if b = 0xF4 then (if cont 1 0x80 0x8F then (if cont 2 0x80 0xBF then 3 else 2) else 1)
      else 1)"

lemma utf8_invalid_length_pos: "0 < utf8_invalid_length s"
  by (simp add: utf8_invalid_length_def Let_def)

function from_utf8_lossy :: "bytes \<Rightarrow> string" where
  "from_utf8_lossy s = (if s = [] then []
     else case utf8_sequence s of
       Some k \<Rightarrow> map (\<lambda>b. char_of (unat b)) (take k s) @ from_utf8_lossy (drop k s)
     | None \<Rightarrow> [CHR 0xEF, CHR 0xBF, CHR 0xBD] @ from_utf8_lossy (drop (utf8_invalid_length s) s))"
  by pat_completeness auto
termination by (relation "measure length") (auto simp: utf8_invalid_length_pos dest: utf8_sequence_pos)

declare from_utf8_lossy.simps [simp del]

lemma from_utf8_lossy_valid: "check_utf8 s n = None \<Longrightarrow> from_utf8_lossy s = map (\<lambda>b. char_of (unat b)) s"
proof (induction s n rule: check_utf8.induct)
  case (1 s n)
  show ?case
  proof (cases "s = []")
    case True
    then show ?thesis by (simp add: from_utf8_lossy.simps)
  next
    case False
    with "1.prems" obtain k where k: "utf8_sequence s = Some k" "check_utf8 (drop k s) (n + k) = None"
      by (subst (asm) check_utf8.simps) (auto split: option.splits)
    from "1.IH" [OF False k] have "from_utf8_lossy (drop k s) = map (\<lambda>b. char_of (unat b)) (drop k s)" .
    with False k(1) show ?thesis
      by (subst from_utf8_lossy.simps) (simp flip: map_append)
  qed
qed

lemma of_char_eq_0: "(of_char c :: u8) = 0 \<longleftrightarrow> c = CHR 0x00"
proof -
  have "(of_char c :: u8) = of_nat (of_char c)" by (simp only: of_nat_of_char)
  then have "(of_char c :: u8) = 0 \<longleftrightarrow> 256 dvd (of_char c :: nat)" by (simp add: word_of_nat_eq_0_iff)
  also have "\<dots> \<longleftrightarrow> (of_char c :: nat) = 0"
    using of_char_mod_256 [of c, where 'a = nat] by (metis dvd_eq_mod_eq_0)
  also have "\<dots> \<longleftrightarrow> c = CHR 0x00" using of_char_eq_iff [of c "CHR 0x00", where 'a = nat] by simp
  finally show ?thesis .
qed

text \<open>A byte that continues a UTF-8 sequence, and \<open>s.is_char_boundary(i)\<close>\<close>
definition utf8_continuation :: "char \<Rightarrow> bool" where
  "utf8_continuation c \<longleftrightarrow> (of_char c :: nat) div 64 = 2"

definition char_boundary :: "string \<Rightarrow> nat \<Rightarrow> bool" where
  "char_boundary s i \<longleftrightarrow> i = 0 \<or> i = length s \<or> (i < length s \<and> \<not> utf8_continuation (s ! i))"

text \<open>\<open>s.chars().count()\<close>\<close>
definition char_count :: "string \<Rightarrow> nat" where
  "char_count s = length (filter (\<lambda>c. \<not> utf8_continuation c) s)"

lemma char_count_simps [simp]:
  "char_count [] = 0" "char_count (s @ t) = char_count s + char_count t"
  by (simp_all add: char_count_def)

lemma char_count_le: "char_count s \<le> length s"
  by (simp add: char_count_def)

end
