(* ===== verification/BTreeMap.thy ===== *)
theory BTreeMap
  imports Prelude
begin

text \<open>
  The maps of the Rust standard library the program keeps its data in. The interface
  \<open>keyed_map\<close> states what every client relies on: what a lookup returns after an insertion.
  It is provided by \<open>BTreeMap\<close> (the children of a register tree node), modelled as the list of
  its entries in key order, and by \<open>HashMap\<close> (the collateral registry and cache), modelled as
  a partial function. \<open>ordered_map\<close> adds the in-order iteration of a \<open>BTreeMap\<close>.
\<close>

subsection \<open>The interface\<close>

locale keyed_map =
  fixes get :: "'m \<Rightarrow> 'k \<Rightarrow> 'v option"
    and insert :: "'k \<Rightarrow> 'v \<Rightarrow> 'm \<Rightarrow> 'm"
    and empty :: 'm
    and wf :: "'m \<Rightarrow> bool"
  assumes get_empty: "get empty k = None"
    and get_insert: "wf m \<Longrightarrow> get (insert k v m) k' = (if k' = k then Some v else get m k')"
    and wf_empty: "wf empty"
    and wf_insert: "wf m \<Longrightarrow> wf (insert k v m)"
begin

text \<open>The idiom \<open>if !m.contains_key(k) { m.insert(k, v) }\<close>: the key is then present, and no
  entry that was there before has changed.\<close>

lemma ensure_present:
  "wf m \<Longrightarrow> get (if get m k = None then insert k v m else m) k
     = Some (case get m k of None \<Rightarrow> v | Some w \<Rightarrow> w)"
  by (auto simp: get_insert)

lemma ensure_keeps:
  "wf m \<Longrightarrow> get m k' = Some w \<Longrightarrow> get (if get m k = None then insert k v m else m) k' = Some w"
  by (auto simp: get_insert)

lemma insert_new_keeps:
  "wf m \<Longrightarrow> get m k = None \<Longrightarrow> get m k' = Some w \<Longrightarrow> get (insert k v m) k' = Some w"
  by (auto simp: get_insert)

lemma wf_fold_insert: "wf m \<Longrightarrow> wf (fold (\<lambda>(k, v). insert k v) kvs m)"
  by (induction kvs arbitrary: m) (auto simp: wf_insert)

text \<open>A sequence of insertions is the map of its last bindings.\<close>

lemma get_fold_insert:
  "wf m \<Longrightarrow> get (fold (\<lambda>(k, v). insert k v) kvs m) k
     = (case map_of (rev kvs) k of None \<Rightarrow> get m k | Some v \<Rightarrow> Some v)"
proof (induction kvs arbitrary: m)
  case Nil
  then show ?case by simp
next
  case (Cons kv kvs)
  then show ?case
    by (cases kv) (auto simp: wf_insert get_insert map_add_def split: option.splits)
qed

end

locale ordered_map = keyed_map get insert empty wf
  for get :: "'m \<Rightarrow> 'k::linorder \<Rightarrow> 'v option" and insert empty wf +
  fixes entries :: "'m \<Rightarrow> ('k \<times> 'v) list"
  assumes entries_get: "wf m \<Longrightarrow> map_of (entries m) = get m"
    and entries_sorted: "wf m \<Longrightarrow> sorted_wrt (<) (map fst (entries m))"
begin

lemma entries_distinct: "wf m \<Longrightarrow> distinct (map fst (entries m))"
  using entries_sorted strict_sorted_iff by blast

lemma in_entries_iff: "wf m \<Longrightarrow> (k, v) \<in> set (entries m) \<longleftrightarrow> get m k = Some v"
  by (simp add: map_of_eq_Some_iff entries_distinct flip: entries_get)

lemma entries_from_keys: "wf m \<Longrightarrow> entries m = map (\<lambda>k. (k, the (get m k))) (map fst (entries m))"
  using entries_distinct [of m] entries_get [of m]
  by (auto intro!: map_idI [symmetric] dest!: map_of_is_SomeI simp: comp_def)

text \<open>Iteration is determined by the lookups: two maps with the same lookups have the same
  entries in the same order.\<close>

lemma entries_unique:
  assumes "wf m" and "wf m'" and "get m = get m'"
  shows "entries m = entries m'"
proof -
  have "set (entries m) = set (entries m')"
    using assms by (auto simp: in_entries_iff)
  then have "map fst (entries m) = map fst (entries m')"
    using assms entries_sorted by (metis list.set_map strict_sorted_equal)
  then show ?thesis
    using assms entries_from_keys by metis
qed

end

subsection \<open>BTreeMap\<close>

type_synonym ('k, 'v) btree = "('k \<times> 'v) list"

fun bt_get :: "('k, 'v) btree \<Rightarrow> 'k \<Rightarrow> 'v option" where
  "bt_get [] k = None"
| "bt_get ((k', v) # m) k = (if k = k' then Some v else bt_get m k)"

fun bt_insert :: "'k::linorder \<Rightarrow> 'v \<Rightarrow> ('k, 'v) btree \<Rightarrow> ('k, 'v) btree" where
  "bt_insert k v [] = [(k, v)]"
| "bt_insert k v ((k', v') # m) =
     (if k < k' then (k, v) # (k', v') # m
      else if k = k' then (k, v) # m else (k', v') # bt_insert k v m)"

text \<open>A write through \<open>get_mut\<close>: the value under a key is replaced, if there is one.\<close>
fun bt_modify :: "'k \<Rightarrow> ('v \<Rightarrow> 'v) \<Rightarrow> ('k, 'v) btree \<Rightarrow> ('k, 'v) btree" where
  "bt_modify k f [] = []"
| "bt_modify k f ((k', v) # m) = (if k = k' then (k', f v) # m else (k', v) # bt_modify k f m)"

definition bt_wf :: "('k::linorder, 'v) btree \<Rightarrow> bool" where
  "bt_wf m \<longleftrightarrow> sorted_wrt (<) (map fst m)"

lemma bt_wf_simps [simp]:
  "bt_wf []" "bt_wf ((k, v) # m) \<longleftrightarrow> (\<forall>x \<in> set m. k < fst x) \<and> bt_wf m"
  by (auto simp: bt_wf_def)

lemma bt_get_map_of: "bt_get m = map_of m"
  by (rule ext, induction m) auto

lemma set_bt_insert: "set (bt_insert k v m) \<subseteq> insert (k, v) (set m)"
  by (induction k v m rule: bt_insert.induct) auto

lemma bt_get_insert: "bt_get (bt_insert k v m) k' = (if k' = k then Some v else bt_get m k')"
  by (induction k v m rule: bt_insert.induct) auto

lemma bt_wf_insert: "bt_wf m \<Longrightarrow> bt_wf (bt_insert k v m)"
proof (induction k v m rule: bt_insert.induct)
  case (1 k v)
  then show ?case by simp
next
  case (2 k v k' v' m)
  then show ?case using set_bt_insert [of k v m] by fastforce
qed

lemma keys_bt_modify [simp]: "map fst (bt_modify k f m) = map fst m"
  by (induction k f m rule: bt_modify.induct) auto

lemma bt_wf_modify: "bt_wf (bt_modify k f m) = bt_wf m"
  by (simp add: bt_wf_def)

lemma bt_get_modify: "bt_get (bt_modify k f m) k' = (if k' = k then map_option f (bt_get m k) else bt_get m k')"
  by (induction k f m rule: bt_modify.induct) auto

interpretation btree: ordered_map bt_get bt_insert "[]" bt_wf "\<lambda>m. m"
  by unfold_locales (auto simp: bt_get_insert bt_wf_insert bt_get_map_of [symmetric] bt_wf_def [symmetric])

subsection \<open>HashMap\<close>

definition hm_insert :: "'k \<Rightarrow> 'v \<Rightarrow> ('k \<rightharpoonup> 'v) \<Rightarrow> ('k \<rightharpoonup> 'v)" where
  "hm_insert k v m = m(k \<mapsto> v)"

interpretation hashmap: keyed_map "\<lambda>m k. m k" hm_insert Map.empty "\<lambda>_. True"
  by unfold_locales (auto simp: hm_insert_def)

end
