(* ===== verification/Node.thy ===== *)
theory Node
  imports RustString BTreeMap "HOL-Library.Multiset"
begin

text \<open>
  The register tree (\<open>lib/src/node.rs\<close>): the tree type, construction, lookup by path, insertion,
  merging and JSON export. A \<open>&mut Node\<close> returned by \<open>create_hierarchy\<close> is modelled by passing
  the function that the caller applies to the node it points to; \<open>None\<close> is the panic of its
  \<open>expect\<close>.
\<close>

subsection \<open>The tree\<close>

datatype node_type = NodeRoot | NodeSection | NodeRecord | NodeField u64

datatype node = Node
  (node_name: string) (node_description: string) (node_kind: node_type)
  (node_children: "(string \<times> node) list")

definition node_root :: node where
  "node_root = Node [] [] NodeRoot []"

definition node_section :: "string \<Rightarrow> node" where
  "node_section name = Node (to_lowercase name) [] NodeSection []"

definition node_record :: "string \<Rightarrow> node" where
  "node_record name = Node (to_lowercase name) [] NodeRecord []"

definition node_field :: "string \<Rightarrow> u64 \<Rightarrow> node" where
  "node_field name value = Node (to_lowercase name) [] (NodeField value) []"

definition node_get :: "node \<Rightarrow> string \<Rightarrow> node option" where
  "node_get n name = bt_get (node_children n) name"

text \<open>A write through the reference returned by \<open>get_mut\<close>\<close>
definition node_modify :: "node \<Rightarrow> string \<Rightarrow> (node \<Rightarrow> node) \<Rightarrow> node" where
  "node_modify n name f =
     Node (node_name n) (node_description n) (node_kind n) (bt_modify name f (node_children n))"

fun node_get_path :: "node \<Rightarrow> string list \<Rightarrow> node option" where
  "node_get_path n [] = Some n"
| "node_get_path n (name # ps) = do { c \<leftarrow> node_get n name; node_get_path c ps }"

definition node_get_by_path :: "node \<Rightarrow> string \<Rightarrow> node option" where
  "node_get_by_path n path = node_get_path n (split_on CHR ''.'' path)"

definition node_value :: "node \<Rightarrow> u64 option" where
  "node_value n = (case node_kind n of NodeField v \<Rightarrow> Some v | _ \<Rightarrow> None)"

definition node_get_value_by_path :: "node \<Rightarrow> string \<Rightarrow> u64 option" where
  "node_get_value_by_path n path = do { m \<leftarrow> node_get_by_path n path; node_value m }"

definition node_add :: "node \<Rightarrow> node \<Rightarrow> node" where
  "node_add n c =
     Node (node_name n) (node_description n) (node_kind n) (bt_insert (node_name c) c (node_children n))"

definition children :: "node \<Rightarrow> node list" where
  "children n = map snd (node_children n)"

subsection \<open>Merging\<close>

text \<open>The candidate names of \<open>merge_instance\<close>: the name itself, then \<open>name0\<close>, \<open>name1\<close>, \dots\<close>
definition instance_candidate :: "string \<Rightarrow> nat \<Rightarrow> string" where
  "instance_candidate name i = (case i of 0 \<Rightarrow> name | Suc j \<Rightarrow> name @ show_dec j)"

lemma instance_candidate_inj: "instance_candidate name i = instance_candidate name j \<Longrightarrow> i = j"
  by (auto simp: instance_candidate_def split: nat.splits dest: show_dec_inj)

lemma finite_candidates: "finite {j. i \<le> j \<and> instance_candidate name j \<in> set (map fst m)}"
proof -
  have "inj (instance_candidate name)" by (auto intro: injI dest: instance_candidate_inj)
  then have "finite (instance_candidate name -` set (map fst m))" by (intro finite_vimageI) simp_all
  then show ?thesis by (rule rev_finite_subset) auto
qed

text \<open>The loop \<open>while self.children.contains_key(&other.name)\<close>, with the loop counter\<close>
function instance_name :: "(string, node) btree \<Rightarrow> string \<Rightarrow> nat \<Rightarrow> string" where
  "instance_name m name i =
     (if instance_candidate name i \<in> set (map fst m) then instance_name m name (Suc i)
      else instance_candidate name i)"
  by pat_completeness auto
termination
proof (relation "measure (\<lambda>(m, name, i). card {j. i \<le> j \<and> instance_candidate name j \<in> set (map fst m)})",
    goal_cases)
  case 1
  show ?case by simp
next
  case (2 m name i)
  have "{j. Suc i \<le> j \<and> instance_candidate name j \<in> set (map fst m)}
      \<subset> {j. i \<le> j \<and> instance_candidate name j \<in> set (map fst m)}"
    using 2 by (intro psubsetI) (auto simp: set_eq_iff intro!: exI [of _ i])
  then show ?case by (auto intro!: psubset_card_mono finite_candidates simp del: set_map)
qed

declare instance_name.simps [simp del]

lemma size_node_children [termination_simp]:
  "size_list (\<lambda>p. size (snd p)) (node_children n) < size n"
  by (cases n) (auto intro!: le_imp_less_Suc size_list_pointwise)

definition merge_instance :: "node \<Rightarrow> node \<Rightarrow> node" where
  "merge_instance self other =
     node_add self (Node (instance_name (node_children self) (node_name other) 0)
       (node_description other) (node_kind other) (node_children other))"

fun node_merge :: "node \<Rightarrow> node \<Rightarrow> node"
  and merge_children :: "node \<Rightarrow> (string \<times> node) list \<Rightarrow> node" where
  "node_merge self other = merge_children self (node_children other)"
| "merge_children self [] = self"
| "merge_children self ((key, child) # rest) = merge_children
     (case node_get self (node_name child) of
        Some self_child \<Rightarrow>
          (case node_kind self_child of
             NodeRecord \<Rightarrow> merge_instance self child
           | NodeField _ \<Rightarrow> merge_instance self child
           | _ \<Rightarrow> node_modify self (node_name child) (\<lambda>_. node_merge self_child child))
      | None \<Rightarrow> node_add self child) rest"

subsection \<open>Creating a hierarchy\<close>

text \<open>The loop of \<open>create_hierarchy_from_iter\<close>; \<open>f\<close> is applied to the node at the end of the path.\<close>
fun create_hierarchy_from_iter :: "node \<Rightarrow> string list \<Rightarrow> (node \<Rightarrow> node) \<Rightarrow> node option" where
  "create_hierarchy_from_iter n [] f = Some (f n)"
| "create_hierarchy_from_iter n (name # path) f =
     (let n' = (if node_get n name = None then node_add n (node_section name) else n)
      in case node_get n' name of None \<Rightarrow> None
         | Some c \<Rightarrow> map_option (\<lambda>c'. node_modify n' name (\<lambda>_. c')) (create_hierarchy_from_iter c path f))"

definition create_hierarchy :: "node \<Rightarrow> string \<Rightarrow> (node \<Rightarrow> node) \<Rightarrow> node option" where
  "create_hierarchy n path f = create_hierarchy_from_iter n (split_on CHR ''.'' path) f"

subsection \<open>JSON export\<close>

text \<open>The calls made on the serializer, as the JSON value they build.\<close>
datatype json = JString string | JObject "(string \<times> json) list"

definition hex_value :: "u64 \<Rightarrow> string" where
  "hex_value v = ''0x'' @ show_hex (unat v)"

fun node_serialize :: "node \<Rightarrow> json" where
  "node_serialize (Node name descr kind cs) =
     (case kind of
        NodeField v \<Rightarrow>
          (if cs = [] then JString (hex_value v)
           else JObject ((''_value'', JString (hex_value v)) # map (\<lambda>p. (fst p, node_serialize (snd p))) cs))
      | NodeRoot \<Rightarrow> JObject [(''crashlog_data'', JObject (map (\<lambda>p. (fst p, node_serialize (snd p))) cs))]
      | _ \<Rightarrow> JObject (map (\<lambda>p. (fst p, node_serialize (snd p))) cs))"

subsection \<open>Lookups after updates\<close>

lemma node_sel_add [simp]:
  "node_name (node_add n c) = node_name n" "node_kind (node_add n c) = node_kind n"
  "node_description (node_add n c) = node_description n"
  by (simp_all add: node_add_def)

lemma node_sel_modify [simp]:
  "node_name (node_modify n x f) = node_name n" "node_kind (node_modify n x f) = node_kind n"
  "node_description (node_modify n x f) = node_description n"
  by (simp_all add: node_modify_def)

lemma node_get_add [simp]:
  "node_get (node_add n c) x = (if x = node_name c then Some c else node_get n x)"
  by (simp add: node_get_def node_add_def btree.get_insert bt_get_insert)

lemma node_get_modify [simp]:
  "node_get (node_modify n x f) y = (if y = x then map_option f (node_get n x) else node_get n y)"
  by (simp add: node_get_def node_modify_def bt_get_modify)

lemma node_get_section [simp]: "node_get (node_section s) x = None"
  by (simp add: node_get_def node_section_def)

lemma node_get_Some_key: "node_get n x = Some c \<Longrightarrow> x \<in> set (map fst (node_children n))"
  by (auto simp: node_get_def bt_get_map_of dest: map_of_SomeD intro: rev_image_eqI)

lemma node_get_None_iff: "node_get n x = None \<longleftrightarrow> x \<notin> set (map fst (node_children n))"
  by (simp add: node_get_def bt_get_map_of map_of_eq_None_iff)

lemma instance_name_fresh: "instance_name m name i \<notin> set (map fst m)"
  by (induction m name i rule: instance_name.induct)
    (subst instance_name.simps, simp del: set_map)

text \<open>The name chosen for a duplicate is the first free candidate.\<close>

lemma instance_name_first:
  "\<exists>j \<ge> i. instance_name m name i = instance_candidate name j
     \<and> (\<forall>k. i \<le> k \<and> k < j \<longrightarrow> instance_candidate name k \<in> set (map fst m))"
proof (induction m name i rule: instance_name.induct)
  case (1 m name i)
  show ?case
  proof (cases "instance_candidate name i \<in> set (map fst m)")
    case True
    from "1.IH" [OF True] obtain j where j: "Suc i \<le> j"
      "instance_name m name (Suc i) = instance_candidate name j"
      "\<forall>k. Suc i \<le> k \<and> k < j \<longrightarrow> instance_candidate name k \<in> set (map fst m)" by blast
    with True show ?thesis
      by (intro exI [of _ j]) (auto simp: instance_name.simps [of m name i] le_Suc_eq Suc_le_eq
          simp del: set_map dest: le_neq_implies_less)
  next
    case False
    then show ?thesis
      by (intro exI [of _ i]) (auto simp: instance_name.simps [of m name i] simp del: set_map)
  qed
qed

subsection \<open>Trees that extend another\<close>

text \<open>\<open>n'\<close> has a node of the same kind and name at every path of \<open>n\<close>.\<close>
definition node_extends :: "node \<Rightarrow> node \<Rightarrow> bool" where
  "node_extends n n' \<longleftrightarrow> (\<forall>ps m. node_get_path n ps = Some m \<longrightarrow>
     (\<exists>m'. node_get_path n' ps = Some m' \<and> node_kind m' = node_kind m \<and> node_name m' = node_name m))"

lemma node_extends_refl [intro, simp]: "node_extends n n"
  by (auto simp: node_extends_def)

lemma node_extends_trans: "node_extends a b \<Longrightarrow> node_extends b c \<Longrightarrow> node_extends a c"
  unfolding node_extends_def by metis

lemma node_extends_children:
  assumes "node_kind n' = node_kind n" and "node_name n' = node_name n"
    and "\<And>x c. node_get n x = Some c \<Longrightarrow> \<exists>c'. node_get n' x = Some c' \<and> node_extends c c'"
  shows "node_extends n n'"
  unfolding node_extends_def
proof (intro allI impI)
  fix ps m assume m: "node_get_path n ps = Some m"
  show "\<exists>m'. node_get_path n' ps = Some m' \<and> node_kind m' = node_kind m \<and> node_name m' = node_name m"
  proof (cases ps)
    case Nil
    with m assms show ?thesis by simp
  next
    case (Cons x qs)
    with m obtain c where c: "node_get n x = Some c" "node_get_path c qs = Some m"
      by (auto split: bind_splits)
    from assms(3) [OF c(1)] obtain c' where "node_get n' x = Some c'" "node_extends c c'" by blast
    with c Cons show ?thesis by (auto simp: node_extends_def)
  qed
qed

lemma node_extends_add: "node_get n (node_name c) = None \<Longrightarrow> node_extends n (node_add n c)"
  by (rule node_extends_children) auto

lemma node_extends_modify:
  "node_get n x = Some c \<Longrightarrow> node_extends c (f c) \<Longrightarrow> node_extends n (node_modify n x f)"
  by (rule node_extends_children) auto

lemma node_extends_merge_instance: "node_extends n (merge_instance n c)"
  unfolding merge_instance_def
  by (rule node_extends_add) (simp add: node_get_None_iff instance_name_fresh del: set_map)

lemma node_extends_merge:
  shows "node_extends self (node_merge self other)"
    and "node_extends self (merge_children self cs)"
proof (induction self other and self cs rule: node_merge_merge_children.induct)
  case (1 self other)
  then show ?case by simp
next
  case (2 self)
  then show ?case by simp
next
  case (3 self key child rest)
  let ?step = "case node_get self (node_name child) of
        Some self_child \<Rightarrow>
          (case node_kind self_child of
             NodeRecord \<Rightarrow> merge_instance self child
           | NodeField _ \<Rightarrow> merge_instance self child
           | _ \<Rightarrow> node_modify self (node_name child) (\<lambda>_. node_merge self_child child))
      | None \<Rightarrow> node_add self child"
  have "node_extends self ?step"
    using "3.IH"(1,2)
    by (auto intro: node_extends_add node_extends_merge_instance node_extends_modify
        split: option.split node_type.split)
  moreover have "node_extends ?step (merge_children ?step rest)" by (rule "3.IH"(3))
  ultimately show ?case by (auto intro: node_extends_trans)
qed

subsection \<open>Well-formed trees\<close>

text \<open>The children of every node are in key order, each under its own name.\<close>
fun node_wf :: "node \<Rightarrow> bool" where
  "node_wf (Node name descr kind cs) \<longleftrightarrow>
     bt_wf cs \<and> (\<forall>p \<in> set cs. fst p = node_name (snd p) \<and> node_wf (snd p))"

lemma node_wf_iff:
  "node_wf n \<longleftrightarrow> bt_wf (node_children n) \<and>
     (\<forall>p \<in> set (node_children n). fst p = node_name (snd p) \<and> node_wf (snd p))"
  by (cases n) simp

lemma node_wf_new [simp, intro]:
  "node_wf node_root" "node_wf (node_section s)" "node_wf (node_record s)" "node_wf (node_field s v)"
  by (simp_all add: node_root_def node_section_def node_record_def node_field_def)

lemma node_wf_get: "node_wf n \<Longrightarrow> node_get n x = Some c \<Longrightarrow> node_wf c \<and> node_name c = x"
  by (force simp: node_wf_iff [of n] node_get_def bt_get_map_of dest: map_of_SomeD)

lemma node_wf_extend:
  assumes "node_wf n" and "set cs \<subseteq> insert (x, c) (set (node_children n))" and "bt_wf cs"
    and "node_name c = x" and "node_wf c"
  shows "node_wf (Node a b k cs)"
proof -
  have "fst p = node_name (snd p) \<and> node_wf (snd p)" if p: "p \<in> set cs" for p
  proof (cases "p = (x, c)")
    case True
    then show ?thesis using assms(4,5) by simp
  next
    case False
    with p assms(2) have "p \<in> set (node_children n)" by blast
    with assms(1) show ?thesis by (simp add: node_wf_iff [of n])
  qed
  with assms(3) show ?thesis by simp
qed

lemma node_wf_add:
  assumes "node_wf n" and "node_wf c"
  shows "node_wf (node_add n c)"
  unfolding node_add_def using assms
  by (intro node_wf_extend [of n _ "node_name c" c] set_bt_insert)
    (simp_all add: bt_wf_insert node_wf_iff [of n])

lemma set_bt_modify:
  "bt_get m k = Some v \<Longrightarrow> set (bt_modify k f m) \<subseteq> insert (k, f v) (set m)"
  by (induction k f m rule: bt_modify.induct) (auto split: if_splits)

lemma bt_modify_absent: "bt_get m k = None \<Longrightarrow> bt_modify k f m = m"
  by (induction k f m rule: bt_modify.induct) (auto split: if_splits)

lemma node_wf_modify:
  assumes "node_wf n" and "\<And>c. node_get n x = Some c \<Longrightarrow> node_wf (f c) \<and> node_name (f c) = x"
  shows "node_wf (node_modify n x f)"
proof (cases "node_get n x")
  case None
  with assms(1) show ?thesis by (cases n) (simp add: node_modify_def node_get_def bt_modify_absent)
next
  case (Some c)
  then have "set (bt_modify x f (node_children n)) \<subseteq> insert (x, f c) (set (node_children n))"
    by (intro set_bt_modify) (simp add: node_get_def)
  with assms Some show ?thesis
    unfolding node_modify_def
    by (intro node_wf_extend [of n _ x "f c"]) (simp_all add: bt_wf_modify node_wf_iff [of n])
qed

lemma node_wf_rename: "node_wf c \<Longrightarrow> node_wf (Node x (node_description c) k (node_children c))"
  by (simp add: node_wf_iff [of c])

lemma node_wf_merge_instance: "node_wf n \<Longrightarrow> node_wf c \<Longrightarrow> node_wf (merge_instance n c)"
  unfolding merge_instance_def by (intro node_wf_add node_wf_rename)

lemma node_name_merge:
  shows "node_name (node_merge self other) = node_name self"
    and "node_name (merge_children self cs) = node_name self"
  using node_extends_merge [of self] unfolding node_extends_def
  by (force dest: spec [of _ "[]"])+

lemma node_wf_merge_both:
  shows "node_wf self \<Longrightarrow> node_wf other \<Longrightarrow> node_wf (node_merge self other)"
    and "node_wf self \<Longrightarrow> (\<forall>p \<in> set cs. node_wf (snd p)) \<Longrightarrow> node_wf (merge_children self cs)"
proof (induction self other and self cs rule: node_merge_merge_children.induct)
  case (1 self other)
  then show ?case by (auto simp: node_wf_iff [of other])
next
  case (2 self)
  then show ?case by simp
next
  case (3 self key child rest)
  let ?step = "case node_get self (node_name child) of
        Some self_child \<Rightarrow>
          (case node_kind self_child of
             NodeRecord \<Rightarrow> merge_instance self child
           | NodeField _ \<Rightarrow> merge_instance self child
           | _ \<Rightarrow> node_modify self (node_name child) (\<lambda>_. node_merge self_child child))
      | None \<Rightarrow> node_add self child"
  have "node_wf ?step"
    using "3.prems" "3.IH"(1,2)
    by (auto intro!: node_wf_add node_wf_merge_instance node_wf_modify
        simp: node_name_merge(1) dest: node_wf_get split: option.split node_type.split
        simp del: node_merge.simps)
  then show ?case using "3.IH"(3) "3.prems" by simp
qed

subsection \<open>The values stored in a tree\<close>

definition kind_value :: "node_type \<Rightarrow> u64 multiset" where
  "kind_value k = (case k of NodeField v \<Rightarrow> {#v#} | _ \<Rightarrow> {#})"

text \<open>The values of all the fields of a tree\<close>
fun node_values :: "node \<Rightarrow> u64 multiset" where
  "node_values (Node name descr kind cs) =
     kind_value kind + sum_list (map (\<lambda>p. node_values (snd p)) cs)"

definition children_values :: "(string \<times> node) list \<Rightarrow> u64 multiset" where
  "children_values cs = sum_list (map (\<lambda>p. node_values (snd p)) cs)"

lemma children_values_simps [simp]:
  "children_values [] = {#}" "children_values (p # cs) = node_values (snd p) + children_values cs"
  by (simp_all add: children_values_def)

lemma node_values_Node [simp]: "node_values (Node a b k cs) = kind_value k + children_values cs"
  by (simp add: children_values_def)

declare node_values.simps [simp del]

lemma node_values_eq: "node_values n = kind_value (node_kind n) + children_values (node_children n)"
  by (cases n) simp

lemma children_values_insert:
  "bt_get m k = None \<Longrightarrow> children_values (bt_insert k c m) = node_values c + children_values m"
  by (induction k c m rule: bt_insert.induct) (auto split: if_splits)

lemma children_values_modify:
  "bt_get m k = Some c \<Longrightarrow>
   children_values (bt_modify k f m) + node_values c = children_values m + node_values (f c)"
  by (induction k f m rule: bt_modify.induct) (auto split: if_splits simp: ac_simps)

lemma node_values_add:
  "node_get n (node_name c) = None \<Longrightarrow> node_values (node_add n c) = node_values n + node_values c"
  by (simp add: node_values_eq [of n] node_values_eq [of "node_add n c"] node_add_def node_get_def
      children_values_insert ac_simps)

lemma node_values_modify:
  "node_get n x = Some c \<Longrightarrow>
   node_values (node_modify n x f) + node_values c = node_values n + node_values (f c)"
  using children_values_modify [of "node_children n" x c f]
  by (simp add: node_values_eq [of n] node_values_eq [of "node_modify n x f"] node_modify_def
      node_get_def ac_simps)

lemma node_values_merge_instance: "node_values (merge_instance n c) = node_values n + node_values c"
  unfolding merge_instance_def
  by (subst node_values_add)
    (simp_all add: node_get_None_iff instance_name_fresh node_values_eq [of c] del: set_map)

lemma node_values_modify_between:
  assumes "node_get n x = Some c" and "node_values c \<subseteq># node_values d"
    and "node_values d \<subseteq># node_values c + V"
  shows "node_values n \<subseteq># node_values (node_modify n x (\<lambda>_. d))"
    and "node_values (node_modify n x (\<lambda>_. d)) \<subseteq># node_values n + V"
proof -
  let ?n' = "node_modify n x (\<lambda>_. d)"
  have eq: "node_values ?n' + node_values c = node_values n + node_values d"
    using node_values_modify [OF assms(1), of "\<lambda>_. d"] .
  from assms(2) have "node_values n + node_values c \<subseteq># node_values ?n' + node_values c"
    unfolding eq by simp
  then show "node_values n \<subseteq># node_values ?n'" by simp
  from assms(3) have "node_values ?n' + node_values c \<subseteq># (node_values n + V) + node_values c"
    unfolding eq by (simp add: ac_simps)
  then show "node_values ?n' \<subseteq># node_values n + V" by simp
qed

lemma children_values_sub: "children_values (node_children n) \<subseteq># node_values n"
  by (simp add: node_values_eq)

lemma node_values_merge_between:
  shows "node_values self \<subseteq># node_values (node_merge self other)
       \<and> node_values (node_merge self other) \<subseteq># node_values self + children_values (node_children other)"
    and "node_values self \<subseteq># node_values (merge_children self cs)
       \<and> node_values (merge_children self cs) \<subseteq># node_values self + children_values cs"
proof (induction self other and self cs rule: node_merge_merge_children.induct)
  case (1 self other)
  then show ?case by simp
next
  case (2 self)
  then show ?case by simp
next
  case (3 self key child rest)
  let ?step = "case node_get self (node_name child) of
        Some self_child \<Rightarrow>
          (case node_kind self_child of
             NodeRecord \<Rightarrow> merge_instance self child
           | NodeField _ \<Rightarrow> merge_instance self child
           | _ \<Rightarrow> node_modify self (node_name child) (\<lambda>_. node_merge self_child child))
      | None \<Rightarrow> node_add self child"
  have into: "node_values self \<subseteq># node_values (node_modify self (node_name child) (\<lambda>_. node_merge c child))
      \<and> node_values (node_modify self (node_name child) (\<lambda>_. node_merge c child))
          \<subseteq># node_values self + node_values child"
    if c: "node_get self (node_name child) = Some c" and IH: "node_values c \<subseteq># node_values (node_merge c child)
       \<and> node_values (node_merge c child) \<subseteq># node_values c + children_values (node_children child)" for c
  proof -
    have "node_values (node_merge c child) \<subseteq># node_values c + node_values child"
      using IH children_values_sub [of child] by (meson subset_mset.add_left_mono subset_mset.order_trans)
    then show ?thesis using node_values_modify_between [OF c] IH by blast
  qed
  have step: "node_values self \<subseteq># node_values ?step \<and> node_values ?step \<subseteq># node_values self + node_values child"
    using "3.IH"(1,2) into
    by (auto simp: node_values_add node_values_merge_instance simp del: node_merge.simps
        split: option.split node_type.split)
  then show ?case
    using "3.IH"(3) by (auto simp: ac_simps intro: subset_mset.order_trans)
qed

subsection \<open>Hierarchies\<close>

lemma node_get_path_section: "ps \<noteq> [] \<Longrightarrow> node_get_path (node_section s) ps = None"
  by (cases ps) simp_all

lemma node_get_path_add:
  "node_get_path (node_add n c) (x # ps) =
     (if x = node_name c then node_get_path c ps else node_get_path n (x # ps))"
  by simp

lemma node_name_record [simp]: "node_name (node_record s) = to_lowercase s"
  by (simp add: node_record_def)

lemma node_name_section [simp]: "node_name (node_section s) = to_lowercase s"
  by (simp add: node_section_def)

text \<open>The two ways through one round of the loop: the child exists, or it is created.\<close>

lemma create_hierarchy_step:
  "create_hierarchy_from_iter n (x # xs) f =
     (case node_get n x of
        Some c \<Rightarrow> map_option (\<lambda>c'. node_modify n x (\<lambda>_. c')) (create_hierarchy_from_iter c xs f)
      | None \<Rightarrow>
          if to_lowercase x = x
          then map_option (\<lambda>c'. node_modify (node_add n (node_section x)) x (\<lambda>_. c'))
                 (create_hierarchy_from_iter (node_section x) xs f)
          else None)"
  by (auto simp: Let_def split: option.split)

declare create_hierarchy_from_iter.simps(2) [simp del]

lemma create_hierarchy_from_iter_None_iff:
  "create_hierarchy_from_iter n ps f = None \<longleftrightarrow>
     (\<exists>i < length ps. node_get_path n (take (Suc i) ps) = None \<and> to_lowercase (ps ! i) \<noteq> ps ! i)"
proof (induction ps arbitrary: n)
  case Nil
  then show ?case by simp
next
  case (Cons x xs)
  show ?case
  proof (cases "node_get n x")
    case None
    then have "(\<exists>i < length (x # xs). node_get_path n (take (Suc i) (x # xs)) = None
        \<and> to_lowercase ((x # xs) ! i) \<noteq> (x # xs) ! i)
      \<longleftrightarrow> to_lowercase x \<noteq> x \<or> (\<exists>i < length xs. to_lowercase (xs ! i) \<noteq> xs ! i)"
      by (auto simp: less_Suc_eq_0_disj)
    moreover have gone: "node_get_path (node_section x) (take (Suc i) xs) = None" if "i < length xs" for i
      using that by (intro node_get_path_section) (cases xs, auto)
    have "create_hierarchy_from_iter (node_section x) xs f = None \<longleftrightarrow>
        (\<exists>i < length xs. to_lowercase (xs ! i) \<noteq> xs ! i)"
      unfolding Cons.IH using gone by blast
    with calculation show ?thesis using None by (auto simp: create_hierarchy_step)
  next
    case (Some c)
    then have "(\<exists>i < length (x # xs). node_get_path n (take (Suc i) (x # xs)) = None
        \<and> to_lowercase ((x # xs) ! i) \<noteq> (x # xs) ! i)
      \<longleftrightarrow> (\<exists>i < length xs. node_get_path c (take (Suc i) xs) = None \<and> to_lowercase (xs ! i) \<noteq> xs ! i)"
      by (auto simp: less_Suc_eq_0_disj)
    with Some Cons.IH [of c] show ?thesis by (simp add: create_hierarchy_step)
  qed
qed

lemma create_hierarchy_from_iter_target:
  "create_hierarchy_from_iter n ps f = Some n' \<Longrightarrow>
   node_get_path n' ps =
     Some (f (case node_get_path n ps of Some m \<Rightarrow> m | None \<Rightarrow> node_section (last ps)))"
proof (induction ps arbitrary: n n')
  case Nil
  then show ?case by simp
next
  case (Cons x xs)
  show ?case
  proof (cases "node_get n x")
    case None
    with Cons.prems obtain c' where c': "create_hierarchy_from_iter (node_section x) xs f = Some c'"
      and "n' = node_modify (node_add n (node_section x)) x (\<lambda>_. c')" and "to_lowercase x = x"
      by (auto simp: create_hierarchy_step split: if_splits)
    with None Cons.IH [OF c'] show ?thesis
      by (cases "xs = []") (auto simp: node_get_path_section)
  next
    case (Some c)
    with Cons.prems obtain c' where c': "create_hierarchy_from_iter c xs f = Some c'"
      and "n' = node_modify n x (\<lambda>_. c')"
      by (auto simp: create_hierarchy_step)
    with Some Cons.IH [OF c'] show ?thesis
      by (cases "xs = []") (auto split: option.split)
  qed
qed

lemma create_hierarchy_from_iter_wf:
  assumes f: "\<And>m. node_wf m \<Longrightarrow> node_wf (f m) \<and> node_name (f m) = node_name m"
  shows "create_hierarchy_from_iter n ps f = Some n' \<Longrightarrow> node_wf n \<Longrightarrow>
    node_wf n' \<and> node_name n' = node_name n"
proof (induction ps arbitrary: n n')
  case Nil
  with f show ?case by auto
next
  case (Cons x xs)
  let ?n = "if node_get n x = None then node_add n (node_section x) else n"
  from Cons.prems obtain c c' where c: "node_get ?n x = Some c"
    and c': "create_hierarchy_from_iter c xs f = Some c'" and n': "n' = node_modify ?n x (\<lambda>_. c')"
    by (auto simp: create_hierarchy_step split: option.splits if_splits)
  have wf: "node_wf ?n" using Cons.prems(2) by (simp add: node_wf_add)
  with c have "node_wf c" and "node_name c = x" using node_wf_get by blast+
  with Cons.IH [OF c'] have "node_wf c'" and "node_name c' = x" by auto
  with wf show ?case unfolding n' by (auto intro: node_wf_modify)
qed

text \<open>Nodes outside the path keep their kind and name.\<close>

lemma create_hierarchy_from_iter_frame:
  "create_hierarchy_from_iter n ps f = Some n' \<Longrightarrow> \<not> prefix ps qs \<Longrightarrow> node_get_path n qs = Some m \<Longrightarrow>
   \<exists>m'. node_get_path n' qs = Some m' \<and> node_kind m' = node_kind m \<and> node_name m' = node_name m"
proof (induction ps arbitrary: n n' qs)
  case Nil
  then show ?case by simp
next
  case (Cons x xs)
  let ?n = "if node_get n x = None then node_add n (node_section x) else n"
  from Cons.prems obtain c c' where c: "node_get ?n x = Some c"
    and c': "create_hierarchy_from_iter c xs f = Some c'" and n': "n' = node_modify ?n x (\<lambda>_. c')"
    by (auto simp: create_hierarchy_step split: option.splits if_splits)
  show ?case
  proof (cases qs)
    case Nil
    with Cons.prems n' show ?thesis by auto
  next
    case (Cons y ys)
    show ?thesis
    proof (cases "y = x")
      case True
      with Cons Cons.prems(3) obtain d where d: "node_get n x = Some d" "node_get_path d ys = Some m"
        by (auto split: bind_splits)
      with c have "c = d" by simp
      with Cons.IH [OF c', of ys] d Cons.prems(2) True Cons n' c show ?thesis by auto
    next
      case False
      with Cons Cons.prems(3) n' c show ?thesis by (auto split: bind_splits if_splits)
    qed
  qed
qed

subsection \<open>Properties\<close>

lemma node_extends_value:
  "node_extends n n' \<Longrightarrow> node_get_value_by_path n path = Some v \<Longrightarrow>
   node_get_value_by_path n' path = Some v"
  unfolding node_get_value_by_path_def node_get_by_path_def node_extends_def node_value_def
  by (fastforce split: bind_splits node_type.splits)

text \<open>C25. Merging a register tree into another never hides or changes a register that was already
  decoded: every value that could be read by a path is still read by that path.\<close>
theorem merge_keeps_values:
  assumes "node_get_value_by_path self path = Some v"
  shows "node_get_value_by_path (node_merge self other) path = Some v"
  using node_extends_merge(1) assms by (rule node_extends_value)

theorem merge_keeps_values_witness:
  "node_get_value_by_path (node_merge (node_add node_root (node_field ''foo'' 1))
     (node_add node_root (node_field ''foo'' 2))) ''foo'' = Some 1"
  by (rule merge_keeps_values) code_simp

text \<open>Merging neither loses a value of the receiving tree nor invents or duplicates one: the
  values of the result lie between those of the receiving tree and those of the two trees
  together.\<close>
theorem merge_values_bounded:
  "node_values self \<subseteq># node_values (node_merge self other)
   \<and> node_values (node_merge self other) \<subseteq># node_values self + children_values (node_children other)"
  by (rule node_values_merge_between(1))

text \<open>When a record (or a register) of the same name is already there, the merged one is kept
  beside it under the first free name \<open>name0\<close>, \<open>name1\<close>, \dots, with its content unchanged, and
  every other child is left alone.\<close>
theorem merge_duplicate_gets_fresh_name:
  assumes "node_get self (node_name c) = Some d"
    and "node_kind d = NodeRecord \<or> (\<exists>v. node_kind d = NodeField v)"
  shows "\<exists>j. let name = instance_candidate (node_name c) (Suc j);
        merged = node_merge self (Node a b k [(key, c)]) in
      node_get self name = None
      \<and> (\<forall>i < j. node_get self (instance_candidate (node_name c) (Suc i)) \<noteq> None)
      \<and> node_get merged name = Some (Node name (node_description c) (node_kind c) (node_children c))
      \<and> (\<forall>x. x \<noteq> name \<longrightarrow> node_get merged x = node_get self x)"
proof -
  let ?keys = "set (map fst (node_children self))"
  obtain j where j: "instance_name (node_children self) (node_name c) 0 = instance_candidate (node_name c) j"
    and first: "\<forall>i < j. instance_candidate (node_name c) i \<in> ?keys"
    using instance_name_first [of 0 "node_children self" "node_name c"] by auto
  have free: "instance_candidate (node_name c) j \<notin> ?keys"
    unfolding j [symmetric] by (rule instance_name_fresh)
  have "node_name c \<in> ?keys" using assms(1) by (rule node_get_Some_key)
  then obtain j' where j': "j = Suc j'"
    using free by (cases j) (simp_all add: instance_candidate_def)
  have merged: "node_merge self (Node a b k [(key, c)]) = merge_instance self c"
    using assms by (auto split: node_type.split)
  show ?thesis
    unfolding Let_def merged merge_instance_def j
    using j' first free by (intro exI [of _ j']) (auto simp: node_get_None_iff simp del: set_map)
qed

theorem merge_duplicate_gets_fresh_name_witness:
  "\<exists>j. let name = instance_candidate ''mca'' (Suc j);
        merged = node_merge (node_add node_root (node_record ''mca'')) (Node [] [] NodeRoot [(''mca'', node_record ''mca'')]) in
      node_get (node_add node_root (node_record ''mca'')) name = None
      \<and> (\<forall>i < j. node_get (node_add node_root (node_record ''mca'')) (instance_candidate ''mca'' (Suc i)) \<noteq> None)
      \<and> node_get merged name = Some (Node name [] NodeRecord [])
      \<and> (\<forall>x. x \<noteq> name \<longrightarrow> node_get merged x = node_get (node_add node_root (node_record ''mca'')) x)"
proof -
  have mca: "node_record ''mca'' = Node ''mca'' [] NodeRecord []" by code_simp
  have get: "node_get (node_add node_root (node_record ''mca'')) (node_name (node_record ''mca''))
      = Some (node_record ''mca'')" by simp
  have kind: "node_kind (node_record ''mca'') = NodeRecord \<or> (\<exists>v. node_kind (node_record ''mca'') = NodeField v)"
    by (simp add: node_record_def)
  show ?thesis
    using merge_duplicate_gets_fresh_name [OF get kind, of "[]" "[]" NodeRoot "''mca''"]
    unfolding mca by simp
qed

text \<open>C26. Merging keeps the tree well formed: children sorted by key, each stored under its name.\<close>
theorem merge_well_formed:
  assumes "node_wf self" and "node_wf other"
  shows "node_wf (node_merge self other) \<and> node_name (node_merge self other) = node_name self"
  using node_wf_merge_both(1) [OF assms] node_name_merge(1) by simp

theorem merge_well_formed_witness:
  "node_wf (node_merge node_root (node_add node_root (node_field ''foo'' 1)))
   \<and> node_name (node_merge node_root (node_add node_root (node_field ''foo'' 1))) = node_name node_root"
  by (rule merge_well_formed) (simp_all add: node_wf_add)

text \<open>C27. \<open>create_hierarchy\<close> panics exactly when some segment of the path is missing from the tree
  and is not lower case: the node it inserts is stored under the lower-case name, so that the
  lookup that follows misses it.\<close>
theorem create_hierarchy_panics_iff:
  "create_hierarchy n path f = None \<longleftrightarrow>
     (\<exists>i < length (split_on CHR ''.'' path).
        node_get_path n (take (Suc i) (split_on CHR ''.'' path)) = None
        \<and> to_lowercase (split_on CHR ''.'' path ! i) \<noteq> split_on CHR ''.'' path ! i)"
  by (simp add: create_hierarchy_def create_hierarchy_from_iter_None_iff)

text \<open>When it returns, \<open>create_hierarchy\<close> gives a reference to the node at the path, new or
  old, and every node that is not below the path is as it was.\<close>
theorem create_hierarchy_reaches_path:
  assumes "create_hierarchy n path f = Some n'"
  shows "node_get_by_path n' path = Some (f (case node_get_by_path n path of Some m \<Rightarrow> m
           | None \<Rightarrow> node_section (last (split_on CHR ''.'' path))))
    \<and> (\<forall>qs m. \<not> prefix (split_on CHR ''.'' path) qs \<longrightarrow> node_get_path n qs = Some m \<longrightarrow>
      (\<exists>m'. node_get_path n' qs = Some m' \<and> node_kind m' = node_kind m \<and> node_name m' = node_name m))"
  using assms create_hierarchy_from_iter_target create_hierarchy_from_iter_frame
  unfolding create_hierarchy_def node_get_by_path_def by blast

theorem create_hierarchy_reaches_path_witness:
  "node_get_by_path (node_add node_root (node_section ''foo'')) ''foo'' = Some (id
       (case node_get_by_path node_root ''foo'' of Some m \<Rightarrow> m
           | None \<Rightarrow> node_section (last (split_on CHR ''.'' ''foo''))))"
proof -
  have "create_hierarchy node_root ''foo'' id = Some (node_add node_root (node_section ''foo''))"
    by code_simp
  from conjunct1 [OF create_hierarchy_reaches_path [OF this]] show ?thesis .
qed

end
