(* ===== verification/BinaryHeap.thy ===== *)
theory BinaryHeap
  imports Prelude "HOL-Library.Multiset"
begin

text \<open>
  The priority queue of the Rust standard library (\<open>BinaryHeap\<close>) that collects the findings of an
  analysis. The interface \<open>priority_queue\<close> states what a client relies on: a push adds one element,
  a pop removes an element that no other exceeds. It is provided by the array heap: \<open>push\<close> appends
  and sifts up, \<open>pop\<close> moves the last element to the root, sifts it down to the bottom and up again.
  Elements are compared by a key; elements with the same key keep no particular order.
\<close>

subsection \<open>The interface\<close>

text \<open>The elements that come out when a queue is popped until it is empty\<close>
inductive drains :: "('q \<Rightarrow> ('a \<times> 'q) option) \<Rightarrow> 'q \<Rightarrow> 'a list \<Rightarrow> bool" for pop where
  drains_empty: "pop q = None \<Longrightarrow> drains pop q []"
| drains_pop: "pop q = Some (x, q') \<Longrightarrow> drains pop q' xs \<Longrightarrow> drains pop q (x # xs)"

locale priority_queue =
  fixes key :: "'a \<Rightarrow> 'k::linorder"
    and empty :: 'q
    and push :: "'a \<Rightarrow> 'q \<Rightarrow> 'q"
    and pop :: "'q \<Rightarrow> ('a \<times> 'q) option"
    and items :: "'q \<Rightarrow> 'a multiset"
    and wf :: "'q \<Rightarrow> bool"
  assumes wf_empty: "wf empty"
    and items_empty: "items empty = {#}"
    and wf_push: "wf q \<Longrightarrow> wf (push x q)"
    and items_push: "wf q \<Longrightarrow> items (push x q) = add_mset x (items q)"
    and pop_None: "wf q \<Longrightarrow> pop q = None \<longleftrightarrow> items q = {#}"
    and pop_Some: "wf q \<Longrightarrow> pop q = Some (x, q') \<Longrightarrow>
      wf q' \<and> items q = add_mset x (items q') \<and> (\<forall>y \<in># items q'. key y \<le> key x)"
begin

lemma drains_sorted:
  "drains pop q xs \<Longrightarrow> wf q \<Longrightarrow> mset xs = items q \<and> sorted_wrt (\<lambda>x y. key y \<le> key x) xs"
proof (induction rule: drains.induct)
  case (drains_empty q)
  then show ?case by (simp add: pop_None)
next
  case (drains_pop q x q' xs)
  from pop_Some [OF drains_pop.prems drains_pop.hyps(1)] drains_pop.IH show ?case
    by (auto simp flip: set_mset_mset)
qed

lemma wf_fold_push: "wf q \<Longrightarrow> wf (fold push xs q)"
  by (induction xs arbitrary: q) (simp_all add: wf_push)

lemma items_fold_push: "wf q \<Longrightarrow> items (fold push xs q) = items q + mset xs"
  by (induction xs arbitrary: q) (simp_all add: wf_push items_push)

text \<open>Whatever is pushed comes out in the order of its keys.\<close>

lemma drains_fold_push:
  "drains pop (fold push xs empty) ys \<Longrightarrow> mset ys = mset xs \<and> sorted_wrt (\<lambda>x y. key y \<le> key x) ys"
  using drains_sorted [of "fold push xs empty" ys] wf_fold_push [OF wf_empty, of xs]
    items_fold_push [OF wf_empty, of xs]
  by (simp add: items_empty)

end

subsection \<open>The array heap\<close>

definition swap :: "nat \<Rightarrow> nat \<Rightarrow> 'a list \<Rightarrow> 'a list" where
  "swap i j h = h[i := h ! j, j := h ! i]"

definition parent :: "nat \<Rightarrow> nat" where
  "parent i = (i - 1) div 2"

text \<open>\<open>sift_up\<close>: the element moves to the root as long as it exceeds its parent.\<close>
function sift_up :: "('a \<Rightarrow> 'k::linorder) \<Rightarrow> nat \<Rightarrow> 'a list \<Rightarrow> 'a list" where
  "sift_up key pos h =
     (if pos = 0 then h
      else if key (h ! pos) \<le> key (h ! parent pos) then h
      else sift_up key (parent pos) (swap pos (parent pos) h))"
  by pat_completeness auto
termination by (relation "measure (\<lambda>(key, pos, h). pos)") (auto simp: parent_def)

declare sift_up.simps [simp del]

text \<open>\<open>sift_down_to_bottom\<close>: the element takes the place of its greater child, of the right one if they are
  equal, until it has none; it is then sifted up. The result has the position it has reached.\<close>
function sift_to_bottom :: "('a \<Rightarrow> 'k::linorder) \<Rightarrow> nat \<Rightarrow> 'a list \<Rightarrow> nat \<times> 'a list" where
  "sift_to_bottom key pos h =
     (let child = 2 * pos + 1 in
      if child + 2 \<le> length h then
        (let child = (if key (h ! child) \<le> key (h ! (child + 1)) then child + 1 else child)
         in sift_to_bottom key child (swap pos child h))
      else if child + 1 = length h then (child, swap pos child h)
      else (pos, h))"
  by pat_completeness auto
termination
  by (relation "measure (\<lambda>(key, pos, h). length h - pos)") (auto simp: swap_def)

declare sift_to_bottom.simps [simp del]

definition heap_push :: "('a \<Rightarrow> 'k::linorder) \<Rightarrow> 'a \<Rightarrow> 'a list \<Rightarrow> 'a list" where
  "heap_push key x h = sift_up key (length h) (h @ [x])"

definition heap_pop :: "('a \<Rightarrow> 'k::linorder) \<Rightarrow> 'a list \<Rightarrow> ('a \<times> 'a list) option" where
  "heap_pop key h =
     (if h = [] then None
      else let item = last h; rest = butlast h in
        if rest = [] then Some (item, [])
        else case sift_to_bottom key 0 (rest[0 := item]) of
          (pos, rest') \<Rightarrow> Some (rest ! 0, sift_up key pos rest'))"

subsection \<open>The heap invariant\<close>

definition heap :: "('a \<Rightarrow> 'k::linorder) \<Rightarrow> 'a list \<Rightarrow> bool" where
  "heap key h \<longleftrightarrow> (\<forall>i. 0 < i \<and> i < length h \<longrightarrow> key (h ! i) \<le> key (h ! parent i))"

text \<open>The invariant with an exception for the element at a position and its parent\<close>
definition heap_up :: "('a \<Rightarrow> 'k::linorder) \<Rightarrow> nat \<Rightarrow> 'a list \<Rightarrow> bool" where
  "heap_up key pos h \<longleftrightarrow>
     (\<forall>i. 0 < i \<and> i < length h \<and> i \<noteq> pos \<longrightarrow> key (h ! i) \<le> key (h ! parent i))
     \<and> (\<forall>i. 0 < i \<and> i < length h \<and> 0 < pos \<and> parent i = pos \<longrightarrow> key (h ! i) \<le> key (h ! parent pos))"

text \<open>The invariant with an exception for the element at a position, its parent and its children\<close>
definition heap_hole :: "('a \<Rightarrow> 'k::linorder) \<Rightarrow> nat \<Rightarrow> 'a list \<Rightarrow> bool" where
  "heap_hole key pos h \<longleftrightarrow>
     (\<forall>i. 0 < i \<and> i < length h \<and> i \<noteq> pos \<and> parent i \<noteq> pos \<longrightarrow> key (h ! i) \<le> key (h ! parent i))
     \<and> (\<forall>i. 0 < i \<and> i < length h \<and> 0 < pos \<and> parent i = pos \<longrightarrow> key (h ! i) \<le> key (h ! parent pos))"

lemma parent_less: "0 < i \<Longrightarrow> parent i < i"
  by (simp add: parent_def)

lemma parent_iff: "0 < i \<Longrightarrow> parent i = p \<longleftrightarrow> i = 2 * p + 1 \<or> i = 2 * p + 2"
  by (auto simp: parent_def)

lemma length_swap [simp]: "length (swap i j h) = length h"
  by (simp add: swap_def)

lemma mset_swap: "i < length h \<Longrightarrow> j < length h \<Longrightarrow> mset (swap i j h) = mset h"
  by (simp add: swap_def Multiset.mset_swap)

lemma nth_swap:
  "i < length h \<Longrightarrow> j < length h \<Longrightarrow> k < length h \<Longrightarrow>
   swap i j h ! k = (if k = i then h ! j else if k = j then h ! i else h ! k)"
  by (auto simp: swap_def nth_list_update)

lemma length_sift_up [simp]: "length (sift_up key pos h) = length h"
  by (induction key pos h rule: sift_up.induct) (subst sift_up.simps, simp)

lemma mset_sift_up: "pos < length h \<Longrightarrow> mset (sift_up key pos h) = mset h"
proof (induction key pos h rule: sift_up.induct)
  case (1 key pos h)
  show ?case
  proof (cases "pos = 0 \<or> key (h ! pos) \<le> key (h ! parent pos)")
    case True
    then show ?thesis by (subst sift_up.simps) auto
  next
    case False
    then have "parent pos < length h" using parent_less [of pos] "1.prems" by simp
    with False "1.IH" "1.prems" show ?thesis by (subst sift_up.simps) (simp add: mset_swap)
  qed
qed

lemma heap_sift_up: "heap_up key pos h \<Longrightarrow> pos < length h \<Longrightarrow> heap key (sift_up key pos h)"
proof (induction key pos h rule: sift_up.induct)
  case (1 key pos h)
  show ?case
  proof (cases "pos = 0 \<or> key (h ! pos) \<le> key (h ! parent pos)")
    case True
    then have eq: "sift_up key pos h = h" by (subst sift_up.simps) auto
    show ?thesis unfolding eq heap_def
    proof (intro allI impI)
      fix i assume "0 < i \<and> i < length h"
      with True "1.prems"(1) show "key (h ! i) \<le> key (h ! parent i)"
        by (cases "i = pos") (auto simp: heap_up_def)
    qed
  next
    case False
    let ?p = "parent pos"
    from False have p: "?p < pos" and lt: "key (h ! ?p) < key (h ! pos)" by (auto simp: parent_less)
    have get: "swap pos ?p h ! k = (if k = pos then h ! ?p else if k = ?p then h ! pos else h ! k)"
      if "k < length h" for k using that p "1.prems"(2) by (intro nth_swap) simp_all
    have up: "key (h ! i) \<le> key (h ! parent i)" if "0 < i" "i < length h" "i \<noteq> pos" for i
      using "1.prems"(1) that by (simp add: heap_up_def)
    have grand: "key (h ! i) \<le> key (h ! ?p)" if "0 < i" "i < length h" "parent i = pos" for i
      using "1.prems"(1) that False by (auto simp: heap_up_def)
    have "heap_up key ?p (swap pos ?p h)"
      unfolding heap_up_def
    proof (intro conjI allI impI; elim conjE)
      fix i assume i: "0 < i" "i < length (swap pos ?p h)" "i \<noteq> ?p"
      then have "i < length h" "parent i < length h" using parent_less [of i] by simp_all
      with i p lt up [of i] grand [of i] show "key (swap pos ?p h ! i) \<le> key (swap pos ?p h ! parent i)"
        by (simp add: get) (metis order.strict_implies_order order.trans)
    next
      fix i assume i: "0 < i" "i < length (swap pos ?p h)" "0 < ?p" "parent i = ?p"
      have gp: "parent ?p < ?p" using i(3) by (rule parent_less)
      have "key (h ! ?p) \<le> key (h ! parent ?p)" using up [of ?p] i(3) p "1.prems"(2) by simp
      with i p gp up [of i] "1.prems"(2) parent_less [OF i(1)]
      show "key (swap pos ?p h ! i) \<le> key (swap pos ?p h ! parent ?p)"
        by (simp add: get) (metis order.trans)
    qed
    with "1.IH" False p "1.prems"(2) show ?thesis by (subst sift_up.simps) simp
  qed
qed

lemma length_sift_to_bottom [simp]: "length (snd (sift_to_bottom key pos h)) = length h"
proof (induction key pos h rule: sift_to_bottom.induct)
  case (1 key pos h)
  then show ?case by (subst sift_to_bottom.simps) (simp add: Let_def)
qed

lemma mset_sift_to_bottom: "pos < length h \<Longrightarrow> mset (snd (sift_to_bottom key pos h)) = mset h"
proof (induction key pos h rule: sift_to_bottom.induct)
  case (1 key pos h)
  then show ?case by (subst sift_to_bottom.simps) (simp add: Let_def mset_swap)
qed

text \<open>Moving the greater child up keeps the invariant, with the exception at the child's position.\<close>

lemma heap_hole_swap:
  assumes hole: "heap_hole key pos h" and c: "c < length h" "0 < c" "parent c = pos"
    and greater: "\<And>i. 0 < i \<Longrightarrow> i < length h \<Longrightarrow> parent i = pos \<Longrightarrow> key (h ! i) \<le> key (h ! c)"
  shows "heap_hole key c (swap pos c h)"
proof -
  have pc: "pos < c" using parent_less [OF c(2)] c(3) by simp
  have get: "swap pos c h ! k = (if k = pos then h ! c else if k = c then h ! pos else h ! k)"
    if "k < length h" for k using that pc c(1) by (intro nth_swap) simp_all
  have up: "key (h ! i) \<le> key (h ! parent i)" if "0 < i" "i < length h" "i \<noteq> pos" "parent i \<noteq> pos" for i
    using hole that by (simp add: heap_hole_def)
  have grand: "key (h ! i) \<le> key (h ! parent pos)" if "0 < i" "i < length h" "0 < pos" "parent i = pos" for i
    using hole that by (simp add: heap_hole_def)
  show ?thesis
    unfolding heap_hole_def
  proof (intro conjI allI impI; elim conjE)
    fix i assume i: "0 < i" "i < length (swap pos c h)" "i \<noteq> c" "parent i \<noteq> c"
    have pi: "parent i < i" using i(1) by (rule parent_less)
    show "key (swap pos c h ! i) \<le> key (swap pos c h ! parent i)"
    proof (cases "i = pos")
      case True
      with i pi c grand [of c] show ?thesis by (simp add: get)
    next
      case False
      with i pi up [of i] greater [of i] show ?thesis by (simp add: get)
    qed
  next
    fix i assume i: "0 < i" "i < length (swap pos c h)" "0 < c" "parent i = c"
    have "c < i" using parent_less [OF i(1)] i(4) by simp
    with i pc c up [of i] show "key (swap pos c h ! i) \<le> key (swap pos c h ! parent c)"
      by (simp add: get)
  qed
qed

lemma heap_sift_to_bottom:
  "heap_hole key pos h \<Longrightarrow> pos < length h \<Longrightarrow>
   (case sift_to_bottom key pos h of (p, h') \<Rightarrow> p < length h' \<and> heap_up key p h')"
proof (induction key pos h rule: sift_to_bottom.induct)
  case (1 key pos h)
  let ?l = "2 * pos + 1"
  consider "?l + 2 \<le> length h" | "?l + 1 = length h" | "length h \<le> ?l" by linarith
  then show ?case
  proof cases
    case 1
    define c where "c = (if key (h ! ?l) \<le> key (h ! (?l + 1)) then ?l + 1 else ?l)"
    have c: "c < length h" "0 < c" "parent c = pos" using 1 by (auto simp: c_def parent_iff)
    have "key (h ! i) \<le> key (h ! c)" if "0 < i" "parent i = pos" for i
      using that by (auto simp: parent_iff c_def)
    then have "heap_hole key c (swap pos c h)" using heap_hole_swap [OF "1.prems"(1) c] by simp
    with "1.IH" [OF refl 1 c_def] c have "case sift_to_bottom key c (swap pos c h) of (p, h') \<Rightarrow> p < length h' \<and> heap_up key p h'"
      by simp
    moreover have "sift_to_bottom key pos h = sift_to_bottom key c (swap pos c h)"
      unfolding c_def using 1 by (subst sift_to_bottom.simps) (simp add: Let_def)
    ultimately show ?thesis by simp
  next
    case 2
    have c: "?l < length h" "0 < ?l" "parent ?l = pos" using 2 by (auto simp: parent_iff)
    have only: "i = ?l" if "0 < i" "i < length h" "parent i = pos" for i using that 2 by (simp add: parent_iff)
    then have "heap_hole key ?l (swap pos ?l h)" by (intro heap_hole_swap [OF "1.prems"(1) c]) (metis order.refl)
    moreover have "parent i \<noteq> ?l" if "0 < i" "i < length h" for i using that 2 by (simp add: parent_iff)
    ultimately have "heap_up key ?l (swap pos ?l h)" by (simp add: heap_hole_def heap_up_def)
    with 2 show ?thesis by (subst sift_to_bottom.simps) simp
  next
    case 3
    have "parent i \<noteq> pos" if "0 < i" "i < length h" for i using that 3 by (simp add: parent_iff)
    then have "heap_up key pos h" using "1.prems" by (simp add: heap_hole_def heap_up_def)
    with 3 "1.prems" show ?thesis by (subst sift_to_bottom.simps) (simp add: Let_def)
  qed
qed

lemma length_heap_pop:
  assumes "heap_pop key h = Some (x, h')"
  shows "length h = Suc (length h')"
proof (cases "butlast h = []")
  case True
  with assms show ?thesis by (cases h rule: rev_cases) (auto simp: heap_pop_def Let_def)
next
  case False
  obtain p h1 where down: "sift_to_bottom key 0 ((butlast h)[0 := last h]) = (p, h1)"
    by (cases "sift_to_bottom key 0 ((butlast h)[0 := last h])")
  then have "length h1 = length (butlast h)"
    using length_sift_to_bottom [of key 0 "(butlast h)[0 := last h]"] by simp
  moreover have ne: "h \<noteq> []" using False by auto
  moreover have "h' = sift_up key p h1" using assms False down ne by (simp add: heap_pop_def Let_def)
  ultimately show ?thesis by (cases h rule: rev_cases) simp_all
qed

subsection \<open>The array heap is a priority queue\<close>

lemma heap_push_heap:
  assumes "heap key h"
  shows "heap key (heap_push key x h)"
proof -
  have "heap_up key (length h) (h @ [x])"
    unfolding heap_up_def
  proof (intro conjI allI impI; elim conjE)
    fix i assume i: "0 < i" "i < length (h @ [x])" "i \<noteq> length h"
    with parent_less [of i] assms show "key ((h @ [x]) ! i) \<le> key ((h @ [x]) ! parent i)"
      by (simp add: nth_append heap_def)
  next
    fix i assume i: "0 < i" "i < length (h @ [x])" "parent i = length h"
    with parent_less [of i] have False by simp
    then show "key ((h @ [x]) ! i) \<le> key ((h @ [x]) ! parent (length h))" ..
  qed
  then show ?thesis unfolding heap_push_def by (rule heap_sift_up) simp
qed

lemma mset_heap_push: "mset (heap_push key x h) = add_mset x (mset h)"
  by (simp add: heap_push_def mset_sift_up)

lemma heap_root_greatest:
  assumes "heap key h" "i < length h"
  shows "key (h ! i) \<le> key (h ! 0)"
  using assms(2)
proof (induction i rule: less_induct)
  case (less i)
  show ?case
  proof (cases "i = 0")
    case False
    with assms(1) less.prems have "key (h ! i) \<le> key (h ! parent i)" by (simp add: heap_def)
    with less.IH [of "parent i"] parent_less [of i] False less.prems show ?thesis
      by (metis gr0I order.trans less_trans)
  qed simp
qed

lemma heap_butlast:
  assumes "heap key h"
  shows "heap key (butlast h)"
  unfolding heap_def
proof (intro allI impI)
  fix i assume i: "0 < i \<and> i < length (butlast h)"
  with parent_less [of i] have "parent i < length (butlast h)" and "i < length h" by simp_all
  with i assms show "key (butlast h ! i) \<le> key (butlast h ! parent i)"
    by (simp add: nth_butlast heap_def)
qed

lemma heap_pop_Some:
  assumes heap: "heap key h" and pop: "heap_pop key h = Some (x, h')"
  shows "heap key h' \<and> mset h = add_mset x (mset h') \<and> (\<forall>y \<in># mset h'. key y \<le> key x)"
proof -
  from pop have ne: "h \<noteq> []" by (auto simp: heap_pop_def)
  have greatest: "key y \<le> key (h ! 0)" if "y \<in># mset h" for y
    using heap_root_greatest [OF heap] that by (auto simp: in_set_conv_nth)
  have core: "heap key h' \<and> mset h = add_mset x (mset h') \<and> x = h ! 0"
  proof (cases "butlast h = []")
    case True
    with ne have "h = [last h]" by (metis append_butlast_last_id append_Nil)
    moreover from this have "x = last h" "h' = []" using pop True ne by (auto simp: heap_pop_def Let_def)
    ultimately show ?thesis by (metis heap_def length_0_conv less_nat_zero_code mset.simps nth_Cons_0)
  next
    case False
    let ?rest = "butlast h" and ?h0 = "(butlast h)[0 := last h]"
    obtain p h1 where down: "sift_to_bottom key 0 ?h0 = (p, h1)" by (cases "sift_to_bottom key 0 ?h0")
    from pop ne False down have x: "x = ?rest ! 0" and h': "h' = sift_up key p h1"
      by (auto simp: heap_pop_def Let_def)
    have "heap_hole key 0 ?h0"
      using heap_butlast [OF heap] False
      by (auto simp: heap_hole_def heap_def nth_list_update)
    moreover have len: "0 < length ?h0" using False by (metis length_greater_0_conv length_list_update)
    ultimately have p: "p < length h1" "heap_up key p h1"
      using heap_sift_to_bottom [of key 0 ?h0] down by auto
    have "mset h1 = mset ?h0" using mset_sift_to_bottom [OF len, of key] down by simp
    moreover have "add_mset (?rest ! 0) (mset ?h0) = add_mset (last h) (mset ?rest)"
      using False by (cases "butlast h") simp_all
    moreover have "mset h = add_mset (last h) (mset ?rest)"
      using ne by (metis append_butlast_last_id mset_append mset_single_iff_right union_mset_add_mset_right add.right_neutral mset.simps)
    moreover have "?rest ! 0 = h ! 0" using False by (metis length_greater_0_conv nth_butlast)
    ultimately show ?thesis
      using p x h' heap_sift_up [OF p(2,1)] mset_sift_up [OF p(1), of key] by simp
  qed
  with greatest show ?thesis by (metis add_mset_remove_trivial in_diffD)
qed

text \<open>The provider: the array heap satisfies the interface.\<close>

interpretation array_heap: priority_queue key "[]" "heap_push key" "heap_pop key" mset "heap key"
  for key :: "'a \<Rightarrow> 'k::linorder"
proof
  show "heap key ([] :: 'a list)" by (simp add: heap_def)
  show "mset ([] :: 'a list) = {#}" by simp
  show "heap key q \<Longrightarrow> heap key (heap_push key x q)" for q x by (rule heap_push_heap)
  show "mset (heap_push key x q) = add_mset x (mset q)" for q x by (rule mset_heap_push)
  show "heap_pop key q = None \<longleftrightarrow> mset q = {#}" for q by (simp add: heap_pop_def Let_def split: prod.split)
  show "heap key q \<Longrightarrow> heap_pop key q = Some (x, q') \<Longrightarrow>
      heap key q' \<and> mset q = add_mset x (mset q') \<and> (\<forall>y \<in># mset q'. key y \<le> key x)" for q x q'
    by (rule heap_pop_Some)
qed

end
