(* ===== verification/Analysis.thy ===== *)
theory Analysis
  imports Node BinaryHeap
begin

text \<open>
  Analysis of decoded records: \<open>lib/src/analysis.rs\<close> and \<open>lib/src/analysis/\<close>. A handler takes a node and
  the analyzer and returns the analyzer; the findings are collected in a \<open>BinaryHeap\<close> of tags
  compared by their priority. The priorities are three constants, so that \<open>i32\<close> is modelled by \<open>int\<close>.
\<close>

subsection \<open>Machine check banks: \<open>mca.rs\<close>, \<open>mcacod.rs\<close>\<close>

datatype mca_code =
    McaRaw u16 | McaNoError | McaUnclassified | McaMicrocodeRomParityError | McaExternalError
  | McaFrcError | McaInternalParityError | McaSmmHandlerCodeAccessViolation | McaInternalTimerError
  | McaIoError | McaInternalUnclassified u16

definition mca_code_show :: "mca_code \<Rightarrow> string" where
  "mca_code_show c = (case c of
     McaRaw mcacod \<Rightarrow> ''MCACOD_'' @ zero_pad 4 (show_HEX (unat mcacod)) @ ''H''
   | McaNoError \<Rightarrow> ''NO_ERROR''
   | McaUnclassified \<Rightarrow> ''UNCLASSIFIED''
   | McaMicrocodeRomParityError \<Rightarrow> ''MICROCODE_ROM_PARITY_ERROR''
   | McaExternalError \<Rightarrow> ''EXTERNAL_ERROR''
   | McaFrcError \<Rightarrow> ''FRC_ERROR''
   | McaInternalParityError \<Rightarrow> ''INTERNAL_PARITY_ERROR''
   | McaSmmHandlerCodeAccessViolation \<Rightarrow> ''SMM_HANDLER_CODE_ACCESS_VIOLATION''
   | McaInternalTimerError \<Rightarrow> ''INTERNAL_TIMER_ERROR''
   | McaIoError \<Rightarrow> ''IO_ERROR''
   | McaInternalUnclassified x \<Rightarrow> ''INTERNAL_UNCLASSIFIED_'' @ zero_pad 4 (show_HEX (unat x)) @ ''H'')"

definition mca_code_from_u16 :: "u16 \<Rightarrow> mca_code" where
  "mca_code_from_u16 code =
     (if code = 0x0000 then McaNoError
      else if code = 0x0001 then McaUnclassified
      else if code = 0x0002 then McaMicrocodeRomParityError
      else if code = 0x0003 then McaExternalError
      else if code = 0x0004 then McaFrcError
      else if code = 0x0005 then McaInternalParityError
      else if code = 0x0006 then McaSmmHandlerCodeAccessViolation
      else if code = 0x0400 then McaInternalTimerError
      else if code = 0x0E0B then McaIoError
      else if drop_bit 10 code = 1 then McaInternalUnclassified (code AND 0x3FF)
      else McaRaw code)"

datatype model_specific_code = MscodRaw u16

definition model_specific_code_show :: "model_specific_code \<Rightarrow> string" where
  "model_specific_code_show c = (case c of MscodRaw mscod \<Rightarrow> ''MSCOD_'' @ zero_pad 4 (show_HEX (unat mscod)) @ ''H'')"

definition model_specific_code_from_u16 :: "u16 \<Rightarrow> model_specific_code" where
  "model_specific_code_from_u16 code = MscodRaw code"

record mca_status =
  mcs_valid :: bool
  mcs_mscod :: model_specific_code
  mcs_mcacod :: mca_code

definition mca_status_from_u64 :: "u64 \<Rightarrow> mca_status option" where
  "mca_status_from_u64 status =
     (if status AND 0xFFFFFFFF = 0xDEADBEEF then None
      else Some \<lparr>mcs_valid = drop_bit 63 status \<noteq> 0,
             mcs_mscod = model_specific_code_from_u16 (ucast (drop_bit 16 status AND 0xFFFF)),
             mcs_mcacod = mca_code_from_u16 (ucast (status AND 0xFFFF))\<rparr>)"

record bank =
  bank_id :: u64
  bank_status :: mca_status

definition bank_from_node :: "node \<Rightarrow> bank option" where
  "bank_from_node n = do {
     status_node \<leftarrow> node_get n ''status'';
     status \<leftarrow> node_value status_node;
     digits \<leftarrow> strip_prefix ''bank'' (node_name n);
     i \<leftarrow> (case parse_usize digits of Inr i \<Rightarrow> Some (of_nat i) | Inl _ \<Rightarrow> None);
     st \<leftarrow> mca_status_from_u64 status;
     Some \<lparr>bank_id = i, bank_status = st\<rparr> }"

subsection \<open>Transaction queues: \<open>xq.rs\<close>\<close>

datatype transaction_queue_state =
  MultipleStuckTransaction | SingleStuckTransaction u64 | NoStuckTransaction | NotCaptured

definition transaction_queue_state_show :: "transaction_queue_state \<Rightarrow> string" where
  "transaction_queue_state_show s = (case s of
     NotCaptured \<Rightarrow> ''NO_XQ_INFO''
   | NoStuckTransaction \<Rightarrow> ''NO_STUCK_TRANSACTIONS''
   | SingleStuckTransaction addr \<Rightarrow> ''SINGLE_STUCK_TRANSACTION.'' @ show_HEX (unat addr) @ ''H''
   | MultipleStuckTransaction \<Rightarrow> ''MULTIPLE_STUCK_TRANSACTIONS'')"

record transaction =
  tr_valid :: bool
  tr_address :: u64

definition transaction_from_node :: "node \<Rightarrow> transaction option" where
  "transaction_from_node n =
     (let basename = trim_end_numeric (node_name n) in
      if basename \<noteq> ''entry'' \<and> basename \<noteq> ''xq_'' then None
      else do {
        address \<leftarrow> (case do { addr \<leftarrow> node_get n ''addr''; node_value addr } of
            Some v \<Rightarrow> Some v
          | None \<Rightarrow> map_option (push_bit 6) (do { addr \<leftarrow> node_get n ''addr_51_6''; node_value addr }));
        Some \<lparr>tr_valid = (case do { valid \<leftarrow> node_get n ''valid''; node_value valid } of
                 Some v \<Rightarrow> v \<noteq> 0 | None \<Rightarrow> False),
              tr_address = address\<rparr> })"

type_synonym transaction_queue = "transaction list"

definition transaction_queue_from_node :: "node \<Rightarrow> transaction_queue option" where
  "transaction_queue_from_node n = Some (List.map_filter transaction_from_node (children n))"

text \<open>The loop of \<open>triage\<close>; the accumulator is the stuck transaction seen so far.\<close>
fun triage_loop :: "transaction option \<Rightarrow> transaction list \<Rightarrow> transaction_queue_state" where
  "triage_loop stuck [] =
     (case stuck of Some t \<Rightarrow> SingleStuckTransaction (tr_address t) | None \<Rightarrow> NoStuckTransaction)"
| "triage_loop stuck (entry # entries) =
     (if \<not> tr_valid entry then triage_loop stuck entries
      else if stuck \<noteq> None then MultipleStuckTransaction
      else triage_loop (Some entry) entries)"

definition transaction_queue_triage :: "transaction_queue \<Rightarrow> transaction_queue_state" where
  "transaction_queue_triage q = triage_loop None q"

subsection \<open>Tags: \<open>tag.rs\<close>, \<open>reason.rs\<close>, \<open>reset.rs\<close>, \<open>agent.rs\<close>\<close>

datatype reset_kind = ResetGlobal | ResetFirmwareGlobal | ResetHostPartition

definition reset_kind_show :: "reset_kind \<Rightarrow> string" where
  "reset_kind_show k = (case k of
     ResetGlobal \<Rightarrow> ''GLOBAL_RESET''
   | ResetFirmwareGlobal \<Rightarrow> ''FIRMWARE_GLOBAL_RESET''
   | ResetHostPartition \<Rightarrow> ''HOST_PARTITION_RESET'')"

datatype crashlog_reason = ReasonRaw u32

definition crashlog_reason_show :: "crashlog_reason \<Rightarrow> string" where
  "crashlog_reason_show r = (case r of ReasonRaw v \<Rightarrow> show_HEX (unat v) @ ''H'')"

datatype agent_status =
    AgentSuccess | AgentInvalidOpcode | AgentRecipeOverflow | AgentStorageOverflow | AgentInvalidXtor
  | AgentCollectionError | AgentNestedCall | AgentUnexpectedRet | AgentMismatchingAgentId
  | AgentMismatchingStaticConfigRevision | AgentIncompleteRecipe | AgentRecipeNotLoaded
  | AgentUnsupportedHeaderType | AgentCompletionStatusOverflow | AgentInvalidTxCode | AgentInProgress

definition agent_status_show :: "agent_status \<Rightarrow> string" where
  "agent_status_show s = (case s of
     AgentSuccess \<Rightarrow> ''SUCCESS''
   | AgentInvalidOpcode \<Rightarrow> ''INVALID_OPCODE''
   | AgentRecipeOverflow \<Rightarrow> ''RECIPE_OVERFLOW''
   | AgentStorageOverflow \<Rightarrow> ''STORAGE_OVERFLOW''
   | AgentInvalidXtor \<Rightarrow> ''INVALID_XTOR''
   | AgentCollectionError \<Rightarrow> ''COLLECTION_ERROR''
   | AgentNestedCall \<Rightarrow> ''NESTED_CALL''
   | AgentUnexpectedRet \<Rightarrow> ''UNEXPECTED_RET''
   | AgentMismatchingAgentId \<Rightarrow> ''MISMATCHING_AGENT_ID''
   | AgentMismatchingStaticConfigRevision \<Rightarrow> ''MISMATCHING_STATIC_CONFIG_REVISION''
   | AgentIncompleteRecipe \<Rightarrow> ''INCOMPLETE_RECIPE''
   | AgentRecipeNotLoaded \<Rightarrow> ''RECIPE_NOT_LOADED''
   | AgentUnsupportedHeaderType \<Rightarrow> ''UNSUPPORTED_HEADER_TYPE''
   | AgentCompletionStatusOverflow \<Rightarrow> ''COMPLETION_STATUS_OVERFLOW''
   | AgentInvalidTxCode \<Rightarrow> ''INVALID_TX_CODE''
   | AgentInProgress \<Rightarrow> ''IN_PROGRESS'')"

definition agent_status_from_u64 :: "u64 \<Rightarrow> agent_status option" where
  "agent_status_from_u64 status =
     (if status = 0 then Some AgentSuccess
      else if status = 1 then Some AgentInvalidOpcode
      else if status = 2 then Some AgentRecipeOverflow
      else if status = 3 then Some AgentStorageOverflow
      else if status = 4 then Some AgentInvalidXtor
      else if status = 5 then Some AgentCollectionError
      else if status = 6 then Some AgentNestedCall
      else if status = 7 then Some AgentUnexpectedRet
      else if status = 8 then Some AgentMismatchingAgentId
      else if status = 9 then Some AgentMismatchingStaticConfigRevision
      else if status = 10 then Some AgentIncompleteRecipe
      else if status = 11 then Some AgentRecipeNotLoaded
      else if status = 12 then Some AgentUnsupportedHeaderType
      else if status = 13 then Some AgentCompletionStatusOverflow
      else if status = 14 then Some AgentInvalidTxCode
      else if status = 15 then Some AgentInProgress
      else None)"

definition agent_status_is_error :: "agent_status \<Rightarrow> bool" where
  "agent_status_is_error s \<longleftrightarrow> \<not> (s = AgentSuccess \<or> s = AgentInProgress)"

datatype tag =
    ResetCause reset_kind string
  | CrashLogReason string crashlog_reason
  | CoreTimeout transaction_queue_state
  | MachineCheck u64 string string
  | CrashLogAgentError agent_status u32

definition tag_show :: "tag \<Rightarrow> string" where
  "tag_show t = (case t of
     ResetCause kind cause \<Rightarrow> ''RESET_CAUSE.'' @ reset_kind_show kind @ ''.'' @ cause
   | CrashLogReason rec reason \<Rightarrow> ''CRASHLOG_REASON.'' @ rec @ ''.'' @ crashlog_reason_show reason
   | CoreTimeout transaction_queue \<Rightarrow> ''CORE_TIMEOUT.'' @ transaction_queue_state_show transaction_queue
   | MachineCheck i mscod mcacod \<Rightarrow> ''MCA.BANK'' @ show_dec (unat i) @ ''.'' @ mcacod @ ''.'' @ mscod
   | CrashLogAgentError status instruction_pointer \<Rightarrow>
       ''CRASHLOG_AGENT_ERROR.'' @ agent_status_show status @ ''.IP_'' @ show_HEX (unat instruction_pointer) @ ''H'')"

text \<open>Tags are ordered by their priority alone.\<close>
record triage_tag =
  tt_priority :: int
  tt_tag :: tag

record analyzer =
  an_inputs :: "node list"
  an_tags :: "triage_tag list"

definition analyzer_default :: analyzer where
  "analyzer_default = \<lparr>an_inputs = [], an_tags = []\<rparr>"

definition tag_with_priority :: "int \<Rightarrow> tag \<Rightarrow> analyzer \<Rightarrow> analyzer" where
  "tag_with_priority priority t a =
     a\<lparr>an_tags := heap_push tt_priority \<lparr>tt_priority = priority, tt_tag = t\<rparr> (an_tags a)\<rparr>"

definition tag_default :: "tag \<Rightarrow> analyzer \<Rightarrow> analyzer" where
  "tag_default t a = tag_with_priority 0 t a"

subsection \<open>Handlers of the record types\<close>

lemma children_size [termination_simp]: "c \<in> set (children n) \<Longrightarrow> size c < size n"
proof -
  assume "c \<in> set (children n)"
  then obtain k where "(k, c) \<in> set (node_children n)" by (auto simp: children_def)
  then have "size c \<le> size_list (\<lambda>p. size (snd p)) (node_children n)"
    by (intro size_list_estimation') auto
  with size_node_children [of n] show ?thesis by simp
qed

lemma node_get_children: "node_get n x = Some c \<Longrightarrow> c \<in> set (children n)"
  by (force simp: node_get_def children_def bt_get_map_of dest: map_of_SomeD)

lemma node_get_size [termination_simp]: "node_get n x = Some c \<Longrightarrow> size c < size n"
  by (intro children_size node_get_children)

lemma node_get_or_size [termination_simp]:
  "(case node_get n x of None \<Rightarrow> node_get n y | Some c \<Rightarrow> Some c) = Some d \<Longrightarrow> size d < size n"
  by (auto simp: node_get_size split: option.splits)

definition triage_mca_bank :: "bank \<Rightarrow> analyzer \<Rightarrow> analyzer" where
  "triage_mca_bank b a =
     (if \<not> mcs_valid (bank_status b) then a
      else tag_with_priority 5 (MachineCheck (bank_id b) (model_specific_code_show (mcs_mscod (bank_status b)))
             (mca_code_show (mcs_mcacod (bank_status b)))) a)"

fun analyze_mca :: "node \<Rightarrow> analyzer \<Rightarrow> analyzer" where
  "analyze_mca mca a =
     fold (\<lambda>child a. case bank_from_node child of
         Some b \<Rightarrow> triage_mca_bank b a | None \<Rightarrow> analyze_mca child a) (children mca) a"

definition analyze_three_strike_timeout :: "node \<Rightarrow> analyzer \<Rightarrow> analyzer" where
  "analyze_three_strike_timeout core a =
     (case node_get_by_path core ''thread.arch_state.mca.bank3'' of None \<Rightarrow> a
      | Some bank_node \<Rightarrow>
     (case bank_from_node bank_node of None \<Rightarrow> a
      | Some b \<Rightarrow>
          (if \<not> mcs_valid (bank_status b) then a
           else if mcs_mcacod (bank_status b) \<noteq> McaInternalTimerError then a
           else
             (let xq = (case node_get core ''sq'' of Some q \<Rightarrow> Some q | None \<Rightarrow> node_get core ''xq'');
                  transaction_queue = (case xq of
                      Some q \<Rightarrow> (case transaction_queue_from_node q of
                          Some q \<Rightarrow> transaction_queue_triage q | None \<Rightarrow> NotCaptured)
                    | None \<Rightarrow> NotCaptured)
              in tag_with_priority 10 (CoreTimeout transaction_queue) a))))"

definition analyze_core_mca :: "node \<Rightarrow> analyzer \<Rightarrow> analyzer" where
  "analyze_core_mca core a =
     (case node_get_by_path core ''thread.arch_state.mca'' of None \<Rightarrow> a
      | Some mca \<Rightarrow>
          fold (\<lambda>child a. case bank_from_node child of None \<Rightarrow> a | Some b \<Rightarrow> triage_mca_bank b a)
            (children mca) a)"

fun analyze_core :: "node \<Rightarrow> analyzer \<Rightarrow> analyzer" where
  "analyze_core n a =
     (if node_get n ''thread'' \<noteq> None then analyze_core_mca n (analyze_three_strike_timeout n a)
      else fold (\<lambda>child a. analyze_core child a) (children n) a)"

definition analyze_reason :: "node \<Rightarrow> analyzer \<Rightarrow> analyzer" where
  "analyze_reason n a =
     (case node_get_by_path n ''hdr.reason'' of None \<Rightarrow> a
      | Some reason \<Rightarrow> (case node_value reason of None \<Rightarrow> a
      | Some v \<Rightarrow> tag_default (CrashLogReason (to_uppercase (node_name n)) (ReasonRaw (ucast v))) a))"

definition report_reset_cause :: "reset_kind \<Rightarrow> node \<Rightarrow> analyzer \<Rightarrow> analyzer" where
  "report_reset_cause kind n a =
     fold (\<lambda>child a. case node_value child of
         Some v \<Rightarrow> if v = 0 then a else tag_default (ResetCause kind (to_uppercase (node_name child))) a
       | None \<Rightarrow> a) (children n) a"

fun analyze_pmc_rst :: "node \<Rightarrow> analyzer \<Rightarrow> analyzer" where
  "analyze_pmc_rst n a =
     (case (case node_get n ''pmc_rst'' of Some c \<Rightarrow> Some c | None \<Rightarrow> node_get n ''pmc'') of
        Some pmc_rst \<Rightarrow> analyze_pmc_rst pmc_rst a
      | None \<Rightarrow>
          (let a = (case node_get n ''gblrst_cause_0'' of Some c \<Rightarrow> report_reset_cause ResetGlobal c a | None \<Rightarrow> a);
               a = (case node_get n ''fw_gblrst_cause_0'' of
                      Some c \<Rightarrow> report_reset_cause ResetFirmwareGlobal c a | None \<Rightarrow> a)
           in case node_get n ''host_pr_cause_0'' of
                Some c \<Rightarrow> report_reset_cause ResetHostPartition c a | None \<Rightarrow> a))"

definition analyze_crashlog_agent :: "node \<Rightarrow> analyzer \<Rightarrow> analyzer" where
  "analyze_crashlog_agent agent a =
     (case do { n \<leftarrow> node_get agent ''status''; v \<leftarrow> node_value n; agent_status_from_u64 v } of None \<Rightarrow> a
      | Some status \<Rightarrow>
     (case do { n \<leftarrow> node_get agent ''instruction_pointer''; node_value n } of None \<Rightarrow> a
      | Some ip \<Rightarrow>
          (if agent_status_is_error status then tag_default (CrashLogAgentError status (ucast ip)) a else a)))"

subsection \<open>The analyzer: \<open>analysis.rs\<close>, \<open>report.rs\<close>\<close>

definition analyze_record :: "node \<Rightarrow> analyzer \<Rightarrow> analyzer" where
  "analyze_record n a =
     (let name = trim_end_numeric (node_name n) in
      if name = ''pmc_rst'' then analyze_pmc_rst n a
      else if name = ''punit'' \<or> name = ''pmc'' then analyze_reason n a
      else if name = ''pcore'' \<or> name = ''ecore'' then analyze_core n a
      else if name = ''mca'' then analyze_mca n a
      else if name = ''crashlog_agent'' then analyze_crashlog_agent n a
      else a)"

fun analyze_records :: "node \<Rightarrow> analyzer \<Rightarrow> analyzer" where
  "analyze_records n a =
     (if node_kind n = NodeRecord then analyze_record n a
      else fold (\<lambda>child a. analyze_records child a) (children n) a)"

declare analyze_mca.simps [simp del] analyze_core.simps [simp del] analyze_pmc_rst.simps [simp del]
  analyze_records.simps [simp del]

definition with_input :: "analyzer \<Rightarrow> node \<Rightarrow> analyzer" where
  "with_input a n = a\<lparr>an_inputs := an_inputs a @ [n]\<rparr>"

text \<open>The loop of \<open>build_report\<close>\<close>
function build_report_loop :: "triage_tag list \<Rightarrow> tag list \<Rightarrow> tag list" where
  "build_report_loop h tags = (case heap_pop tt_priority h of
     Some (t, h) \<Rightarrow> build_report_loop h (tags @ [tt_tag t]) | None \<Rightarrow> tags)"
  by pat_completeness auto
termination by (relation "measure (\<lambda>(h, tags). length h)") (auto dest: length_heap_pop)

definition build_report :: "analyzer \<Rightarrow> tag list" where
  "build_report a = build_report_loop (an_tags a) []"

declare build_report_loop.simps [simp del]

subsection \<open>What a handler adds\<close>

text \<open>A handler that pushes some tags, in any order, and changes nothing else\<close>
definition adds :: "(analyzer \<Rightarrow> analyzer) \<Rightarrow> triage_tag list \<Rightarrow> bool" where
  "adds f ts \<longleftrightarrow> (\<forall>a. an_inputs (f a) = an_inputs a
     \<and> (heap tt_priority (an_tags a) \<longrightarrow>
          heap tt_priority (an_tags (f a)) \<and> mset (an_tags (f a)) = mset (an_tags a) + mset ts))"

named_theorems adds_intros

lemma adds_id [adds_intros]: "adds (\<lambda>a. a) []"
  by (simp add: adds_def)

lemma adds_tag [adds_intros]: "adds (tag_with_priority p t) [\<lparr>tt_priority = p, tt_tag = t\<rparr>]"
  by (simp add: adds_def tag_with_priority_def array_heap.wf_push array_heap.items_push)

lemma adds_tag_default [adds_intros]: "adds (tag_default t) [\<lparr>tt_priority = 0, tt_tag = t\<rparr>]"
  unfolding tag_default_def [abs_def] by (rule adds_tag)

lemma adds_comp: "adds f ts \<Longrightarrow> adds g us \<Longrightarrow> adds (\<lambda>a. g (f a)) (ts @ us)"
  by (simp add: adds_def union_assoc)

lemma adds_if: "(c \<Longrightarrow> adds f ts) \<Longrightarrow> (\<not> c \<Longrightarrow> adds g us) \<Longrightarrow> adds (\<lambda>a. if c then f a else g a) (if c then ts else us)"
  by simp

lemma adds_option:
  "(x = None \<Longrightarrow> adds f ts) \<Longrightarrow> (\<And>v. x = Some v \<Longrightarrow> adds (g v) (us v)) \<Longrightarrow>
   adds (\<lambda>a. case x of None \<Rightarrow> f a | Some v \<Rightarrow> g v a) (case x of None \<Rightarrow> ts | Some v \<Rightarrow> us v)"
  by (cases x) simp_all

lemma adds_fold: "(\<And>x. x \<in> set xs \<Longrightarrow> adds (f x) (ts x)) \<Longrightarrow> adds (\<lambda>a. fold f xs a) (concat (map ts xs))"
proof (induction xs)
  case Nil
  then show ?case by (simp add: adds_id)
next
  case (Cons x xs)
  then show ?case using adds_comp [of "f x" "ts x" "\<lambda>a. fold f xs a"] by simp
qed

text \<open>The findings of each handler, as lists\<close>

abbreviation finding :: "int \<Rightarrow> tag \<Rightarrow> triage_tag" where
  "finding p t \<equiv> \<lparr>tt_priority = p, tt_tag = t\<rparr>"

definition bank_findings :: "bank \<Rightarrow> triage_tag list" where
  "bank_findings b = (if \<not> mcs_valid (bank_status b) then []
     else [finding 5 (MachineCheck (bank_id b) (model_specific_code_show (mcs_mscod (bank_status b)))
             (mca_code_show (mcs_mcacod (bank_status b))))])"

lemma adds_bank [adds_intros]: "adds (triage_mca_bank b) (bank_findings b)"
  unfolding triage_mca_bank_def [abs_def] bank_findings_def by (intro adds_if adds_intros)

text \<open>The banks of a subtree; nothing is looked for below a bank.\<close>
fun mca_banks :: "node \<Rightarrow> bank list" where
  "mca_banks n = concat (map (\<lambda>c. case bank_from_node c of Some b \<Rightarrow> [b] | None \<Rightarrow> mca_banks c) (children n))"

declare mca_banks.simps [simp del]

lemma adds_mca [adds_intros]: "adds (analyze_mca n) (concat (map bank_findings (mca_banks n)))"
proof (induction "size n" arbitrary: n rule: less_induct)
  case less
  have step: "adds (\<lambda>a. case bank_from_node c of Some b \<Rightarrow> triage_mca_bank b a | None \<Rightarrow> analyze_mca c a)
      (case bank_from_node c of Some b \<Rightarrow> bank_findings b | None \<Rightarrow> concat (map bank_findings (mca_banks c)))"
    if "c \<in> set (children n)" for c
    using less [OF children_size [OF that]] by (intro adds_option adds_intros)
  have eq: "analyze_mca n = (\<lambda>a. fold (\<lambda>c a. case bank_from_node c of Some b \<Rightarrow> triage_mca_bank b a
      | None \<Rightarrow> analyze_mca c a) (children n) a)"
    by (rule ext) (rule analyze_mca.simps)
  have "adds (analyze_mca n) (concat (map (\<lambda>c. case bank_from_node c of Some b \<Rightarrow> bank_findings b
      | None \<Rightarrow> concat (map bank_findings (mca_banks c))) (children n)))"
    unfolding eq by (rule adds_fold) (rule step)
  also have "concat (map (\<lambda>c. case bank_from_node c of Some b \<Rightarrow> bank_findings b
      | None \<Rightarrow> concat (map bank_findings (mca_banks c))) (children n))
      = concat (map bank_findings (mca_banks n))"
  proof -
    have "concat (map (\<lambda>c. case bank_from_node c of Some b \<Rightarrow> bank_findings b
        | None \<Rightarrow> concat (map bank_findings (mca_banks c))) cs)
        = concat (map bank_findings (concat (map (\<lambda>c. case bank_from_node c of Some b \<Rightarrow> [b] | None \<Rightarrow> mca_banks c) cs)))" for cs
      by (induction cs) (simp_all split: option.split)
    then show ?thesis by (simp add: mca_banks.simps [of n])
  qed
  finally show ?case .
qed

text \<open>The machine check bank of the core that tells a timeout, and the state of its transaction queue\<close>
definition core_timeout :: "node \<Rightarrow> bool" where
  "core_timeout core \<longleftrightarrow> (case do { n \<leftarrow> node_get_by_path core ''thread.arch_state.mca.bank3''; bank_from_node n } of
     Some b \<Rightarrow> mcs_valid (bank_status b) \<and> mcs_mcacod (bank_status b) = McaInternalTimerError | None \<Rightarrow> False)"

definition core_transactions :: "node \<Rightarrow> transaction_queue_state" where
  "core_transactions core = (case (case node_get core ''sq'' of Some q \<Rightarrow> Some q | None \<Rightarrow> node_get core ''xq'') of
     Some q \<Rightarrow> transaction_queue_triage (List.map_filter transaction_from_node (children q)) | None \<Rightarrow> NotCaptured)"

lemma adds_three_strike [adds_intros]:
  "adds (analyze_three_strike_timeout n) (if core_timeout n then [finding 10 (CoreTimeout (core_transactions n))] else [])"
proof (cases "core_timeout n")
  case True
  then have "analyze_three_strike_timeout n = tag_with_priority 10 (CoreTimeout (core_transactions n))"
    by (intro ext) (auto simp: analyze_three_strike_timeout_def core_timeout_def core_transactions_def
        transaction_queue_from_node_def split: option.splits Option.bind_splits)
  with True show ?thesis by (simp add: adds_tag)
next
  case False
  then have "analyze_three_strike_timeout n = (\<lambda>a. a)"
    by (intro ext) (auto simp: analyze_three_strike_timeout_def core_timeout_def split: option.splits)
  with False show ?thesis by (simp add: adds_id)
qed

definition core_banks :: "node \<Rightarrow> bank list" where
  "core_banks core = (case node_get_by_path core ''thread.arch_state.mca'' of None \<Rightarrow> []
     | Some mca \<Rightarrow> List.map_filter bank_from_node (children mca))"

lemma concat_map_filter: "concat (map (\<lambda>x. case f x of None \<Rightarrow> [] | Some y \<Rightarrow> g y) xs) = concat (map g (List.map_filter f xs))"
  by (induction xs) (simp_all add: List.map_filter_simps split: option.split)

lemma adds_core_mca [adds_intros]: "adds (analyze_core_mca n) (concat (map bank_findings (core_banks n)))"
proof (cases "node_get_by_path n ''thread.arch_state.mca''")
  case None
  then have "analyze_core_mca n = (\<lambda>a. a)" by (intro ext) (simp add: analyze_core_mca_def)
  with None show ?thesis by (simp add: core_banks_def adds_id)
next
  case (Some mca)
  then have eq: "analyze_core_mca n = (\<lambda>a. fold (\<lambda>c a. case bank_from_node c of None \<Rightarrow> a | Some b \<Rightarrow> triage_mca_bank b a)
      (children mca) a)"
    by (intro ext) (simp add: analyze_core_mca_def)
  have "adds (analyze_core_mca n)
      (concat (map (\<lambda>c. case bank_from_node c of None \<Rightarrow> [] | Some b \<Rightarrow> bank_findings b) (children mca)))"
    unfolding eq by (intro adds_fold adds_option adds_intros)
  with Some show ?thesis by (simp add: concat_map_filter core_banks_def)
qed

text \<open>The cores of a subtree: the highest nodes that have a thread\<close>
fun cores :: "node \<Rightarrow> node list" where
  "cores n = (if node_get n ''thread'' \<noteq> None then [n] else concat (map cores (children n)))"

declare cores.simps [simp del]

definition core_findings :: "node \<Rightarrow> triage_tag list" where
  "core_findings core =
     (if core_timeout core then [finding 10 (CoreTimeout (core_transactions core))] else [])
     @ concat (map bank_findings (core_banks core))"

lemma concat_map_concat: "concat (map f (concat xss)) = concat (map (\<lambda>xs. concat (map f xs)) xss)"
  by (induction xss) simp_all

lemma adds_core [adds_intros]: "adds (analyze_core n) (concat (map core_findings (cores n)))"
proof (induction "size n" arbitrary: n rule: less_induct)
  case less
  show ?case
  proof (cases "node_get n ''thread'' = None")
    case False
    then have eq: "analyze_core n = (\<lambda>a. analyze_core_mca n (analyze_three_strike_timeout n a))"
      by (intro ext) (subst analyze_core.simps, simp)
    have "concat (map core_findings (cores n)) = core_findings n"
      using False by (subst cores.simps) simp
    then show ?thesis unfolding eq core_findings_def by (simp add: adds_comp adds_intros)
  next
    case True
    then have eq: "analyze_core n = (\<lambda>a. fold analyze_core (children n) a)"
      by (intro ext) (subst analyze_core.simps, simp)
    have "concat (map core_findings (cores n)) = concat (map (\<lambda>c. concat (map core_findings (cores c))) (children n))"
      using True by (subst cores.simps) (simp add: concat_map_concat comp_def)
    then show ?thesis unfolding eq using less [OF children_size] by (simp add: adds_fold)
  qed
qed

definition reason_findings :: "node \<Rightarrow> triage_tag list" where
  "reason_findings n = (case node_get_value_by_path n ''hdr.reason'' of
     Some v \<Rightarrow> [finding 0 (CrashLogReason (to_uppercase (node_name n)) (ReasonRaw (ucast v)))] | None \<Rightarrow> [])"

lemma adds_reason [adds_intros]: "adds (analyze_reason n) (reason_findings n)"
proof (cases "node_get_value_by_path n ''hdr.reason''")
  case None
  then have "analyze_reason n = (\<lambda>a. a)"
    by (intro ext) (auto simp: analyze_reason_def node_get_value_by_path_def split: option.split)
  with None show ?thesis by (simp add: reason_findings_def adds_id)
next
  case (Some v)
  then have "analyze_reason n = tag_default (CrashLogReason (to_uppercase (node_name n)) (ReasonRaw (ucast v)))"
    by (intro ext) (auto simp: analyze_reason_def node_get_value_by_path_def split: Option.bind_splits)
  with Some show ?thesis by (simp add: reason_findings_def adds_tag_default)
qed

text \<open>The bits that are set in a reset cause register\<close>
definition reset_findings :: "reset_kind \<Rightarrow> node option \<Rightarrow> triage_tag list" where
  "reset_findings kind reg = (case reg of None \<Rightarrow> [] | Some n \<Rightarrow>
     map (\<lambda>c. finding 0 (ResetCause kind (to_uppercase (node_name c))))
       (filter (\<lambda>c. node_value c \<notin> {None, Some 0}) (children n)))"

lemma adds_reset: "adds (report_reset_cause kind n) (reset_findings kind (Some n))"
proof -
  have eq: "report_reset_cause kind n = (\<lambda>a. fold (\<lambda>c. if node_value c \<in> {None, Some 0} then (\<lambda>a. a)
      else tag_default (ResetCause kind (to_uppercase (node_name c)))) (children n) a)"
    unfolding report_reset_cause_def by (intro ext arg_cong2 [where f = "\<lambda>f a. fold f (children n) a"])
      (auto split: option.split)
  have "adds (report_reset_cause kind n) (concat (map (\<lambda>c. if node_value c \<in> {None, Some 0} then []
      else [finding 0 (ResetCause kind (to_uppercase (node_name c)))]) (children n)))"
    unfolding eq by (rule adds_fold) (simp add: adds_id adds_tag_default)
  moreover have "concat (map (\<lambda>c. if P c then [] else [f c]) cs) = map f (filter (\<lambda>c. \<not> P c) cs)" for P and f :: "node \<Rightarrow> triage_tag" and cs
    by (induction cs) simp_all
  ultimately show ?thesis by (simp add: reset_findings_def)
qed

fun pmc_rst_findings :: "node \<Rightarrow> triage_tag list" where
  "pmc_rst_findings n =
     (case (case node_get n ''pmc_rst'' of Some c \<Rightarrow> Some c | None \<Rightarrow> node_get n ''pmc'') of
        Some c \<Rightarrow> pmc_rst_findings c
      | None \<Rightarrow> reset_findings ResetGlobal (node_get n ''gblrst_cause_0'')
          @ reset_findings ResetFirmwareGlobal (node_get n ''fw_gblrst_cause_0'')
          @ reset_findings ResetHostPartition (node_get n ''host_pr_cause_0''))"

declare pmc_rst_findings.simps [simp del]

lemma adds_reset_option:
  "adds (\<lambda>a. case x of Some c \<Rightarrow> report_reset_cause kind c a | None \<Rightarrow> a) (reset_findings kind x)"
  using adds_reset [of kind] by (cases x) (simp_all add: adds_id reset_findings_def)

lemma adds_pmc_rst [adds_intros]: "adds (analyze_pmc_rst n) (pmc_rst_findings n)"
proof (induction "size n" arbitrary: n rule: less_induct)
  case less
  let ?sub = "case node_get n ''pmc_rst'' of Some c \<Rightarrow> Some c | None \<Rightarrow> node_get n ''pmc''"
  show ?case
  proof (cases ?sub)
    case (Some c)
    then have "analyze_pmc_rst n = analyze_pmc_rst c" by (intro ext) (subst analyze_pmc_rst.simps, simp)
    moreover from Some have "pmc_rst_findings n = pmc_rst_findings c" by (subst pmc_rst_findings.simps) simp
    ultimately show ?thesis using less [of c] node_get_or_size [OF Some] by simp
  next
    case None
    let ?r = "\<lambda>kind reg a. case node_get n reg of Some c \<Rightarrow> report_reset_cause kind c a | None \<Rightarrow> a"
    from None have eq: "analyze_pmc_rst n = (\<lambda>a. ?r ResetHostPartition ''host_pr_cause_0''
        (?r ResetFirmwareGlobal ''fw_gblrst_cause_0'' (?r ResetGlobal ''gblrst_cause_0'' a)))"
      by (intro ext) (subst analyze_pmc_rst.simps, simp add: Let_def)
    from None have "pmc_rst_findings n = (reset_findings ResetGlobal (node_get n ''gblrst_cause_0'')
          @ reset_findings ResetFirmwareGlobal (node_get n ''fw_gblrst_cause_0''))
          @ reset_findings ResetHostPartition (node_get n ''host_pr_cause_0'')"
      by (subst pmc_rst_findings.simps) simp
    then show ?thesis unfolding eq by (simp only:) (intro adds_comp adds_reset_option)
  qed
qed

definition agent_findings :: "node \<Rightarrow> triage_tag list" where
  "agent_findings n =
     (case (do { m \<leftarrow> node_get n ''status''; v \<leftarrow> node_value m; agent_status_from_u64 v },
            do { m \<leftarrow> node_get n ''instruction_pointer''; node_value m }) of
        (Some status, Some ip) \<Rightarrow>
          if agent_status_is_error status then [finding 0 (CrashLogAgentError status (ucast ip))] else []
      | _ \<Rightarrow> [])"

lemma adds_agent [adds_intros]: "adds (analyze_crashlog_agent n) (agent_findings n)"
proof -
  have "adds (\<lambda>a. case x of None \<Rightarrow> a | Some s \<Rightarrow> (case y of None \<Rightarrow> a
        | Some ip \<Rightarrow> if P s then tag_default (t s ip) a else a))
      (case (x, y) of (Some s, Some ip) \<Rightarrow> if P s then [finding 0 (t s ip)] else [] | _ \<Rightarrow> [])"
    for x :: "'a option" and y :: "'b option" and P t
    by (cases x; cases y) (simp_all add: adds_id adds_tag_default)
  then show ?thesis unfolding analyze_crashlog_agent_def [abs_def] agent_findings_def .
qed

definition record_findings :: "node \<Rightarrow> triage_tag list" where
  "record_findings n =
     (let name = trim_end_numeric (node_name n) in
      if name = ''pmc_rst'' then pmc_rst_findings n
      else if name = ''punit'' \<or> name = ''pmc'' then reason_findings n
      else if name = ''pcore'' \<or> name = ''ecore'' then concat (map core_findings (cores n))
      else if name = ''mca'' then concat (map bank_findings (mca_banks n))
      else if name = ''crashlog_agent'' then agent_findings n
      else [])"

lemma adds_record [adds_intros]: "adds (analyze_record n) (record_findings n)"
proof -
  have "adds (\<lambda>a. if A then f1 a else if B then f2 a else if C then f3 a else if D then f4 a else if E then f5 a else a)
      (if A then t1 else if B then t2 else if C then t3 else if D then t4 else if E then t5 else [])"
    if "adds f1 t1" "adds f2 t2" "adds f3 t3" "adds f4 t4" "adds f5 t5" for A B C D E f1 f2 f3 f4 f5 t1 t2 t3 t4 t5
    using that adds_id by simp
  from this [OF adds_pmc_rst adds_reason adds_core adds_mca adds_agent] show ?thesis
    unfolding analyze_record_def [abs_def] record_findings_def Let_def .
qed

text \<open>The records of a tree: the highest nodes that are records\<close>
fun tree_records :: "node \<Rightarrow> node list" where
  "tree_records n = (if node_kind n = NodeRecord then [n] else concat (map tree_records (children n)))"

declare tree_records.simps [simp del]

definition findings :: "node \<Rightarrow> triage_tag list" where
  "findings n = concat (map record_findings (tree_records n))"

lemma adds_records: "adds (analyze_records n) (findings n)"
proof (induction "size n" arbitrary: n rule: less_induct)
  case less
  show ?case
  proof (cases "node_kind n = NodeRecord")
    case True
    then have "analyze_records n = analyze_record n" by (intro ext) (subst analyze_records.simps, simp)
    with True show ?thesis by (simp add: findings_def tree_records.simps [of n] adds_record)
  next
    case False
    then have eq: "analyze_records n = (\<lambda>a. fold analyze_records (children n) a)"
      by (intro ext) (subst analyze_records.simps, simp)
    have "findings n = concat (map findings (children n))"
      using False by (simp add: findings_def [abs_def] tree_records.simps [of n] concat_map_concat comp_def)
    then show ?thesis unfolding eq using less [OF children_size] by (simp add: adds_fold)
  qed
qed

subsection \<open>The whole analysis\<close>

text \<open>The loop over the queue of \<open>analyze\<close>\<close>
function analyze_inputs :: "analyzer \<Rightarrow> analyzer" where
  "analyze_inputs a = (case an_inputs a of [] \<Rightarrow> a
     | input # inputs \<Rightarrow> analyze_inputs (analyze_records input (a\<lparr>an_inputs := inputs\<rparr>)))"
  by pat_completeness auto
termination
proof (relation "measure (\<lambda>a. length (an_inputs a))")
  fix a :: analyzer and input inputs assume "an_inputs a = input # inputs"
  moreover have "an_inputs (analyze_records input (a\<lparr>an_inputs := inputs\<rparr>)) = inputs"
    using adds_records [of input] by (simp add: adds_def)
  ultimately show "(analyze_records input (a\<lparr>an_inputs := inputs\<rparr>), a) \<in> measure (\<lambda>a. length (an_inputs a))"
    by simp
qed simp

declare analyze_inputs.simps [simp del]

definition analyzer_analyze :: "analyzer \<Rightarrow> tag list" where
  "analyzer_analyze a = build_report (analyze_inputs a)"

lemma analyze_inputs_tags:
  "heap tt_priority (an_tags a) \<Longrightarrow> heap tt_priority (an_tags (analyze_inputs a))
     \<and> mset (an_tags (analyze_inputs a)) = mset (an_tags a) + mset (concat (map findings (an_inputs a)))"
proof (induction a rule: analyze_inputs.induct)
  case (1 a)
  show ?case
  proof (cases "an_inputs a")
    case Nil
    with "1.prems" show ?thesis by (simp add: analyze_inputs.simps [of a])
  next
    case (Cons input inputs)
    let ?b = "analyze_records input (a\<lparr>an_inputs := inputs\<rparr>)"
    have "an_inputs ?b = inputs" "heap tt_priority (an_tags ?b)"
      "mset (an_tags ?b) = mset (an_tags a) + mset (findings input)"
      using adds_records [of input] "1.prems" by (simp_all add: adds_def)
    with "1.IH" [OF Cons] Cons show ?thesis
      by (simp add: analyze_inputs.simps [of a])
  qed
qed

lemma build_report_loop_drains:
  "\<exists>ts. drains (heap_pop tt_priority) h ts \<and> build_report_loop h tags = tags @ map tt_tag ts"
proof (induction h tags rule: build_report_loop.induct)
  case (1 h tags)
  show ?case
  proof (cases "heap_pop tt_priority h")
    case None
    then show ?thesis by (auto simp: build_report_loop.simps [of h] intro: drains.drains_empty)
  next
    case (Some th)
    obtain t h' where th: "th = (t, h')" by (cases th)
    from "1.IH" [OF Some th [symmetric]] obtain ts where "drains (heap_pop tt_priority) h' ts"
      "build_report_loop h' (tags @ [tt_tag t]) = (tags @ [tt_tag t]) @ map tt_tag ts" by blast
    with Some th show ?thesis
      by (intro exI [of _ "t # ts"]) (simp add: build_report_loop.simps [of h] drains.drains_pop)
  qed
qed

lemma inputs_with_input: "foldl with_input a ns = a\<lparr>an_inputs := an_inputs a @ ns\<rparr>"
  by (induction ns arbitrary: a) (simp_all add: with_input_def)

text \<open>The priority of a tag is that of its kind.\<close>
definition tag_priority :: "tag \<Rightarrow> int" where
  "tag_priority t = (case t of CoreTimeout _ \<Rightarrow> 10 | MachineCheck _ _ _ \<Rightarrow> 5 | _ \<Rightarrow> 0)"

definition ranked :: "triage_tag \<Rightarrow> bool" where
  "ranked t \<longleftrightarrow> tt_priority t = tag_priority (tt_tag t)"

lemma list_all_concat_map: "list_all P (concat (map f xs)) \<longleftrightarrow> list_all (\<lambda>x. list_all P (f x)) xs"
  by (induction xs) simp_all

lemma ranked_banks: "list_all ranked (concat (map bank_findings bs))"
  by (simp add: list_all_concat_map bank_findings_def ranked_def tag_priority_def list_all_iff)

lemma ranked_pmc_rst: "list_all ranked (pmc_rst_findings n)"
proof (induction n rule: pmc_rst_findings.induct)
  case (1 n)
  have reset: "list_all ranked (reset_findings kind x)" for kind x
    by (auto simp: reset_findings_def ranked_def tag_priority_def list_all_iff split: option.split)
  show ?case
    using "1.IH" reset by (subst pmc_rst_findings.simps) (simp split: option.split)
qed

lemma ranked_findings: "list_all ranked (concat (map findings ns))"
proof -
  have "list_all ranked (concat (map core_findings cs))" for cs
    using ranked_banks
    by (simp add: list_all_concat_map core_findings_def) (simp add: list_all_iff ranked_def tag_priority_def)
  moreover have "list_all ranked (reason_findings n)" "list_all ranked (agent_findings n)" for n
    by (auto simp: reason_findings_def agent_findings_def ranked_def tag_priority_def split: option.split)
  ultimately have "list_all ranked (record_findings n)" for n
    using ranked_banks ranked_pmc_rst by (simp add: record_findings_def Let_def)
  then show ?thesis by (simp add: list_all_concat_map findings_def list_all_iff)
qed

lemma analyze_report_ranked:
  "mset (analyzer_analyze (foldl with_input analyzer_default ns)) = mset (map tt_tag (concat (map findings ns)))
   \<and> sorted_wrt (\<lambda>x y. tag_priority y \<le> tag_priority x) (analyzer_analyze (foldl with_input analyzer_default ns))"
proof -
  let ?a = "foldl with_input analyzer_default ns"
  have a: "an_tags ?a = []" "an_inputs ?a = ns" by (simp_all add: inputs_with_input analyzer_default_def)
  have tags: "heap tt_priority (an_tags (analyze_inputs ?a))
      \<and> mset (an_tags (analyze_inputs ?a)) = mset (concat (map findings ns))"
    using analyze_inputs_tags [of ?a] array_heap.wf_empty [of tt_priority] by (simp add: a)
  obtain ts where ts: "drains (heap_pop tt_priority) (an_tags (analyze_inputs ?a)) ts"
    "build_report (analyze_inputs ?a) = map tt_tag ts"
    using build_report_loop_drains [of "an_tags (analyze_inputs ?a)" "[]"] by (auto simp: build_report_def)
  from array_heap.drains_sorted [OF ts(1)] tags have sorted: "mset ts = mset (concat (map findings ns))"
    "sorted_wrt (\<lambda>x y. tt_priority y \<le> tt_priority x) ts" by simp_all
  from ranked_findings [of ns] sorted(1) have "ranked t" if "t \<in> set ts" for t
    using that by (metis list_all_iff mset_eq_setD)
  then have "sorted_wrt (\<lambda>x y. tag_priority (tt_tag y) \<le> tag_priority (tt_tag x)) ts"
    using sorted(2) by (auto simp: ranked_def elim!: sorted_wrt_mono_rel [rotated])
  with ts(2) sorted(1) show ?thesis
    by (simp add: analyzer_analyze_def sorted_wrt_map mset_map [symmetric] del: mset_map) (metis mset_map)
qed

lemmas analyze_report_perm = analyze_report_ranked [THEN conjunct1]

text \<open>C29. The report of an analysis has every finding of every record of every queued tree exactly as
  often as it was made, and nothing else, ordered by priority: a core timeout comes before the machine
  checks, and these before everything else.\<close>
theorem analyze_report:
  "mset (analyzer_analyze (foldl with_input analyzer_default ns)) = mset (map tt_tag (concat (map findings ns)))
   \<and> sorted_wrt (\<lambda>x y. tag_priority y \<le> tag_priority x) (analyzer_analyze (foldl with_input analyzer_default ns))"
  by (rule analyze_report_ranked)

subsection \<open>Properties of the findings\<close>

text \<open>A transaction queue is classified by its valid entries: none, one (with its address), or more.\<close>
theorem transaction_queue_triage_counts:
  "transaction_queue_triage q = (case filter tr_valid q of
     [] \<Rightarrow> NoStuckTransaction | [t] \<Rightarrow> SingleStuckTransaction (tr_address t) | _ \<Rightarrow> MultipleStuckTransaction)"
proof -
  have some: "triage_loop (Some t) ts = (if filter tr_valid ts = [] then SingleStuckTransaction (tr_address t)
      else MultipleStuckTransaction)" for t ts
    by (induction ts) simp_all
  have "triage_loop None q = (case filter tr_valid q of
     [] \<Rightarrow> NoStuckTransaction | [t] \<Rightarrow> SingleStuckTransaction (tr_address t) | _ \<Rightarrow> MultipleStuckTransaction)"
    by (induction q) (auto simp: some split: list.split)
  then show ?thesis by (simp add: transaction_queue_triage_def)
qed

text \<open>The code a machine check error stands for\<close>
definition mca_code_value :: "mca_code \<Rightarrow> u16" where
  "mca_code_value c = (case c of
     McaRaw code \<Rightarrow> code | McaNoError \<Rightarrow> 0 | McaUnclassified \<Rightarrow> 1 | McaMicrocodeRomParityError \<Rightarrow> 2
   | McaExternalError \<Rightarrow> 3 | McaFrcError \<Rightarrow> 4 | McaInternalParityError \<Rightarrow> 5
   | McaSmmHandlerCodeAccessViolation \<Rightarrow> 6 | McaInternalTimerError \<Rightarrow> 0x400 | McaIoError \<Rightarrow> 0xE0B
   | McaInternalUnclassified x \<Rightarrow> 0x400 OR x)"

text \<open>The classification of machine check error codes is lossless: the code can be read back, and an
  unclassified internal error keeps its ten low bits, which are not all zero.\<close>
theorem mca_code_from_u16_lossless:
  "mca_code_value (mca_code_from_u16 code) = code
   \<and> (\<forall>x. mca_code_from_u16 code = McaInternalUnclassified x \<longleftrightarrow> x = take_bit 10 code \<and> x \<noteq> 0 \<and> drop_bit 10 code = 1)"
proof -
  have mask: "code AND 0x3FF = take_bit 10 code" by (simp add: take_bit_eq_mask mask_eq_exp_minus_1)
  have split: "code = push_bit 10 (drop_bit 10 code) OR take_bit 10 code"
    by (auto simp: bit_simps intro!: bit_word_eqI)
  have one: "0x400 OR take_bit 10 code = code" if "drop_bit 10 code = 1"
    using split that by simp
  have "drop_bit 10 code \<noteq> 1 \<or> take_bit 10 code \<noteq> 0" if "code \<noteq> 0x400"
    using one that by auto
  then show ?thesis
    using one by (auto simp: mca_code_from_u16_def mca_code_value_def mask)
qed

text \<open>The banks of a subtree by their paths\<close>

lemma mca_banks_child:
  "c \<in> set (children n) \<Longrightarrow> bank_from_node c = Some b \<Longrightarrow> b \<in> set (mca_banks n)"
  "c \<in> set (children n) \<Longrightarrow> bank_from_node c = None \<Longrightarrow> b \<in> set (mca_banks c) \<Longrightarrow> b \<in> set (mca_banks n)"
  by (subst mca_banks.simps; force)+

fun no_bank_above :: "node \<Rightarrow> string list \<Rightarrow> bool" where
  "no_bank_above n [] = True"
| "no_bank_above n [x] = True"
| "no_bank_above n (x # y # ys) =
     (case node_get n x of Some c \<Rightarrow> bank_from_node c = None \<and> no_bank_above c (y # ys) | None \<Rightarrow> True)"

lemma mca_banks_path:
  assumes "ps \<noteq> []" "node_get_path n ps = Some c" "bank_from_node c = Some b" "no_bank_above n ps"
  shows "b \<in> set (mca_banks n)"
  using assms
proof (induction n ps rule: no_bank_above.induct)
  case (3 n x y ys)
  from "3.prems"(2) obtain m where m: "node_get n x = Some m" "node_get_path m (y # ys) = Some c"
    by (auto split: Option.bind_splits)
  with "3.prems"(4) have "bank_from_node m = None" "no_bank_above m (y # ys)" by simp_all
  with mca_banks_child(2) [OF node_get_children [OF m(1)]] "3.IH" [OF m(1)] m "3.prems"(3) show ?case by simp
next
  case (2 n x)
  then show ?case using mca_banks_child(1) [OF node_get_children] by (auto split: Option.bind_splits)
qed simp

text \<open>C30. No machine check is lost: every valid bank at any depth of an \<open>mca\<close> record of a queued tree, not
  below another bank, is in the report with its number and its two codes.\<close>
theorem analyze_reports_machine_checks:
  assumes "n \<in> set ns" and "r \<in> set (tree_records n)" and "trim_end_numeric (node_name r) = ''mca''"
    and "ps \<noteq> []" and "node_get_path r ps = Some c" and "no_bank_above r ps"
    and "bank_from_node c = Some b" and "mcs_valid (bank_status b)"
  shows "MachineCheck (bank_id b) (model_specific_code_show (mcs_mscod (bank_status b)))
           (mca_code_show (mcs_mcacod (bank_status b)))
         \<in> set (analyzer_analyze (foldl with_input analyzer_default ns))"
proof -
  let ?t = "MachineCheck (bank_id b) (model_specific_code_show (mcs_mscod (bank_status b)))
           (mca_code_show (mcs_mcacod (bank_status b)))"
  have "b \<in> set (mca_banks r)" using assms by (intro mca_banks_path)
  then have "finding 5 ?t \<in> set (record_findings r)"
    using assms by (force simp: record_findings_def bank_findings_def)
  with assms(1,2) have "finding 5 ?t \<in> set (concat (map findings ns))"
    by (auto simp: findings_def)
  then have "?t \<in> set (map tt_tag (concat (map findings ns)))" by (force simp del: set_concat)
  moreover have "set (analyzer_analyze (foldl with_input analyzer_default ns)) = set (map tt_tag (concat (map findings ns)))"
    using analyze_report_perm by (rule mset_eq_setD)
  ultimately show ?thesis by simp
qed

definition example_mca_tree :: node where
  "example_mca_tree = node_add node_root (node_add (node_record ''mca'') (node_add (node_section ''foo'')
     (node_add (node_section ''bank42'') (node_field ''status'' 0x8000000012345678))))"

theorem analyze_reports_machine_checks_witness:
  "MachineCheck 42 ''MSCOD_1234H'' ''MCACOD_5678H''
     \<in> set (analyzer_analyze (foldl with_input analyzer_default [example_mca_tree]))"
proof -
  let ?r = "the (node_get example_mca_tree ''mca'')"
  let ?c = "the (node_get_path ?r [''foo'', ''bank42''])"
  let ?b = "\<lparr>bank_id = 42, bank_status = \<lparr>mcs_valid = True, mcs_mscod = MscodRaw 0x1234, mcs_mcacod = McaRaw 0x5678\<rparr>\<rparr>"
  have "strip_prefix ''bank'' (node_name ?c) = Some ''42''" "do { s \<leftarrow> node_get ?c ''status''; node_value s } = Some 0x8000000012345678"
    by code_simp+
  moreover have "parse_usize ''42'' = Inr 42" by (simp add: parse_usize_def from_str_radix_def digit_value_def)
  moreover have "mca_status_from_u64 0x8000000012345678 = Some (bank_status ?b)" by code_simp
  ultimately have "bank_from_node ?c = Some ?b"
    by (auto simp: bank_from_node_def split: Option.bind_splits)
  moreover have "node_get_path ?r [''foo'', ''bank42''] = Some ?c" by code_simp
  moreover have "trim_end_numeric (node_name ?r) = ''mca''" "no_bank_above ?r [''foo'', ''bank42'']"
    by code_simp+
  moreover have "?r \<in> set (tree_records example_mca_tree)" by code_simp
  ultimately have "MachineCheck (bank_id ?b) (model_specific_code_show (mcs_mscod (bank_status ?b)))
      (mca_code_show (mcs_mcacod (bank_status ?b))) \<in> set (analyzer_analyze (foldl with_input analyzer_default [example_mca_tree]))"
    by (intro analyze_reports_machine_checks [of example_mca_tree _ ?r "[''foo'', ''bank42'']" ?c ?b]) simp_all
  moreover have "mca_code_show (McaRaw 0x5678) = ''MCACOD_5678H''" "model_specific_code_show (MscodRaw 0x1234) = ''MSCOD_1234H''"
    by (simp_all add: mca_code_show_def model_specific_code_show_def show_HEX_def show_radix.simps digit_upper_def zero_pad_def
        char_of_def bit_iff_odd numeral_2_eq_2 [symmetric])
  ultimately show ?thesis by simp
qed

end
