(* ===== verification/Header.thy ===== *)
theory Header
  imports Node
begin

text \<open>
  Record headers: \<open>lib/src/header.rs\<close>, \<open>lib/src/errata.rs\<close>, the keys of the collateral tree
  (\<open>lib/src/collateral/pvss.rs\<close>, \<open>lib/src/collateral/path.rs\<close>) and the error type
  (\<open>lib/src/error.rs\<close>). Parsers take the whole slice and read fixed offsets from it; every
  \<open>?\<close> on an \<open>Option\<close> is a bind. A version word of 0 or \<open>0xdeadbeef\<close> is the termination marker.
\<close>

subsection \<open>Keys of the collateral tree\<close>

record pvss =
  pvss_product :: string
  pvss_variant :: string
  pvss_stepping :: string
  pvss_security :: string

definition pvss_default :: pvss where
  "pvss_default = \<lparr>pvss_product = ''all'', pvss_variant = ''all'', pvss_stepping = ''all'',
     pvss_security = ''all''\<rparr>"

definition pvss_show :: "pvss \<Rightarrow> string" where
  "pvss_show p = pvss_product p @ ''/'' @ pvss_variant p @ ''/'' @ pvss_stepping p @ ''/''
     @ pvss_security p"

text \<open>\<open>From<&PVSS> for PathBuf\<close>: the components of the relative path\<close>
definition pvss_path :: "pvss \<Rightarrow> string list" where
  "pvss_path p = filter (\<lambda>c. c \<noteq> ''.'' \<and> c \<noteq> ''..'')
     [pvss_product p, pvss_variant p, pvss_stepping p, pvss_security p]"

datatype item_path = ItemPath (item_elements: "string list")

definition item_push :: "item_path \<Rightarrow> string \<Rightarrow> item_path" where
  "item_push p e = ItemPath (item_elements p @ [e])"

definition item_from_str :: "string \<Rightarrow> item_path" where
  "item_from_str s = ItemPath (split_on CHR ''/'' s)"

text \<open>The loop of \<open>Display for ItemPath\<close>: a slash after every element but the last\<close>
fun item_show_elements :: "string list \<Rightarrow> string" where
  "item_show_elements [] = []"
| "item_show_elements [p] = p"
| "item_show_elements (p # ps) = p @ ''/'' @ item_show_elements ps"

definition item_show :: "item_path \<Rightarrow> string" where
  "item_show p = item_show_elements (item_elements p)"

subsection \<open>Record types and versions\<close>

definition PMC :: u8 where "PMC = 0x1"
definition PMC_FW_TRACE :: u8 where "PMC_FW_TRACE = 0x2"
definition PUNIT :: u8 where "PUNIT = 0x3"
definition PCORE :: u8 where "PCORE = 0x4"
definition ECORE :: u8 where "ECORE = 0x6"
definition UNCORE :: u8 where "UNCORE = 0x8"
definition PMC_TRACE :: u8 where "PMC_TRACE = 0x11"
definition TCSS :: u8 where "TCSS = 0x16"
definition PMC_RST :: u8 where "PMC_RST = 0x17"
definition PCODE :: u8 where "PCODE = 0x19"
definition CRASHLOG_AGENT :: u8 where "CRASHLOG_AGENT = 0x1C"
definition BOX :: u8 where "BOX = 0x3D"
definition MCA :: u8 where "MCA = 0x3E"

lemmas record_types = PMC_def PMC_FW_TRACE_def PUNIT_def PCORE_def ECORE_def UNCORE_def
  PMC_TRACE_def TCSS_def PMC_RST_def PCODE_def CRASHLOG_AGENT_def BOX_def MCA_def

record version =
  ver_revision :: u32
  ver_header_type :: u16
  ver_product_id :: u32
  ver_record_type :: u8
  ver_consumed :: bool
  ver_cldic :: bool

definition version_default :: version where
  "version_default = \<lparr>ver_revision = 0, ver_header_type = 0, ver_product_id = 0,
     ver_record_type = 0, ver_consumed = False, ver_cldic = False\<rparr>"

text \<open>The value of the version word, field by field (\<open>Version::from_slice\<close> after the marker test)\<close>
definition version_of_u32 :: "u32 \<Rightarrow> version" where
  "version_of_u32 v = \<lparr>
     ver_revision = v AND 0xFF,
     ver_header_type = ucast (drop_bit 8 v AND 0xF),
     ver_product_id = drop_bit 12 v AND 0xFFF,
     ver_record_type = ucast (drop_bit 24 v AND 0x3F),
     ver_consumed = (drop_bit 31 v AND 1 = 1),
     ver_cldic = (drop_bit 30 v AND 1 = 1)\<rparr>"

definition version_from_slice :: "bytes \<Rightarrow> version option" where
  "version_from_slice s = do {
     v \<leftarrow> read_u32 s 0 4;
     if v = 0 \<or> v = 0xdeadbeef then None else Some (version_of_u32 v) }"

text \<open>\<open>b as u32\<close>\<close>
definition bool_word :: "bool \<Rightarrow> 'a::len word" where
  "bool_word b = (if b then 1 else 0)"

definition version_as_u32 :: "version \<Rightarrow> u32" where
  "version_as_u32 v =
     push_bit 31 (bool_word (ver_consumed v)) OR push_bit 30 (bool_word (ver_cldic v))
     OR push_bit 24 (ucast (ver_record_type v)) OR push_bit 12 (ver_product_id v)
     OR push_bit 8 (ucast (ver_header_type v)) OR ver_revision v"

subsection \<open>Errors\<close>

datatype error =
    Unsupported | InternalError | InvalidCrashLog | NoCrashLogFound | NoCrashLogSourceFound
  | MissingCollateral pvss item_path | MissingDecodeDefinitions version
  | InvalidBootErrorRecordRegion | InvalidHeader | EmptyRegion
  | InvalidHeaderType u16 | InvalidRecordType u8 | InvalidProductID u32
  | JsonError string | Utf8Error nat | ParseIntError int_error | IOError string | OsStringError string

definition record_type_as_str :: "version \<Rightarrow> error + string" where
  "record_type_as_str v = (let rt = ver_record_type v in
     if rt = PMC then Inr ''PMC''
     else if rt = PMC_FW_TRACE then Inr ''PMC_FW_Trace''
     else if rt = PUNIT then Inr ''Punit''
     else if rt = PCORE then Inr ''PCORE''
     else if rt = ECORE then Inr ''ECORE''
     else if rt = UNCORE then Inr ''UNCORE''
     else if rt = PMC_TRACE then Inr ''PMC_TRACE''
     else if rt = TCSS then Inr ''TCSS''
     else if rt = PMC_RST then Inr ''PMC_RST''
     else if rt = PCODE then Inr ''PCODE''
     else if rt = CRASHLOG_AGENT then Inr ''CRASHLOG_AGENT''
     else if rt = BOX then Inr ''BOX''
     else if rt = MCA then Inr ''MCA''
     else Inl (InvalidRecordType rt))"

text \<open>\<open>r.unwrap_or(d)\<close> on a \<open>Result\<close>\<close>
definition unwrap_or :: "'e + 'a \<Rightarrow> 'a \<Rightarrow> 'a" where
  "unwrap_or r d = (case r of Inl _ \<Rightarrow> d | Inr v \<Rightarrow> v)"

definition version_show :: "version \<Rightarrow> string" where
  "version_show v = unwrap_or (record_type_as_str v) ''UNKNOWN'' @ '' revision ''
     @ show_dec (unat (ver_revision v))"

subsection \<open>Errata\<close>

record errata =
  err_type0_legacy_server :: bool
  err_type0_legacy_server_box :: bool
  err_core_record_size_bytes :: bool

definition SERVER_LEGACY_PRODUCT_IDS :: "u32 list" where
  "SERVER_LEGACY_PRODUCT_IDS = [0x2f, 0x82, 0x8e]"

definition CGC_PRODUCT_ID :: u32 where "CGC_PRODUCT_ID = 0x85"

definition errata_from_version :: "version \<Rightarrow> errata" where
  "errata_from_version v =
     (let type0_legacy_server =
            ver_header_type v = 0 \<and> ver_product_id v \<in> set SERVER_LEGACY_PRODUCT_IDS;
          type0_legacy_server_box = type0_legacy_server \<and> ver_record_type v = PCORE;
          ecore_record_with_size_in_bytes = ver_record_type v = ECORE \<and> ver_product_id v < 0x96;
          pcore_record_with_size_in_bytes = ver_record_type v = PCORE
            \<and> (ver_product_id v < 0x71 \<or> ver_product_id v = CGC_PRODUCT_ID);
          core_record_size_bytes = \<not> type0_legacy_server
            \<and> (ecore_record_with_size_in_bytes \<or> pcore_record_with_size_in_bytes)
      in \<lparr>err_type0_legacy_server = type0_legacy_server,
          err_type0_legacy_server_box = type0_legacy_server_box,
          err_core_record_size_bytes = core_record_size_bytes\<rparr>)"

subsection \<open>Sizes\<close>

record record_size =
  rs_record_size :: u16
  rs_extended_record_size :: u16

definition record_size_from_slice :: "bytes \<Rightarrow> record_size option" where
  "record_size_from_slice s = do {
     sz \<leftarrow> read_u16 s 4 6;
     ext \<leftarrow> read_u16 s 6 8;
     Some \<lparr>rs_record_size = sz, rs_extended_record_size = ext\<rparr> }"

definition record_size_from_slice_type0_legacy_server :: "bytes \<Rightarrow> record_size option" where
  "record_size_from_slice_type0_legacy_server s = do {
     sz \<leftarrow> read_u16 s 16 18;
     Some \<lparr>rs_record_size = sz, rs_extended_record_size = 0\<rparr> }"

subsection \<open>Header types\<close>

text \<open>
  The fields are in the order of the source: timestamp, agent version, reason, then the fields
  of the type.
\<close>

datatype header_type =
    Type0
  | Type1
  | Type2 u64 u32 u32
  | Type3 u64 u32 u32 (ht3_completion_status: u32) (ht3_collection_complete: bool)
  | Type4 u64 u32 u32 (ht4_whoami: u32) (ht4_misc: u32)
  | Type5 u64 u32 u32 (ht5_completion_status: u32) (ht5_collection_complete: bool)
      (ht5_error_status: u32)
  | Type6 u64 u32 u32 (ht6_die_id: u8) (ht6_socket_id: u8) (ht6_completion_status_size: u16)
      (ht6_completion_status: "u32 list") (ht6_collection_complete: bool)
  | Type0LegacyServer u64 u32 u32 (ht0_die_id: u8) (ht0_socket_id: u8)
      (ht0_completion_status: u32) (ht0_collection_complete: bool)

definition type2_from_slice :: "bytes \<Rightarrow> header_type option" where
  "type2_from_slice s = do {
     timestamp \<leftarrow> read_u64 s 8 16;
     agent_version \<leftarrow> read_u32 s 16 20;
     reason \<leftarrow> read_u32 s 20 24;
     Some (Type2 timestamp agent_version reason) }"

definition type3_from_slice :: "bytes \<Rightarrow> header_type option" where
  "type3_from_slice s = do {
     timestamp \<leftarrow> read_u64 s 8 16;
     agent_version \<leftarrow> read_u32 s 16 20;
     reason \<leftarrow> read_u32 s 20 24;
     cs_data \<leftarrow> read_u32 s 24 28;
     Some (Type3 timestamp agent_version reason (cs_data AND 0x7FFFFFFF) (drop_bit 31 cs_data \<noteq> 0)) }"

definition type4_from_slice :: "bytes \<Rightarrow> header_type option" where
  "type4_from_slice s = do {
     timestamp \<leftarrow> read_u64 s 8 16;
     agent_version \<leftarrow> read_u32 s 16 20;
     reason \<leftarrow> read_u32 s 20 24;
     whoami \<leftarrow> read_u32 s 24 28;
     misc \<leftarrow> read_u32 s 28 32;
     Some (Type4 timestamp agent_version reason whoami misc) }"

definition type5_from_slice :: "bytes \<Rightarrow> header_type option" where
  "type5_from_slice s = do {
     timestamp \<leftarrow> read_u64 s 8 16;
     agent_version \<leftarrow> read_u32 s 16 20;
     reason \<leftarrow> read_u32 s 20 24;
     cs_data \<leftarrow> read_u32 s 24 28;
     error_status \<leftarrow> read_u32 s 28 32;
     Some (Type5 timestamp agent_version reason (cs_data AND 0x7FFFFFFF) (drop_bit 31 cs_data \<noteq> 0)
             error_status) }"

text \<open>The size is masked to 7 bits, so that the index of the last dword fits in 16 bits.\<close>
definition type6_from_slice :: "bytes \<Rightarrow> header_type option" where
  "type6_from_slice s = do {
     timestamp \<leftarrow> read_u64 s 8 16;
     agent_version \<leftarrow> read_u32 s 16 20;
     reason \<leftarrow> read_u32 s 20 24;
     die_skt_info \<leftarrow> slice_get s 24 28;
     let die_id = die_skt_info ! 0;
     let socket_id = die_skt_info ! 1;
     size \<leftarrow> read_u16 die_skt_info 2 4;
     let completion_status_size = size AND 0x7F;
     let collection_complete = die_skt_info ! 3 AND 0x80 \<noteq> 0;
     completion_status \<leftarrow> those (map (\<lambda>dword. let index = 28 + dword * 4 in read_u32 s index (index + 4))
        [0..<unat completion_status_size]);
     Some (Type6 timestamp agent_version reason die_id socket_id completion_status_size
             completion_status collection_complete) }"

definition type0_legacy_server_from_slice :: "bytes \<Rightarrow> header_type option" where
  "type0_legacy_server_from_slice s = do {
     reason \<leftarrow> read_u32 s 4 8;
     timestamp \<leftarrow> read_u64 s 8 16;
     agent_version \<leftarrow> read_u32 s 20 24;
     socket_id \<leftarrow> slice_at s 24;
     cs_data \<leftarrow> read_u32 s 28 32;
     revision \<leftarrow> slice_at s 0;
     let die_idx = revision AND 0x3;
     let die_id = (if drop_bit 7 revision AND 1 = 1 then die_idx + 9 else push_bit 2 die_idx);
     Some (Type0LegacyServer timestamp agent_version reason die_id socket_id
             (cs_data AND 0x7FFFFFFF) (drop_bit 31 cs_data \<noteq> 0)) }"

definition header_type_from_slice :: "u16 \<Rightarrow> bytes \<Rightarrow> error + header_type" where
  "header_type_from_slice t s =
     (if t = 0 then Inr Type0
      else if t = 1 then Inr Type1
      else if t = 2 then ok_or InvalidHeader (type2_from_slice s)
      else if t = 3 then ok_or InvalidHeader (type3_from_slice s)
      else if t = 4 then ok_or InvalidHeader (type4_from_slice s)
      else if t = 5 then ok_or InvalidHeader (type5_from_slice s)
      else if t = 6 then ok_or InvalidHeader (type6_from_slice s)
      else Inl (InvalidHeaderType t))"

definition header_type_from_slice_type0_legacy_server :: "bytes \<Rightarrow> error + header_type" where
  "header_type_from_slice_type0_legacy_server s =
     ok_or InvalidHeader (type0_legacy_server_from_slice s)"

subsection \<open>Headers\<close>

record header =
  hdr_version :: version
  hdr_size :: record_size
  hdr_header_type :: header_type

definition header_default :: header where
  "header_default = \<lparr>hdr_version = version_default,
     hdr_size = \<lparr>rs_record_size = 0, rs_extended_record_size = 0\<rparr>, hdr_header_type = Type1\<rparr>"

definition header_from_slice :: "bytes \<Rightarrow> error + header option" where
  "header_from_slice s = (case version_from_slice s of
     None \<Rightarrow> Inr None
   | Some version \<Rightarrow>
       (let errata = errata_from_version version in
        rbind (if err_type0_legacy_server errata
               then ok_or InvalidHeader (record_size_from_slice_type0_legacy_server s)
               else ok_or InvalidHeader (record_size_from_slice s)) (\<lambda>size.
        rbind (if err_type0_legacy_server errata
               then header_type_from_slice_type0_legacy_server s
               else header_type_from_slice (ver_header_type version) s) (\<lambda>header_type.
        Inr (Some \<lparr>hdr_version = version, hdr_size = size, hdr_header_type = header_type\<rparr>)))))"

definition record_size_granularity :: "header \<Rightarrow> nat" where
  "record_size_granularity h =
     (if err_core_record_size_bytes (errata_from_version (hdr_version h)) then 1 else 4)"

definition header_record_size :: "header \<Rightarrow> nat" where
  "header_record_size h =
     (unat (rs_record_size (hdr_size h)) + unat (rs_extended_record_size (hdr_size h)))
     * record_size_granularity h"

definition extended_record_offset :: "header \<Rightarrow> nat option" where
  "extended_record_offset h = (if rs_extended_record_size (hdr_size h) > 0
     then Some (unat (rs_record_size (hdr_size h)) * record_size_granularity h) else None)"

definition header_revision :: "header \<Rightarrow> u32" where
  "header_revision h = ver_revision (hdr_version h)"

definition header_product_id :: "header \<Rightarrow> u32" where
  "header_product_id h = ver_product_id (hdr_version h)"

definition header_socket_id :: "header \<Rightarrow> u8" where
  "header_socket_id h = (case hdr_header_type h of
     Type6 _ _ _ _ socket_id _ _ _ \<Rightarrow> socket_id
   | Type0LegacyServer _ _ _ _ socket_id _ _ \<Rightarrow> socket_id
   | _ \<Rightarrow> 0)"

definition header_die_id :: "header \<Rightarrow> u8 option" where
  "header_die_id h = (case hdr_header_type h of
     Type6 _ _ _ die_id _ _ _ _ \<Rightarrow> Some die_id
   | Type0LegacyServer _ _ _ die_id _ _ _ \<Rightarrow> Some die_id
   | _ \<Rightarrow> None)"

definition header_record_type :: "header \<Rightarrow> error + string" where
  "header_record_type h = record_type_as_str (hdr_version h)"

definition header_size :: "header \<Rightarrow> nat" where
  "header_size h = (case hdr_header_type h of
     Type0 \<Rightarrow> 8 | Type1 \<Rightarrow> 8 | Type2 _ _ _ \<Rightarrow> 24 | Type3 _ _ _ _ _ \<Rightarrow> 28
   | Type4 _ _ _ _ _ \<Rightarrow> 32 | Type5 _ _ _ _ _ _ \<Rightarrow> 32
   | Type6 _ _ _ _ _ completion_status_size _ _ \<Rightarrow> 28 + unat completion_status_size * 4
   | Type0LegacyServer _ _ _ _ _ _ _ \<Rightarrow> 32)"

definition header_get_root_path :: "header \<Rightarrow> string option" where
  "header_get_root_path h =
     (let path = (\<lambda>socket_id die_id. ''processors.cpu'' @ show_dec (unat (socket_id :: u8)) @ ''.die''
            @ show_dec (unat (die_id :: u8)))
      in case hdr_header_type h of
        Type6 _ _ _ die_id socket_id _ _ _ \<Rightarrow> Some (path socket_id die_id)
      | Type0LegacyServer _ _ _ die_id socket_id _ _ \<Rightarrow> Some (path socket_id die_id)
      | _ \<Rightarrow> None)"

definition header_show :: "header \<Rightarrow> string" where
  "header_show h =
     (let record_type = unwrap_or (header_record_type h) ''RECORD'';
          version = ''product_id=0x'' @ show_hex (unat (ver_product_id (hdr_version h)))
            @ '', record_type=0x'' @ show_hex (unat (ver_record_type (hdr_version h)))
            @ '', revision=0x'' @ show_hex (unat (ver_revision (hdr_version h)));
          ids = (\<lambda>die_id socket_id. ''die_id='' @ show_dec (unat (die_id :: u8)) @ '', socket_id=''
            @ show_dec (unat (socket_id :: u8)));
          header_type = (case hdr_header_type h of
              Type6 _ _ _ die_id socket_id _ _ _ \<Rightarrow> ids die_id socket_id
            | Type0LegacyServer _ _ _ die_id socket_id _ _ \<Rightarrow> ids die_id socket_id
            | _ \<Rightarrow> ''..'')
      in record_type @ '' - ('' @ version @ '', '' @ header_type @ '')'')"

subsection \<open>Register trees of headers\<close>

text \<open>A sequence of calls \<open>node.add(c)\<close>\<close>
definition node_adds :: "node \<Rightarrow> node list \<Rightarrow> node" where
  "node_adds n cs = fold (\<lambda>c n. node_add n c) cs n"

definition node_from_record_size :: "record_size \<Rightarrow> node" where
  "node_from_record_size sz = node_adds (node_section ''record_size'')
     [node_field ''record_size'' (ucast (rs_record_size sz)),
      node_field ''extended_record_size'' (ucast (rs_extended_record_size sz))]"

definition node_from_version :: "version \<Rightarrow> node" where
  "node_from_version v = node_adds (node_field ''version'' (ucast (version_as_u32 v)))
     [node_field ''revision'' (ucast (ver_revision v)),
      node_field ''header_type'' (ucast (ver_header_type v)),
      node_field ''product_id'' (ucast (ver_product_id v)),
      node_field ''record_type'' (ucast (ver_record_type v))]"

text \<open>The three fields every extended type starts with\<close>
definition common_fields :: "u64 \<Rightarrow> u32 \<Rightarrow> u32 \<Rightarrow> node list" where
  "common_fields timestamp agent_version reason =
     [node_field ''timestamp'' timestamp, node_field ''agent_version'' (ucast agent_version),
      node_field ''reason'' (ucast reason)]"

definition completion_status_node :: "u32 \<Rightarrow> bool \<Rightarrow> node" where
  "completion_status_node completion_status collection_complete =
     node_adds (node_section ''completion_status'')
       [node_field ''completion_status'' (ucast completion_status),
        node_field ''record_collection_completed'' (bool_word collection_complete)]"

definition header_type_nodes :: "header_type \<Rightarrow> node list" where
  "header_type_nodes ht = (case ht of
     Type0 \<Rightarrow> [] | Type1 \<Rightarrow> []
   | Type2 t a r \<Rightarrow> common_fields t a r
   | Type3 t a r cs cc \<Rightarrow> common_fields t a r @ [completion_status_node cs cc]
   | Type4 t a r whoami misc \<Rightarrow> common_fields t a r
       @ [node_field ''whoami'' (ucast whoami), node_field ''misc'' (ucast misc)]
   | Type5 t a r cs cc error_status \<Rightarrow> common_fields t a r
       @ [node_field ''error_status'' (ucast error_status), completion_status_node cs cc]
   | Type6 t a r die_id socket_id sz cs cc \<Rightarrow> common_fields t a r
       @ [node_adds (node_section ''die_skt_info'')
            [node_field ''die_id'' (ucast die_id), node_field ''socket_id'' (ucast socket_id),
             node_field ''completion_status_size'' (ucast sz),
             node_field ''record_collection_completed'' (bool_word cc)]]
       @ map (\<lambda>(i, x). node_field (''completion_status'' @ show_dec i) (ucast x)) (enumerate 0 cs)
   | Type0LegacyServer t a r die_id socket_id cs cc \<Rightarrow> common_fields t a r
       @ [node_field ''die_id'' (ucast die_id), node_field ''socket_id'' (ucast socket_id),
          node_field ''completion_status'' (ucast cs),
          node_field ''record_collection_completed'' (bool_word cc)])"

definition node_from_header :: "header \<Rightarrow> node" where
  "node_from_header h = node_adds (node_section ''hdr'')
     ([node_from_version (hdr_version h), node_from_record_size (hdr_size h)]
      @ header_type_nodes (hdr_header_type h))"

subsection \<open>Bits of the version word\<close>

lemma bit_bool_word: "bit (bool_word b :: 'a::len word) n \<longleftrightarrow> b \<and> n = 0"
  by (auto simp: bool_word_def bit_simps)

lemma version_masks:
  fixes v :: u32
  shows "v AND 0xFF = take_bit 8 v" and "v AND 0xFFF = take_bit 12 v"
    and "v AND 0xF = take_bit 4 v" and "v AND 0x3F = take_bit 6 v" and "v AND 1 = take_bit 1 v"
    and "v AND 0x7FFFFFFF = take_bit 31 v"
  by (simp_all add: take_bit_eq_mask mask_eq_exp_minus_1)

lemma bit_as_and_one: "(drop_bit n v AND 1 = (1 :: 'a::len word)) \<longleftrightarrow> bit v n"
  by (simp add: bit_iff_and_drop_bit_eq_1 and.commute)

definition version_wf :: "version \<Rightarrow> bool" where
  "version_wf v \<longleftrightarrow> ver_revision v = take_bit 8 (ver_revision v)
     \<and> ver_header_type v = take_bit 4 (ver_header_type v)
     \<and> ver_product_id v = take_bit 12 (ver_product_id v)
     \<and> ver_record_type v = take_bit 6 (ver_record_type v)"

lemma version_of_u32_wf: "version_wf (version_of_u32 v)"
  by (auto simp: version_wf_def version_of_u32_def version_masks bit_simps
      intro!: bit_word_eqI dest: bit_imp_le_length)

lemma version_as_of_u32: "version_as_u32 (version_of_u32 v) = v"
proof (rule bit_word_eqI)
  fix n assume "n < LENGTH(32)"
  then have n: "n < 32" by simp
  consider "n < 8" | "8 \<le> n \<and> n < 12" | "12 \<le> n \<and> n < 24" | "24 \<le> n \<and> n < 30" | "n = 30" | "n = 31"
    using n by linarith
  then show "bit (version_as_u32 (version_of_u32 v)) n = bit v n"
    by cases (auto simp: version_as_u32_def version_of_u32_def version_masks(1-4) bit_as_and_one
        bit_bool_word bit_simps)
qed

lemma version_wf_bits:
  assumes "version_wf v"
  shows "8 \<le> n \<Longrightarrow> \<not> bit (ver_revision v) n" and "4 \<le> n \<Longrightarrow> \<not> bit (ver_header_type v) n"
    and "12 \<le> n \<Longrightarrow> \<not> bit (ver_product_id v) n" and "6 \<le> n \<Longrightarrow> \<not> bit (ver_record_type v) n"
  using assms unfolding version_wf_def by (metis bit_take_bit_iff not_le)+

lemma version_of_as_u32:
  assumes "version_wf v"
  shows "version_of_u32 (version_as_u32 v) = v"
proof -
  note b = version_wf_bits [OF assms]
  let ?w = "version_as_u32 v"
  note w = version_as_u32_def bit_bool_word bit_or_iff bit_push_bit_iff possible_bit_word bit_ucast_iff b
  have revision: "bit ?w n \<longleftrightarrow> bit (ver_revision v) n" if "n < 8" for n
    using that by (simp add: w)
  have header_type: "bit ?w (8 + n) \<longleftrightarrow> bit (ver_header_type v) n" if "n < 4" for n
    using that by (simp add: w)
  have product_id: "bit ?w (12 + n) \<longleftrightarrow> bit (ver_product_id v) n" if "n < 12" for n
    using that by (simp add: w)
  have record_type: "bit ?w (24 + n) \<longleftrightarrow> bit (ver_record_type v) n" if "n < 6" for n
    using that by (simp add: w)
  have field: "bit (take_bit m (drop_bit k ?w)) n \<longleftrightarrow> n < m \<and> bit ?w (k + n)" for m k n
    by (simp add: bit_take_bit_iff bit_drop_bit_eq)
  have "?w AND 0xFF = ver_revision v"
    by (rule bit_word_eqI) (metis b(1) bit_take_bit_iff revision not_le version_masks(1))
  moreover have "ucast (drop_bit 8 ?w AND 0xF) = ver_header_type v"
    by (rule bit_word_eqI) (metis b(2) bit_ucast_iff field header_type not_le version_masks(3))
  moreover have "drop_bit 12 ?w AND 0xFFF = ver_product_id v"
    by (rule bit_word_eqI) (metis b(3) field product_id not_le version_masks(2))
  moreover have "ucast (drop_bit 24 ?w AND 0x3F) = ver_record_type v"
    by (rule bit_word_eqI) (metis b(4) bit_ucast_iff field record_type not_le version_masks(4))
  moreover have "bit ?w 31 = ver_consumed v" and "bit ?w 30 = ver_cldic v"
    by (simp_all add: w)
  ultimately show ?thesis
    by (simp add: version_of_u32_def bit_as_and_one)
qed

subsection \<open>Parsing\<close>

text \<open>The number of bytes a header of this version needs. The length of a header of type 6 depends
  on the size field that is read from bytes 26 and 27.\<close>
definition header_required :: "version \<Rightarrow> bytes \<Rightarrow> nat" where
  "header_required v s =
     (if err_type0_legacy_server (errata_from_version v) then 32
      else if ver_header_type v = 2 then 24
      else if ver_header_type v = 3 then 28
      else if ver_header_type v = 4 \<or> ver_header_type v = 5 then 32
      else if ver_header_type v = 6 then
        (case read_u16 s 26 28 of None \<Rightarrow> 28 | Some w \<Rightarrow> 28 + unat (w AND 0x7F) * 4)
      else 8)"

lemma legacy_type0: "err_type0_legacy_server (errata_from_version v) \<Longrightarrow> ver_header_type v = 0"
  by (simp add: errata_from_version_def Let_def)

lemma version_from_slice_length: "version_from_slice s = Some v \<Longrightarrow> 4 \<le> length s"
  by (auto simp: version_from_slice_def dest: read_le_bound split: bind_splits)

lemma version_from_slice_None_iff:
  "version_from_slice s = None \<longleftrightarrow> length s < 4
     \<or> from_le_bytes (take 4 s) = (0 :: u32) \<or> from_le_bytes (take 4 s) = (0xdeadbeef :: u32)"
  by (auto simp: version_from_slice_def read_le_eq)

lemma slice_get_sub:
  "slice_get s a b = Some r \<Longrightarrow> read_le n r i j = (if j \<le> b - a then read_le n s (a + i) (a + j) else None)"
  by (auto simp: read_le_def slice_get_def take_drop min_def add.commute split: if_splits)

lemma type6_status_None_iff:
  "those (map (\<lambda>i. read_u32 s (28 + i * 4) (32 + i * 4)) [0..<n]) = None
     \<longleftrightarrow> length s < 28 + n * 4 \<and> 0 < n"
proof -
  have "None \<in> set (map (\<lambda>i. read_u32 s (28 + i * 4) (32 + i * 4)) [0..<n])
      \<longleftrightarrow> (\<exists>i < n. length s < 28 + i * 4 + 4)"
    by (auto simp: read_le_eq image_iff Bex_def)
  also have "\<dots> \<longleftrightarrow> length s < 28 + n * 4 \<and> 0 < n"
  proof (safe, goal_cases)
    case 3
    then show ?case by (intro exI [of _ "n - 1"]) auto
  qed auto
  finally show ?thesis by (simp only: those_None_iff)
qed

lemma type6_from_slice_eq:
  "type6_from_slice s = (if length s < 28 then None
     else let n = unat (from_le_bytes (take 2 (drop 26 s)) AND 0x7F :: u16) in
       if length s < 28 + n * 4 then None
       else Some (Type6 (from_le_bytes (take 8 (drop 8 s))) (from_le_bytes (take 4 (drop 16 s)))
         (from_le_bytes (take 4 (drop 20 s))) (s ! 24) (s ! 25)
         (from_le_bytes (take 2 (drop 26 s)) AND 0x7F)
         (map (\<lambda>i. from_le_bytes (take 4 (drop (28 + i * 4) s))) [0..<n]) (s ! 27 AND 0x80 \<noteq> 0)))"
proof (cases "length s < 28")
  case True
  then show ?thesis by (auto simp: type6_from_slice_def slice_get_def split: bind_splits)
next
  case False
  let ?n = "unat (from_le_bytes (take 2 (drop 26 s)) AND 0x7F :: u16)"
  let ?cs = "those (map (\<lambda>i. read_u32 s (28 + i * 4) (32 + i * 4)) [0..<?n])"
  from False have get: "slice_get s 24 28 = Some (take 4 (drop 24 s))"
    by (simp add: slice_get_def)
  from False have sz: "read_u16 (take 4 (drop 24 s)) 2 4 = Some (from_le_bytes (take 2 (drop 26 s)))"
    by (simp add: read_le_eq take_drop)
  from False have fixed: "read_u64 s 8 16 = Some (from_le_bytes (take 8 (drop 8 s)))"
    "read_u32 s 16 20 = Some (from_le_bytes (take 4 (drop 16 s)))"
    "read_u32 s 20 24 = Some (from_le_bytes (take 4 (drop 20 s)))"
    by (simp_all add: read_le_eq)
  have cs: "?cs = (if length s < 28 + ?n * 4 then None
      else Some (map (\<lambda>i. from_le_bytes (take 4 (drop (28 + i * 4) s))) [0..<?n]))"
  proof (cases "length s < 28 + ?n * 4")
    case True
    with False have "?cs = None" by (simp only: type6_status_None_iff) auto
    with True show ?thesis by simp
  next
    case False
    then have "map (\<lambda>i. read_u32 s (28 + i * 4) (32 + i * 4)) [0..<?n]
        = map Some (map (\<lambda>i. from_le_bytes (take 4 (drop (28 + i * 4) s))) [0..<?n])"
      by (auto simp: read_le_eq)
    with False show ?thesis by (simp only: those_Some_iff if_False)
  qed
  from False have nth: "take 4 (drop 24 s) ! 0 = s ! 24" "take 4 (drop 24 s) ! 1 = s ! 25"
    "take 4 (drop 24 s) ! 3 = s ! 27" by simp_all
  show ?thesis
    using False by (simp add: type6_from_slice_def get sz nth Let_def fixed cs)
qed

lemma header_type_from_slice_Inl:
  "header_type_from_slice t s = Inl e \<Longrightarrow> e = InvalidHeader \<or> (e = InvalidHeaderType t \<and> t \<notin> {0, 1, 2, 3, 4, 5, 6})"
  by (auto simp: header_type_from_slice_def split: if_splits)

lemma type2_None_iff: "type2_from_slice s = None \<longleftrightarrow> length s < 24"
  by (auto simp: type2_from_slice_def read_le_eq)

lemma type3_None_iff: "type3_from_slice s = None \<longleftrightarrow> length s < 28"
  by (auto simp: type3_from_slice_def read_le_eq)

lemma type4_None_iff: "type4_from_slice s = None \<longleftrightarrow> length s < 32"
  by (auto simp: type4_from_slice_def read_le_eq)

lemma type5_None_iff: "type5_from_slice s = None \<longleftrightarrow> length s < 32"
  by (auto simp: type5_from_slice_def read_le_eq)

lemma type6_None_iff:
  "type6_from_slice s = None \<longleftrightarrow>
     length s < 28 \<or> length s < 28 + unat (from_le_bytes (take 2 (drop 26 s)) AND 0x7F :: u16) * 4"
  by (simp add: type6_from_slice_eq Let_def)

lemma type0_legacy_None_iff: "type0_legacy_server_from_slice s = None \<longleftrightarrow> length s < 32"
  by (auto simp: type0_legacy_server_from_slice_def read_le_eq slice_at_def Let_def)

lemma record_size_None_iff: "record_size_from_slice s = None \<longleftrightarrow> length s < 8"
  by (auto simp: record_size_from_slice_def read_le_eq)

lemma record_size_legacy_None_iff: "record_size_from_slice_type0_legacy_server s = None \<longleftrightarrow> length s < 18"
  by (auto simp: record_size_from_slice_type0_legacy_server_def read_le_eq)

lemmas parser_None_iffs = type2_None_iff type3_None_iff type4_None_iff type5_None_iff
  type6_None_iff type0_legacy_None_iff record_size_None_iff record_size_legacy_None_iff

text \<open>Every type's parser returns a header of that type, so that \<open>header_size\<close> is the length the
  parser has read.\<close>

lemma header_size_types:
  "type2_from_slice s = Some (hdr_header_type h) \<Longrightarrow> header_size h = 24"
  "type3_from_slice s = Some (hdr_header_type h) \<Longrightarrow> header_size h = 28"
  "type4_from_slice s = Some (hdr_header_type h) \<Longrightarrow> header_size h = 32"
  "type5_from_slice s = Some (hdr_header_type h) \<Longrightarrow> header_size h = 32"
  "type6_from_slice s = Some (hdr_header_type h) \<Longrightarrow>
     header_size h = 28 + unat (from_le_bytes (take 2 (drop 26 s)) AND 0x7F :: u16) * 4"
  "type0_legacy_server_from_slice s = Some (hdr_header_type h) \<Longrightarrow> header_size h = 32"
  by ((cases "hdr_header_type h"; auto simp: type2_from_slice_def type3_from_slice_def
      type4_from_slice_def type5_from_slice_def type6_from_slice_eq
      type0_legacy_server_from_slice_def header_size_def Let_def split: bind_splits if_splits)+)

lemma header_type_range:
  fixes t :: u16
  shows "6 < t \<longleftrightarrow> t \<notin> {0, 1, 2, 3, 4, 5, 6}"
proof (cases "6 < t")
  case True
  then show ?thesis by auto
next
  case False
  then have "unat t \<le> 6" by (simp add: word_le_nat_alt linorder_not_less)
  then have "unat t = 0 \<or> unat t = 1 \<or> unat t = 2 \<or> unat t = 3 \<or> unat t = 4 \<or> unat t = 5 \<or> unat t = 6"
    by linarith
  then have "t \<in> {0, 1, 2, 3, 4, 5, 6}" by (auto simp: word_unat_eq_iff)
  with False show ?thesis by blast
qed

lemma parser_outcome:
  assumes "x = None \<longleftrightarrow> n < k" and "\<And>h. x = Some (hdr_header_type h) \<Longrightarrow> header_size h = k"
  shows "case ok_or InvalidHeader x of
     Inl e \<Rightarrow> e = InvalidHeader \<and> n < k
   | Inr ht \<Rightarrow> k \<le> n \<and> (\<forall>h. hdr_header_type h = ht \<longrightarrow> header_size h = k)"
  using assms by (cases x) auto

lemma header_type_from_slice_outcome:
  assumes "8 \<le> length s" and "\<not> err_type0_legacy_server (errata_from_version v)"
  shows "case header_type_from_slice (ver_header_type v) s of
     Inl e \<Rightarrow> (e = InvalidHeader \<and> length s < header_required v s)
       \<or> (e = InvalidHeaderType (ver_header_type v) \<and> 6 < ver_header_type v)
   | Inr ht \<Rightarrow> \<not> 6 < ver_header_type v \<and> header_required v s \<le> length s
       \<and> (\<forall>h. hdr_header_type h = ht \<longrightarrow> header_size h = header_required v s)"
    (is "case ?r of Inl e \<Rightarrow> ?E e | Inr ht \<Rightarrow> _ \<and> ?k \<le> _ \<and> ?S ht")
proof (cases "6 < ver_header_type v")
  case True
  moreover from True have "ver_header_type v \<notin> {0, 1, 2, 3, 4, 5, 6}"
    using header_type_range by blast
  ultimately show ?thesis using True by (simp add: header_type_from_slice_def)
next
  case False
  have "case ?r of Inl e \<Rightarrow> e = InvalidHeader \<and> length s < ?k | Inr ht \<Rightarrow> ?k \<le> length s \<and> ?S ht"
  proof -
    from False consider "ver_header_type v = 0 \<or> ver_header_type v = 1" | "ver_header_type v = 2"
      | "ver_header_type v = 3" | "ver_header_type v = 4" | "ver_header_type v = 5"
      | "ver_header_type v = 6"
      unfolding header_type_range by blast
    then show ?thesis
    proof cases
      case 1
      with assms show ?thesis
        by (auto simp: header_type_from_slice_def header_required_def header_size_def)
    next
      case 2
      with assms have k: "?k = 24" by (simp add: header_required_def)
      from 2 parser_outcome [OF type2_None_iff [of s] header_size_types(1) [of s]] show ?thesis
        unfolding k by (simp add: header_type_from_slice_def)
    next
      case 3
      with assms have k: "?k = 28" by (simp add: header_required_def)
      from 3 parser_outcome [OF type3_None_iff [of s] header_size_types(2) [of s]] show ?thesis
        unfolding k by (simp add: header_type_from_slice_def)
    next
      case 4
      with assms have k: "?k = 32" by (simp add: header_required_def)
      from 4 parser_outcome [OF type4_None_iff [of s] header_size_types(3) [of s]] show ?thesis
        unfolding k by (simp add: header_type_from_slice_def)
    next
      case 5
      with assms have k: "?k = 32" by (simp add: header_required_def)
      from 5 parser_outcome [OF type5_None_iff [of s] header_size_types(4) [of s]] show ?thesis
        unfolding k by (simp add: header_type_from_slice_def)
    next
      case 6
      have k: "?k = (if 28 \<le> length s then 28 + unat (from_le_bytes (take 2 (drop 26 s)) AND 0x7F :: u16) * 4
          else 28)"
        using 6 assms by (simp add: header_required_def read_le_eq)
      have none: "type6_from_slice s = None \<longleftrightarrow> length s < ?k"
        unfolding k type6_None_iff by auto
      have "header_size h = ?k" if "type6_from_slice s = Some (hdr_header_type h)" for h
        using header_size_types(5) [OF that] none that unfolding k by (auto split: if_splits)
      with parser_outcome [OF none] 6 assms(2) show ?thesis
        by (simp add: header_type_from_slice_def)
    qed
  qed
  with False show ?thesis by (simp split: sum.splits)
qed

text \<open>What \<open>Header::from_slice\<close> returns, in full.\<close>

lemma header_from_slice_cases:
  "case header_from_slice s of
     Inr None \<Rightarrow> version_from_slice s = None
   | Inr (Some h) \<Rightarrow> version_from_slice s = Some (hdr_version h)
       \<and> \<not> 6 < ver_header_type (hdr_version h)
       \<and> header_size h = header_required (hdr_version h) s \<and> header_size h \<le> length s
   | Inl e \<Rightarrow> \<exists>v. version_from_slice s = Some v
       \<and> ((e = InvalidHeader \<and> length s < header_required v s)
          \<or> (e = InvalidHeaderType (ver_header_type v) \<and> 6 < ver_header_type v \<and> 8 \<le> length s))"
proof (cases "version_from_slice s")
  case None
  then show ?thesis by (simp add: header_from_slice_def)
next
  case (Some v)
  show ?thesis
  proof (cases "err_type0_legacy_server (errata_from_version v)")
    case True
    have k: "header_required v s = 32" using True by (simp add: header_required_def)
    have t0: "ver_header_type v = 0" using True by (rule legacy_type0)
    show ?thesis
    proof (cases "record_size_from_slice_type0_legacy_server s")
      case None
      with Some True k show ?thesis
        using record_size_legacy_None_iff [of s] by (simp add: header_from_slice_def Let_def)
    next
      case (Some sz)
      with \<open>version_from_slice s = Some v\<close> True k t0 show ?thesis
        using type0_legacy_None_iff [of s]
          header_size_types(6) [of s "\<lparr>hdr_version = v, hdr_size = sz, hdr_header_type = ht\<rparr>" for ht]
        by (cases "type0_legacy_server_from_slice s")
          (simp_all add: header_from_slice_def header_type_from_slice_type0_legacy_server_def Let_def)
    qed
  next
    case False
    show ?thesis
    proof (cases "length s < 8")
      case True
      then have "record_size_from_slice s = None" by (simp add: record_size_None_iff)
      moreover have "length s < header_required v s"
        using True by (auto simp: header_required_def split: option.split)
      ultimately show ?thesis using Some False by (simp add: header_from_slice_def Let_def)
    next
      case long: False
      then obtain sz where sz: "record_size_from_slice s = Some sz"
        using record_size_None_iff [of s] by (cases "record_size_from_slice s") auto
      show ?thesis
        using header_type_from_slice_outcome [of s v] long Some False sz
        by (auto simp: header_from_slice_def Let_def rbind_def split: sum.splits)
    qed
  qed
qed

text \<open>A header does not depend on what follows its own bytes.\<close>

lemma parsers_take:
  assumes "k \<le> length s"
  shows "4 \<le> k \<Longrightarrow> version_from_slice (take k s @ r) = version_from_slice s"
    and "8 \<le> k \<Longrightarrow> record_size_from_slice (take k s @ r) = record_size_from_slice s"
    and "18 \<le> k \<Longrightarrow> record_size_from_slice_type0_legacy_server (take k s @ r)
      = record_size_from_slice_type0_legacy_server s"
    and "24 \<le> k \<Longrightarrow> type2_from_slice (take k s @ r) = type2_from_slice s"
    and "28 \<le> k \<Longrightarrow> type3_from_slice (take k s @ r) = type3_from_slice s"
    and "32 \<le> k \<Longrightarrow> type4_from_slice (take k s @ r) = type4_from_slice s"
    and "32 \<le> k \<Longrightarrow> type5_from_slice (take k s @ r) = type5_from_slice s"
    and "32 \<le> k \<Longrightarrow> type0_legacy_server_from_slice (take k s @ r) = type0_legacy_server_from_slice s"
  using assms
  by (simp_all add: version_from_slice_def record_size_from_slice_def
      record_size_from_slice_type0_legacy_server_def type2_from_slice_def type3_from_slice_def
      type4_from_slice_def type5_from_slice_def type0_legacy_server_from_slice_def
      read_le_take slice_at_take)

lemma type6_take:
  assumes "k \<le> length s"
    and "28 + unat (from_le_bytes (take 2 (drop 26 s)) AND 0x7F :: u16) * 4 \<le> k"
  shows "type6_from_slice (take k s @ r) = type6_from_slice s"
proof -
  let ?n = "unat (from_le_bytes (take 2 (drop 26 s)) AND 0x7F :: u16)"
  define u where "u = take k s @ r"
  have part: "take m (drop d u) = take m (drop d s)" if "d + m \<le> k" for m d
    using that assms(1) by (simp add: u_def drop_take)
  have "map (\<lambda>i. from_le_bytes (take 4 (drop (28 + i * 4) u)) :: u32) [0..<?n]
      = map (\<lambda>i. from_le_bytes (take 4 (drop (28 + i * 4) s))) [0..<?n]"
    using assms(2) by (intro map_cong refl) (subst part, auto)
  moreover have "u ! i = s ! i" if "i < 28" for i
    using that assms by (simp add: u_def nth_append)
  moreover have "k \<le> length u" using assms(1) by (simp add: u_def)
  ultimately have "type6_from_slice u = type6_from_slice s"
    using assms by (simp add: type6_from_slice_eq part Let_def)
  then show ?thesis by (simp add: u_def)
qed

lemma header_required_take:
  assumes "k \<le> length s" and "header_required v s \<le> k"
  shows "header_required v (take k s @ r) = header_required v s"
  using assms by (auto simp: header_required_def read_le_take split: if_splits option.splits)

lemma header_from_slice_prefix:
  assumes h: "header_from_slice s = Inr (Some h)"
  shows "header_from_slice (take (header_size h) s @ r) = Inr (Some h)"
proof -
  let ?k = "header_size h" and ?v = "hdr_version h" and ?s = "take (header_size h) s @ r"
  from header_from_slice_cases [of s] h
  have v: "version_from_slice s = Some ?v" and range: "\<not> 6 < ver_header_type ?v"
    and req: "?k = header_required ?v s" and len: "?k \<le> length s" by simp_all
  have "8 \<le> ?k" unfolding req by (auto simp: header_required_def split: option.split)
  note take = parsers_take [OF len]
  show ?thesis
  proof (cases "err_type0_legacy_server (errata_from_version ?v)")
    case True
    then have "?k = 32" unfolding req by (simp add: header_required_def)
    with True h v take show ?thesis
      by (simp add: header_from_slice_def header_type_from_slice_type0_legacy_server_def Let_def)
  next
    case False
    have "header_type_from_slice (ver_header_type ?v) ?s = header_type_from_slice (ver_header_type ?v) s"
    proof (cases "ver_header_type ?v = 6")
      case True
      with False len have "28 + unat (from_le_bytes (take 2 (drop 26 s)) AND 0x7F :: u16) * 4 \<le> ?k"
        unfolding req by (auto simp: header_required_def read_le_eq)
      with True show ?thesis by (simp add: header_type_from_slice_def type6_take [OF len])
    next
      case not6: False
      with False req take show ?thesis
        by (auto simp: header_type_from_slice_def header_required_def)
    qed
    with False h v take \<open>8 \<le> ?k\<close> show ?thesis
      by (simp add: header_from_slice_def Let_def)
  qed
qed

subsection \<open>Reading the register tree back\<close>

lemma node_get_adds:
  "node_get (node_adds n cs) x = (case find (\<lambda>c. node_name c = x) (rev cs) of
     Some c \<Rightarrow> Some c | None \<Rightarrow> node_get n x)"
  by (induction cs rule: rev_induct) (auto simp: node_adds_def)

lemma node_adds_simps [simp]:
  "node_name (node_adds n cs) = node_name n" "node_kind (node_adds n cs) = node_kind n"
  by (induction cs arbitrary: n) (simp_all add: node_adds_def)

lemma node_wf_adds: "node_wf n \<Longrightarrow> \<forall>c \<in> set cs. node_wf c \<Longrightarrow> node_wf (node_adds n cs)"
  by (induction cs arbitrary: n) (auto simp: node_adds_def node_wf_add)

lemma node_new_sel [simp]:
  "node_name (node_field s v) = to_lowercase s" "node_kind (node_field s v) = NodeField v"
  "node_name (node_section s) = to_lowercase s" "node_kind (node_section s) = NodeSection"
  "node_name (node_record s) = to_lowercase s" "node_kind (node_record s) = NodeRecord"
  "node_get (node_field s v) x = None" "node_get (node_record s) x = None"
  by (simp_all add: node_field_def node_section_def node_record_def node_get_def)

lemma node_get_adds_mem:
  assumes "c \<in> set cs" and "distinct (map node_name cs)"
  shows "node_get (node_adds n cs) (node_name c) = Some c"
proof -
  have uniq: "d = c" if "d \<in> set cs" "node_name d = node_name c" for d
    using assms that by (auto simp: distinct_map dest: inj_onD)
  obtain d where d: "find (\<lambda>d. node_name d = node_name c) (rev cs) = Some d"
    using assms(1) by (cases "find (\<lambda>d. node_name d = node_name c) (rev cs)") (auto simp: find_None_iff)
  then obtain i where "i < length (rev cs)" "node_name (rev cs ! i) = node_name c" "d = rev cs ! i"
    unfolding find_Some_iff by blast
  then have "d \<in> set cs" "node_name d = node_name c"
    by (metis nth_mem set_rev, simp)
  then have "d = c" by (rule uniq)
  with d show ?thesis by (simp add: node_get_adds)
qed

lemma status_names_distinct:
  "distinct (map (\<lambda>(i, x). ''completion_status'' @ show_dec i) (enumerate k cs))"
proof -
  have "inj_on (\<lambda>p. ''completion_status'' @ show_dec (fst p)) (set (enumerate k cs))"
  proof (rule inj_onI)
    fix p q assume pq: "p \<in> set (enumerate k cs)" "q \<in> set (enumerate k cs)"
      and "''completion_status'' @ show_dec (fst p) = ''completion_status'' @ show_dec (fst q)"
    then have "fst p = fst q" by (auto dest: show_dec_inj)
    with pq show "p = q" by (auto simp: in_set_enumerate_eq prod_eq_iff)
  qed
  then show ?thesis by (simp add: distinct_map case_prod_beta')
qed

lemma status_name_lower [simp]:
  "to_lowercase (''completion_status'' @ show_dec i) = ''completion_status'' @ show_dec i"
proof -
  have "to_lowercase ''completion_status'' = ''completion_status''" by code_simp
  then show ?thesis by (simp add: to_lowercase_append del: append.simps)
qed

lemma header_names_lower [simp]:
  "to_lowercase ''version'' = ''version''" "to_lowercase ''record_size'' = ''record_size''"
  "to_lowercase ''revision'' = ''revision''" "to_lowercase ''header_type'' = ''header_type''"
  "to_lowercase ''product_id'' = ''product_id''" "to_lowercase ''record_type'' = ''record_type''"
  "to_lowercase ''extended_record_size'' = ''extended_record_size''"
  "to_lowercase ''timestamp'' = ''timestamp''" "to_lowercase ''agent_version'' = ''agent_version''"
  "to_lowercase ''reason'' = ''reason''" "to_lowercase ''whoami'' = ''whoami''"
  "to_lowercase ''misc'' = ''misc''" "to_lowercase ''error_status'' = ''error_status''"
  "to_lowercase ''completion_status'' = ''completion_status''"
  "to_lowercase ''record_collection_completed'' = ''record_collection_completed''"
  "to_lowercase ''die_skt_info'' = ''die_skt_info''" "to_lowercase ''die_id'' = ''die_id''"
  "to_lowercase ''socket_id'' = ''socket_id''" "to_lowercase ''hdr'' = ''hdr''"
  "to_lowercase ''completion_status_size'' = ''completion_status_size''"
  by (simp_all add: to_lowercase_def)

lemma node_names [simp]:
  "node_name (node_from_version v) = ''version''"
  "node_name (node_from_record_size sz) = ''record_size''"
  "node_name (completion_status_node cs cc) = ''completion_status''"
  by (simp_all add: node_from_version_def node_from_record_size_def completion_status_node_def)

lemma status_fields_names:
  "map node_name (map (\<lambda>(i, x). node_field (''completion_status'' @ show_dec i) (ucast x)) (enumerate k cs))
     = map (\<lambda>(i, x). ''completion_status'' @ show_dec i) (enumerate k cs)"
  by (auto simp del: append.simps)

text \<open>No two nodes added to the tree of a header have the same name.\<close>

lemma header_nodes_distinct:
  "distinct (map node_name ([node_from_version v, node_from_record_size sz] @ header_type_nodes ht))"
proof (cases "\<exists>t a r die skt n cs cc. ht = Type6 t a r die skt n cs cc")
  case True
  then obtain t a r die skt n cs cc where ht: "ht = Type6 t a r die skt n cs cc" by blast
  have "map node_name ([node_from_version v, node_from_record_size sz] @ header_type_nodes ht)
    = [''version'', ''record_size'', ''timestamp'', ''agent_version'', ''reason'', ''die_skt_info'']
      @ map (\<lambda>(i, x). ''completion_status'' @ show_dec i) (enumerate 0 cs)"
    unfolding ht header_type_nodes_def common_fields_def map_append header_type.case status_fields_names
    by simp
  moreover have "set (map (\<lambda>(i, x). ''completion_status'' @ show_dec i) (enumerate 0 cs))
      \<inter> {''version'', ''record_size'', ''timestamp'', ''agent_version'', ''reason'', ''die_skt_info''} = {}"
    by auto
  moreover have "distinct [''version'', ''record_size'', ''timestamp'', ''agent_version'', ''reason'', ''die_skt_info'']"
    by simp
  ultimately show ?thesis
    using status_names_distinct [of 0 cs] by (simp only: distinct_append) auto
next
  case False
  then show ?thesis
    by (cases ht) (auto simp: header_type_nodes_def common_fields_def)
qed

subsection \<open>Properties\<close>

text \<open>Parsing the version word is lossless: re-encoding a parsed version gives the four bytes
  that were read, and its fields are within their widths.\<close>
theorem version_print_parse:
  assumes "version_from_slice s = Some v"
  shows "to_le_bytes 4 (version_as_u32 v) = take 4 s \<and> version_wf v"
proof -
  from assms have len: "4 \<le> length s" and v: "v = version_of_u32 (from_le_bytes (take 4 s))"
    by (auto simp: version_from_slice_def read_le_eq split: if_splits)
  have "to_le_bytes (length (take 4 s)) (from_le_bytes (take 4 s) :: u32) = take 4 s"
    by (rule to_from_le_bytes) (use len in simp)
  with len v show ?thesis by (simp add: version_as_of_u32 version_of_u32_wf)
qed

theorem version_print_parse_witness:
  "to_le_bytes 4 (version_as_u32 (version_of_u32 0x3e07a108)) = take 4 [0x08, 0xa1, 0x07, 0x3e, 2, 0, 0, 0]
   \<and> version_wf (version_of_u32 0x3e07a108)"
  by (rule version_print_parse) code_simp

text \<open>A version whose fields are within their widths survives encoding and parsing, unless its
  word is one of the two termination markers.\<close>
theorem version_parse_print:
  assumes "version_wf v" and "version_as_u32 v \<noteq> 0" and "version_as_u32 v \<noteq> 0xdeadbeef"
  shows "version_from_slice (to_le_bytes 4 (version_as_u32 v) @ rest) = Some v"
  using assms by (simp add: version_from_slice_def read_le_first version_of_as_u32)

theorem version_parse_print_witness:
  "version_from_slice (to_le_bytes 4 (version_as_u32 (version_of_u32 0x3e07a108)) @ [])
     = Some (version_of_u32 0x3e07a108)"
  by (rule version_parse_print) (code_simp | simp)+

text \<open>C24. The outcome of \<open>Header::from_slice\<close>, on every input. \<open>Ok(None)\<close> is returned exactly on a
  termination marker or fewer than four bytes. A header that is returned has a known type, is as long
  as its type needs and lies within the slice. \<open>InvalidHeader\<close> means that the slice is too short for
  the type, \<open>InvalidHeaderType\<close> that the type is above 6; there is no other error.\<close>
theorem header_from_slice_outcome:
  "case header_from_slice s of
     Inr None \<Rightarrow> length s < 4 \<or> from_le_bytes (take 4 s) \<in> {0, 0xdeadbeef :: u32}
   | Inr (Some h) \<Rightarrow> version_from_slice s = Some (hdr_version h)
       \<and> \<not> 6 < ver_header_type (hdr_version h)
       \<and> header_size h = header_required (hdr_version h) s \<and> header_size h \<le> length s
   | Inl e \<Rightarrow> \<exists>v. version_from_slice s = Some v
       \<and> ((e = InvalidHeader \<and> length s < header_required v s)
          \<or> (e = InvalidHeaderType (ver_header_type v) \<and> 6 < ver_header_type v \<and> 8 \<le> length s))"
  using header_from_slice_cases [of s] version_from_slice_None_iff [of s]
  by (auto split: sum.splits option.splits)

text \<open>A header is determined by its own bytes: whatever follows the first \<open>header_size\<close> bytes of
  the slice does not change what is parsed.\<close>
theorem header_from_slice_local:
  assumes "header_from_slice s = Inr (Some h)"
  shows "header_from_slice (take (header_size h) s @ rest) = Inr (Some h)"
  using assms by (rule header_from_slice_prefix)

definition example_header_bytes :: bytes where
  "example_header_bytes = [0x08, 0xa1, 0x07, 0x3e, 2, 0, 0, 0]"

definition example_header :: header where
  "example_header = \<lparr>hdr_version = version_of_u32 0x3e07a108,
     hdr_size = \<lparr>rs_record_size = 2, rs_extended_record_size = 0\<rparr>, hdr_header_type = Type1\<rparr>"

lemma example_header_from_slice: "header_from_slice (example_header_bytes @ r) = Inr (Some example_header)"
proof -
  have "header_from_slice example_header_bytes = Inr (Some example_header)" by code_simp
  moreover have "take (header_size example_header) example_header_bytes = example_header_bytes" by code_simp
  ultimately show ?thesis using header_from_slice_prefix by metis
qed

theorem header_from_slice_local_witness:
  "header_from_slice (take (header_size example_header) [0x08, 0xa1, 0x07, 0x3e, 2, 0, 0, 0, 1, 2] @ [5])
     = Inr (Some example_header)"
  by (rule header_from_slice_local) code_simp

text \<open>The register tree of a header shows what was parsed: the version word and its four fields
  and the two sizes are found under their paths.\<close>
theorem header_tree_common:
  "node_get_path (node_from_header h) [''version''] = Some (node_from_version (hdr_version h))
   \<and> map (\<lambda>f. map_option node_kind (node_get_path (node_from_header h) [''version'', f]))
       [''revision'', ''header_type'', ''product_id'', ''record_type'']
     = map (\<lambda>v. Some (NodeField v))
         [ucast (ver_revision (hdr_version h)), ucast (ver_header_type (hdr_version h)),
          ucast (ver_product_id (hdr_version h)), ucast (ver_record_type (hdr_version h))]
   \<and> map (\<lambda>f. map_option node_kind (node_get_path (node_from_header h) [''record_size'', f]))
       [''record_size'', ''extended_record_size'']
     = map (\<lambda>v. Some (NodeField v))
         [ucast (rs_record_size (hdr_size h)), ucast (rs_extended_record_size (hdr_size h))]"
proof -
  have get: "node_get (node_from_header h) (node_name c) = Some c"
    if "c \<in> set ([node_from_version (hdr_version h), node_from_record_size (hdr_size h)]
      @ header_type_nodes (hdr_header_type h))" for c
    unfolding node_from_header_def using that header_nodes_distinct by (rule node_get_adds_mem)
  have "node_get (node_from_header h) ''version'' = Some (node_from_version (hdr_version h))"
    and "node_get (node_from_header h) ''record_size'' = Some (node_from_record_size (hdr_size h))"
    using get [of "node_from_version (hdr_version h)"] get [of "node_from_record_size (hdr_size h)"]
    by simp_all
  then show ?thesis
    by (simp add: node_from_version_def node_from_record_size_def node_get_adds)
qed

text \<open>In the tree of a header of type 6, dword \<open>i\<close> of the completion status is the field
  \<open>completion_status<i>\<close>, for every dword that was parsed; the tree has no field of that name beyond.\<close>
theorem header_tree_completion_status:
  assumes "hdr_header_type h = Type6 t a r die_id socket_id sz cs cc"
  shows "map_option node_kind (node_get (node_from_header h) (''completion_status'' @ show_dec i))
     = (if i < length cs then Some (NodeField (ucast (cs ! i))) else None)"
proof (cases "i < length cs")
  case True
  let ?c = "node_field (''completion_status'' @ show_dec i) (ucast (cs ! i))"
  have "(i, cs ! i) \<in> set (enumerate 0 cs)" using True by (auto simp: in_set_enumerate_eq)
  then have "?c \<in> set ([node_from_version (hdr_version h), node_from_record_size (hdr_size h)]
      @ header_type_nodes (hdr_header_type h))"
    unfolding assms header_type_nodes_def header_type.case by (auto simp del: append.simps intro!: rev_image_eqI)
  then have "node_get (node_from_header h) (node_name ?c) = Some ?c"
    unfolding node_from_header_def using header_nodes_distinct by (rule node_get_adds_mem)
  with True show ?thesis by (simp del: append.simps)
next
  case False
  have "node_name c \<noteq> ''completion_status'' @ show_dec i"
    if "c \<in> set ([node_from_version (hdr_version h), node_from_record_size (hdr_size h)]
      @ header_type_nodes (hdr_header_type h))" for c
  proof
    assume eq: "node_name c = ''completion_status'' @ show_dec i"
    from that consider
        "node_name c \<in> {''version'', ''record_size'', ''timestamp'', ''agent_version'', ''reason'', ''die_skt_info''}"
      | j x where "(j, x) \<in> set (enumerate 0 cs)" "node_name c = ''completion_status'' @ show_dec j"
      unfolding assms header_type_nodes_def header_type.case common_fields_def
      by (auto simp del: append.simps simp: append.simps(2) [of _ "[]"] append.simps(1))
    then show False
    proof cases
      case 1
      with eq show ?thesis by auto
    next
      case 2
      with eq have "j = i" by (auto dest: show_dec_inj)
      with 2 False show ?thesis by (auto simp: in_set_enumerate_eq)
    qed
  qed
  then have "find (\<lambda>c. node_name c = ''completion_status'' @ show_dec i)
      (rev ([node_from_version (hdr_version h), node_from_record_size (hdr_size h)]
        @ header_type_nodes (hdr_header_type h))) = None"
    unfolding find_None_iff by (metis set_rev)
  with False show ?thesis
    unfolding node_from_header_def node_get_adds by simp
qed

theorem header_tree_completion_status_witness:
  "map_option node_kind (node_get (node_from_header
       (example_header\<lparr>hdr_header_type := Type6 1 2 3 4 5 1 [7] True\<rparr>)) (''completion_status'' @ show_dec 0))
     = (if 0 < length [7 :: u32] then Some (NodeField (ucast ([7 :: u32] ! 0))) else None)"
  by (rule header_tree_completion_status) simp

end
