(* ===== verification/Region.thy ===== *)
theory Region
  imports Header
begin

text \<open>
  Records and regions: \<open>lib/src/record.rs\<close> (payload, checksum), \<open>read_field\<close> of
  \<open>lib/src/record/decode.rs\<close>, and \<open>lib/src/region.rs\<close>. \<open>Region::from_slice\<close> is a loop over a
  cursor; \<open>scan_records\<close> is the specification it is proved equal to, a recursion over the bytes
  that are left.
\<close>

subsection \<open>Records\<close>

record record_context =
  ctx_parent_header :: "header option"

definition context_default :: record_context where
  "context_default = \<lparr>ctx_parent_header = None\<rparr>"

record crash_record =
  rec_header :: header
  rec_data :: bytes
  rec_context :: record_context

definition record_payload :: "crash_record \<Rightarrow> bytes" where
  "record_payload r =
     (let start = header_size (rec_header r);
          stop = length (rec_data r) - (if ver_cldic (hdr_version (rec_header r)) then 4 else 0)
      in case slice_get (rec_data r) start stop of Some p \<Rightarrow> p | None \<Rightarrow> [])"

text \<open>\<open>s.chunks(n)\<close>: the last chunk may be shorter\<close>
function chunks :: "nat \<Rightarrow> 'a list \<Rightarrow> 'a list list" where
  "chunks n s = (if s = [] \<or> n = 0 then [] else take n s # chunks n (drop n s))"
  by pat_completeness auto
termination by (relation "measure (\<lambda>(n, s). length s)") auto

declare chunks.simps [simp del]

definition record_checksum :: "crash_record \<Rightarrow> bool option" where
  "record_checksum r =
     (if \<not> ver_cldic (hdr_version (rec_header r)) then None
      else let checksum = fold (\<lambda>dword acc. acc + dword)
             (map (\<lambda>dword_slice. case try_into 4 dword_slice of
                 Some a \<Rightarrow> (from_le_bytes a :: u32) | None \<Rightarrow> from_le_bytes [0, 0, 0, 0])
               (chunks 4 (rec_data r))) 0
        in Some (checksum = 0))"

text \<open>
  The loop of \<open>read_field\<close>. The offset is an untrusted \<open>usize\<close> and its additions wrap; the number
  of bits read is at most 64, so that \<open>bit\<close> does not.
\<close>

function read_field_loop :: "bytes \<Rightarrow> u64 \<Rightarrow> nat \<Rightarrow> nat \<Rightarrow> u64 \<Rightarrow> u64 option" where
  "read_field_loop data offset sz bt val =
     (if bt < sz then
        let chunk = unat (offset + of_nat bt) div 8 in
        if length data \<le> chunk then None
        else let bit_offset = unat (offset + of_nat bt) mod 8;
                 mask = push_bit (min (sz - bt) 8) 1 - 1;
                 val' = val OR push_bit bt (drop_bit bit_offset (ucast (data ! chunk)) AND mask)
             in read_field_loop data offset sz (bt + (8 - bit_offset)) val'
      else Some val)"
  by pat_completeness auto
termination
proof (relation "measure (\<lambda>(data, offset, sz, bt, val). sz - bt)", goal_cases)
  case 1
  show ?case by simp
next
  case (2 data offset sz bt val chunk bit_offset mask val')
  have "bit_offset < 8" unfolding 2(4) by simp
  with 2 show ?case by simp
qed

declare read_field_loop.simps [simp del]

definition read_field :: "crash_record \<Rightarrow> u64 \<Rightarrow> u64 \<Rightarrow> u64 option" where
  "read_field r offset sz = (if sz > 64 then None
     else read_field_loop (rec_data r) offset (unat sz) 0 0)"

subsection \<open>Regions\<close>

record region =
  reg_records :: "crash_record list"

definition set_child_context :: "region \<Rightarrow> header \<Rightarrow> region" where
  "set_child_context region h = region\<lparr>reg_records :=
     map (\<lambda>r. r\<lparr>rec_context := (rec_context r)\<lparr>ctx_parent_header := Some h\<rparr>\<rparr>) (reg_records region)\<rparr>"

text \<open>The \<open>while\<close> loop of \<open>Region::from_slice\<close>; \<open>break\<close> returns the records gathered so far.\<close>

function region_loop :: "bytes \<Rightarrow> nat \<Rightarrow> crash_record list \<Rightarrow> error + crash_record list" where
  "region_loop bytes cursor records =
     (if cursor < length bytes then
        case header_from_slice (drop cursor bytes) of
          Inl err \<Rightarrow> if records = [] then Inl err else Inr records
        | Inr None \<Rightarrow> Inr records
        | Inr (Some header) \<Rightarrow>
            let record_size = header_record_size header in
            if record_size = 0 then Inr records
            else let limit = cursor + record_size in
              region_loop bytes limit (records @
                [\<lparr>rec_header = header,
                  rec_data = take (min limit (length bytes) - cursor) (drop cursor bytes),
                  rec_context = context_default\<rparr>])
      else Inr records)"
  by pat_completeness auto
termination by (relation "measure (\<lambda>(bytes, cursor, records). length bytes - cursor)") auto

declare region_loop.simps [simp del]

definition region_from_slice :: "bytes \<Rightarrow> error + region" where
  "region_from_slice bytes = rbind (region_loop bytes 0 []) (\<lambda>records.
     if records = [] then Inl EmptyRegion else Inr \<lparr>reg_records = records\<rparr>)"

definition region_to_bytes :: "region \<Rightarrow> bytes" where
  "region_to_bytes region = fold (\<lambda>r bytes. bytes @ rec_data r) (reg_records region) []"

lemma region_to_bytes_eq: "region_to_bytes region = concat (map rec_data (reg_records region))"
proof -
  have "fold (\<lambda>r bytes. bytes @ rec_data r) rs b = b @ concat (map rec_data rs)" for rs :: "crash_record list" and b
    by (induction rs arbitrary: b) simp_all
  then show ?thesis by (simp add: region_to_bytes_def)
qed

subsection \<open>Reading fields\<close>

text \<open>The position of bit \<open>i\<close> of a field, with the wrap-around of the source\<close>
definition field_pos :: "u64 \<Rightarrow> nat \<Rightarrow> nat" where
  "field_pos offset i = unat (offset + of_nat i)"

text \<open>Whether bit \<open>i\<close> of a field is set in the data\<close>
definition field_bit :: "bytes \<Rightarrow> u64 \<Rightarrow> nat \<Rightarrow> bool" where
  "field_bit data offset i \<longleftrightarrow> bit (data ! (field_pos offset i div 8)) (field_pos offset i mod 8)"

lemma field_pos_in_chunk:
  assumes "j < 8 - field_pos offset i mod 8"
  shows "field_pos offset (i + j) = field_pos offset i + j"
proof -
  let ?p = "field_pos offset i"
  have "?p < 2 ^ 64" using unsigned_less [of "offset + of_nat i" , where 'a = nat] by (simp add: field_pos_def)
  then have "?p div 8 < 2 ^ 61" by (simp add: div_less_iff_less_mult)
  moreover have "?p = 8 * (?p div 8) + ?p mod 8" by simp
  ultimately have "?p + j < 8 * 2 ^ 61" using assms by linarith
  then have "?p + j < 2 ^ 64" by simp
  moreover have "unat (offset + of_nat (i + j)) = unat (offset + of_nat i + of_nat j)"
    by (simp add: add.assoc)
  ultimately show ?thesis
    unfolding field_pos_def by (simp add: unat_word_ariths unat_of_nat take_bit_eq_mod mod_add_right_eq)
qed

lemma read_field_loop_spec:
  assumes "sz \<le> 64"
    and "\<forall>i. bit val i \<longleftrightarrow> i < min bt sz \<and> field_bit data offset i"
    and "\<forall>i < min bt sz. field_pos offset i div 8 < length data"
  shows "case read_field_loop data offset sz bt val of
     None \<Rightarrow> \<exists>i < sz. length data \<le> field_pos offset i div 8
   | Some v \<Rightarrow> (\<forall>i < sz. field_pos offset i div 8 < length data)
       \<and> (\<forall>i. bit v i \<longleftrightarrow> i < sz \<and> field_bit data offset i)"
  using assms
proof (induction data offset sz bt val rule: read_field_loop.induct)
  case (1 data offset sz bt val)
  let ?p = "field_pos offset bt"
  show ?case
  proof (cases "bt < sz")
    case False
    with "1.prems" show ?thesis by (simp add: read_field_loop.simps min_absorb2)
  next
    case lt: True
    show ?thesis
    proof (cases "length data \<le> ?p div 8")
      case True
      with lt show ?thesis by (auto simp: read_field_loop.simps field_pos_def Let_def)
    next
      case False
      let ?m = "push_bit (min (sz - bt) 8) 1 - 1 :: u64"
      let ?v = "val OR push_bit bt (drop_bit (?p mod 8) (ucast (data ! (?p div 8))) AND ?m)"
      let ?bt = "bt + (8 - ?p mod 8)"
      have mask: "bit ?m i \<longleftrightarrow> i < min (sz - bt) 8" for i
      proof -
        have "?m = mask (min (sz - bt) 8)" by (simp add: mask_eq_exp_minus_1 push_bit_eq_mult)
        then show ?thesis by (auto simp: bit_mask_iff)
      qed
      have pos: "field_pos offset i = ?p + (i - bt)" if "bt \<le> i" "i < ?bt" for i
        using field_pos_in_chunk [of "i - bt" offset bt] that by simp
      have here: "field_pos offset i div 8 = ?p div 8 \<and> field_pos offset i mod 8 = ?p mod 8 + (i - bt)"
        if "bt \<le> i" "i < ?bt" for i
      proof -
        have split: "a = 8 * q + r \<Longrightarrow> r < 8 \<Longrightarrow> a div 8 = q \<and> a mod 8 = r" for a q r :: nat by simp
        show ?thesis
        proof (rule split)
          show "field_pos offset i = 8 * (?p div 8) + (?p mod 8 + (i - bt))"
            unfolding pos [OF that] add.assoc [symmetric] mult_div_mod_eq ..
          have "b \<le> c \<Longrightarrow> c < b + (8 - r) \<Longrightarrow> r + (c - b) < 8" for r b c :: nat by linarith
          with that show "?p mod 8 + (i - bt) < 8" by blast
        qed
      qed
      have bits: "bit ?v i \<longleftrightarrow> i < min ?bt sz \<and> field_bit data offset i" for i
      proof (cases "i < bt")
        case True
        then have "\<not> bit (push_bit bt x) i" for x :: u64 by (simp add: bit_push_bit_iff)
        moreover have "i < min bt sz" and "i < min ?bt sz" using True lt by simp_all
        ultimately show ?thesis using "1.prems"(2) unfolding bit_or_iff by blast
      next
        case i: False
        have byte: "bit (ucast (data ! (?p div 8)) :: u64) k \<longleftrightarrow> k < 8 \<and> bit (data ! (?p div 8)) k" for k
          by (auto simp: bit_ucast_iff dest: bit_imp_le_length)
        have "\<not> bit val i" using "1.prems"(2) i by simp
        then have "bit ?v i \<longleftrightarrow> i < 64 \<and> ?p mod 8 + (i - bt) < 8
            \<and> bit (data ! (?p div 8)) (?p mod 8 + (i - bt)) \<and> i - bt < min (sz - bt) 8"
          using i unfolding bit_or_iff bit_push_bit_iff bit_and_iff bit_drop_bit_eq comp_def mask byte
          by auto
        also have "\<dots> \<longleftrightarrow> i < min ?bt sz \<and> field_bit data offset i"
        proof (cases "i < ?bt")
          case True
          have "bt \<le> i" using i by simp
          note h = here [OF this True]
          have "field_bit data offset i \<longleftrightarrow> bit (data ! (?p div 8)) (?p mod 8 + (i - bt))"
            unfolding field_bit_def conjunct1 [OF h] conjunct2 [OF h] ..
          moreover have r: "?p mod 8 + (i - bt) < 8"
            using mod_less_divisor [of 8 "field_pos offset i"] unfolding conjunct2 [OF h] by simp
          moreover have "i - bt < 8" using le_less_trans [OF le_add2 r] .
          moreover have "i - bt < sz - bt \<longleftrightarrow> i < sz" using \<open>bt \<le> i\<close> lt by linarith
          moreover have "i < sz \<Longrightarrow> i < 64" using "1.prems"(1) by simp
          ultimately show ?thesis using True unfolding min_less_iff_conj by blast
        next
          case False
          then show ?thesis by auto
        qed
        finally show ?thesis .
      qed
      then have B: "\<forall>i. bit ?v i \<longleftrightarrow> i < min ?bt sz \<and> field_bit data offset i" by blast
      have R: "\<forall>i < min ?bt sz. field_pos offset i div 8 < length data"
        using "1.prems"(3) here False by (metis min_less_iff_conj not_le)
      have "case read_field_loop data offset sz ?bt ?v of
            None \<Rightarrow> \<exists>i < sz. length data \<le> field_pos offset i div 8
          | Some v \<Rightarrow> (\<forall>i < sz. field_pos offset i div 8 < length data)
              \<and> (\<forall>i. bit v i \<longleftrightarrow> i < sz \<and> field_bit data offset i)"
        by (rule "1.IH" [OF lt refl _ refl refl refl, folded field_pos_def, OF False "1.prems"(1) B R])
      moreover have "read_field_loop data offset sz bt val = read_field_loop data offset sz ?bt ?v"
        using lt False by (subst read_field_loop.simps) (simp add: field_pos_def Let_def)
      ultimately show ?thesis by simp
    qed
  qed
qed

subsection \<open>The records of a region\<close>

text \<open>The specification of the loop: the records in front of the first header that is missing, is
  not valid or has an empty size, and the error of that header, if it has one.\<close>

function scan_records :: "bytes \<Rightarrow> crash_record list \<times> error option" where
  "scan_records bs =
     (if bs = [] then ([], None)
      else case header_from_slice bs of
        Inl err \<Rightarrow> ([], Some err)
      | Inr None \<Rightarrow> ([], None)
      | Inr (Some header) \<Rightarrow>
          if header_record_size header = 0 then ([], None)
          else let (rs, e) = scan_records (drop (header_record_size header) bs) in
            (\<lparr>rec_header = header, rec_data = take (header_record_size header) bs,
              rec_context = context_default\<rparr> # rs, e))"
  by pat_completeness auto
termination by (relation "measure length") auto

declare scan_records.simps [simp del]

lemma region_loop_scan:
  "region_loop bytes cursor records = (case scan_records (drop cursor bytes) of (rs, e) \<Rightarrow>
     if records @ rs = [] then (case e of Some err \<Rightarrow> Inl err | None \<Rightarrow> Inr []) else Inr (records @ rs))"
proof (induction bytes cursor records rule: region_loop.induct)
  case (1 bytes cursor records)
  show ?case
  proof (cases "cursor < length bytes")
    case False
    then show ?thesis by (auto simp: region_loop.simps [of bytes] scan_records.simps)
  next
    case lt: True
    show ?thesis
    proof (cases "header_from_slice (drop cursor bytes)")
      case (Inl err)
      with lt show ?thesis
        by (auto simp: region_loop.simps [of bytes] scan_records.simps [of "drop cursor bytes"])
    next
      case (Inr oh)
      show ?thesis
      proof (cases oh)
        case None
        with lt Inr show ?thesis
          by (auto simp: region_loop.simps [of bytes] scan_records.simps [of "drop cursor bytes"])
      next
        case (Some h)
        note hdr = Inr [unfolded Some]
        show ?thesis
        proof (cases "header_record_size h = 0")
          case True
          with lt hdr show ?thesis
            by (auto simp: region_loop.simps [of bytes] scan_records.simps [of "drop cursor bytes"])
        next
          case False
          have "take (min (cursor + header_record_size h) (length bytes) - cursor) (drop cursor bytes)
              = take (header_record_size h) (drop cursor bytes)"
            by (simp add: min_def)
          with lt hdr False "1.IH" [OF lt hdr refl refl False refl] show ?thesis
            by (subst region_loop.simps, subst scan_records.simps)
              (simp add: Let_def add.commute split: prod.split)
        qed
      qed
    qed
  qed
qed

lemma region_from_slice_scan:
  "region_from_slice bytes = (case scan_records bytes of
     ([], Some err) \<Rightarrow> Inl err
   | ([], None) \<Rightarrow> Inl EmptyRegion
   | (rs, _) \<Rightarrow> Inr \<lparr>reg_records = rs\<rparr>)"
  by (auto simp: region_from_slice_def region_loop_scan split: prod.split option.split list.split)

text \<open>What a record that was cut out of a region satisfies\<close>
definition record_cut :: "crash_record \<Rightarrow> bytes \<Rightarrow> bool" where
  "record_cut r rest \<longleftrightarrow> header_from_slice (rec_data r @ rest) = Inr (Some (rec_header r))
     \<and> rec_data r \<noteq> [] \<and> rec_context r = context_default
     \<and> (length (rec_data r) = header_record_size (rec_header r)
        \<or> (length (rec_data r) < header_record_size (rec_header r) \<and> rest = []))"

text \<open>A region followed by the rest of the bytes: every record is cut at its own size, and only the
  last one can be truncated.\<close>
fun records_cut :: "crash_record list \<Rightarrow> bytes \<Rightarrow> bool" where
  "records_cut [] rest \<longleftrightarrow> True"
| "records_cut (r # rs) rest \<longleftrightarrow> record_cut r (concat (map rec_data rs) @ rest) \<and> records_cut rs rest"

lemma scan_records_cut:
  assumes "scan_records bs = (rs, e)"
  shows "\<exists>rest. bs = concat (map rec_data rs) @ rest \<and> records_cut rs rest \<and> scan_records rest = ([], e)"
  using assms
proof (induction bs arbitrary: rs e rule: scan_records.induct)
  case (1 bs)
  show ?case
  proof (cases rs)
    case Nil
    with "1.prems" show ?thesis by (intro exI [of _ bs]) simp
  next
    case (Cons r rs')
    with "1.prems" obtain h where ne: "bs \<noteq> []" and h: "header_from_slice bs = Inr (Some h)"
      and sz: "header_record_size h \<noteq> 0"
      and rs': "scan_records (drop (header_record_size h) bs) = (rs', e)"
      and r: "r = \<lparr>rec_header = h, rec_data = take (header_record_size h) bs, rec_context = context_default\<rparr>"
      by (auto simp: scan_records.simps [of bs] split: if_splits sum.splits option.splits prod.splits)
    from "1.IH" [OF ne h refl sz rs'] obtain rest where
      rest: "drop (header_record_size h) bs = concat (map rec_data rs') @ rest"
        "records_cut rs' rest" "scan_records rest = ([], e)" by blast
    have bs: "bs = rec_data r @ concat (map rec_data rs') @ rest"
      unfolding rest(1) [symmetric] r by simp
    have "record_cut r (concat (map rec_data rs') @ rest)"
      unfolding record_cut_def bs [symmetric] using h ne sz rest(1) r
      by (auto simp: min_def)
    with rest Cons bs show ?thesis by (intro exI [of _ rest]) simp
  qed
qed

lemma scan_records_of_cut:
  assumes "records_cut rs rest" and "scan_records rest = ([], e)"
  shows "scan_records (concat (map rec_data rs) @ rest) = (rs, e)"
  using assms(1)
proof (induction rs)
  case Nil
  with assms(2) show ?case by simp
next
  case (Cons r rs)
  let ?bs = "rec_data r @ concat (map rec_data rs) @ rest"
  from Cons.prems have r: "record_cut r (concat (map rec_data rs) @ rest)" by simp
  then have h: "header_from_slice ?bs = Inr (Some (rec_header r))" and "?bs \<noteq> []"
    by (simp_all add: record_cut_def)
  have "0 < length (rec_data r)" and "length (rec_data r) \<le> header_record_size (rec_header r)"
    using r by (auto simp: record_cut_def)
  then have sz: "header_record_size (rec_header r) \<noteq> 0" by linarith
  have "take (header_record_size (rec_header r)) ?bs = rec_data r"
    and "drop (header_record_size (rec_header r)) ?bs = concat (map rec_data rs) @ rest"
    using r by (auto simp: record_cut_def simp del: concat_eq_Nil_conv)
  with h sz \<open>?bs \<noteq> []\<close> Cons r show ?case
    by (subst scan_records.simps) (auto simp: record_cut_def)
qed

text \<open>What follows a record can be replaced, as long as the header is within the record.\<close>

lemma record_cut_change:
  assumes "record_cut r rest" and "header_size (rec_header r) \<le> length (rec_data r)"
    and "rest' = [] \<or> length (rec_data r) = header_record_size (rec_header r)"
  shows "record_cut r rest'"
proof -
  let ?k = "header_size (rec_header r)"
  from assms(1) have "header_from_slice (rec_data r @ rest) = Inr (Some (rec_header r))"
    by (simp add: record_cut_def)
  then have "header_from_slice (take ?k (rec_data r @ rest) @ drop ?k (rec_data r) @ rest')
      = Inr (Some (rec_header r))"
    by (rule header_from_slice_prefix)
  with assms(2) have "header_from_slice (rec_data r @ rest') = Inr (Some (rec_header r))"
    by (simp flip: append_assoc)
  with assms(1,3) show ?thesis by (auto simp: record_cut_def)
qed

lemma records_cut_alone:
  "records_cut rs rest \<Longrightarrow> \<forall>r \<in> set rs. header_size (rec_header r) \<le> length (rec_data r) \<Longrightarrow> records_cut rs []"
proof (induction rs)
  case Nil
  then show ?case by simp
next
  case (Cons r rs)
  have "record_cut r (concat (map rec_data rs))"
    by (rule record_cut_change [of r "concat (map rec_data rs) @ rest"])
      (use Cons.prems in \<open>auto simp: record_cut_def\<close>)
  with Cons show ?case by simp
qed

subsection \<open>Regions that can be exported\<close>

text \<open>A region whose bytes are as its headers say: the data of every record starts with the header of
  the record and is as long as the header says; only the last record can be truncated.\<close>
definition region_ok :: "region \<Rightarrow> bool" where
  "region_ok region \<longleftrightarrow> reg_records region \<noteq> []
     \<and> (\<forall>r \<in> set (reg_records region). header_from_slice (rec_data r) = Inr (Some (rec_header r)))
     \<and> (\<forall>r \<in> set (butlast (reg_records region)). length (rec_data r) = header_record_size (rec_header r))
     \<and> length (rec_data (last (reg_records region))) \<le> header_record_size (rec_header (last (reg_records region)))"

text \<open>A region without the parent headers, which are not part of the exported bytes\<close>
definition record_bare :: "crash_record \<Rightarrow> crash_record" where
  "record_bare r = r\<lparr>rec_context := context_default\<rparr>"

definition region_bare :: "region \<Rightarrow> region" where
  "region_bare region = region\<lparr>reg_records := map record_bare (reg_records region)\<rparr>"

lemma record_bare_simps [simp]:
  "rec_header (record_bare r) = rec_header r" "rec_data (record_bare r) = rec_data r"
  "rec_context (record_bare r) = context_default" "rec_data \<circ> record_bare = rec_data"
  by (auto simp: record_bare_def)

lemma region_bare_simps [simp]:
  "reg_records (region_bare region) = map record_bare (reg_records region)"
  "region_to_bytes (region_bare region) = region_to_bytes region"
  by (simp_all add: region_bare_def region_to_bytes_eq)

lemma region_ok_bare [simp]: "region_ok (region_bare region) \<longleftrightarrow> region_ok region"
  by (cases "reg_records region = []") (simp_all add: region_ok_def last_map flip: map_butlast)

lemma record_bare_id: "rec_context r = context_default \<Longrightarrow> record_bare r = r"
  by (simp add: record_bare_def)

lemma region_bare_id:
  assumes "\<forall>r \<in> set (reg_records region). rec_context r = context_default"
  shows "region_bare region = region"
proof -
  have "map record_bare (reg_records region) = reg_records region"
    using assms by (simp add: map_idI record_bare_id)
  then show ?thesis by (simp add: region_bare_def)
qed

lemma record_cut_of_header:
  assumes "header_from_slice (rec_data r) = Inr (Some (rec_header r))"
    and "length (rec_data r) = header_record_size (rec_header r)
      \<or> rest = [] \<and> length (rec_data r) \<le> header_record_size (rec_header r)"
  shows "record_cut (record_bare r) rest"
proof -
  have len: "header_size (rec_header r) \<le> length (rec_data r)"
    using header_from_slice_cases [of "rec_data r"] assms(1) by simp
  have "rec_data r \<noteq> []"
    using assms(1) by (auto simp: header_from_slice_def version_from_slice_def read_le_eq)
  with assms have "record_cut (record_bare r) []" by (auto simp: record_cut_def)
  then show ?thesis by (rule record_cut_change) (use len assms(2) in auto)
qed

lemma records_cut_bare:
  assumes "\<forall>r \<in> set rs. header_from_slice (rec_data r) = Inr (Some (rec_header r))"
    and "\<forall>r \<in> set (butlast rs). length (rec_data r) = header_record_size (rec_header r)"
    and "rs \<noteq> [] \<Longrightarrow> length (rec_data (last rs)) = header_record_size (rec_header (last rs))
      \<or> tail = [] \<and> length (rec_data (last rs)) \<le> header_record_size (rec_header (last rs))"
  shows "records_cut (map record_bare rs) tail"
  using assms
proof (induction rs)
  case (Cons r rs)
  then show ?case by (cases "rs = []") (auto intro!: record_cut_of_header)
qed simp

text \<open>The data of a device that reports a region: its bytes, with nothing after them or, when its last
  record is complete, with a termination marker and whatever else after them\<close>
definition region_image :: "region \<Rightarrow> bytes \<Rightarrow> bool" where
  "region_image region bytes \<longleftrightarrow> region_ok region
     \<and> take (length (region_to_bytes region)) bytes = region_to_bytes region
     \<and> (let tail = drop (length (region_to_bytes region)) bytes; r = last (reg_records region) in
        tail = [] \<or> header_from_slice tail = Inr None \<and> length (rec_data r) = header_record_size (rec_header r))"

lemma region_image_to_bytes: "region_image region (region_to_bytes region) \<longleftrightarrow> region_ok region"
  by (auto simp: region_image_def)

text \<open>Exporting such a region and parsing it gives its records back, and so does parsing what a device
  reports.\<close>

lemma region_image_reads:
  assumes "region_image region bytes"
  shows "region_from_slice bytes = Inr (region_bare region)"
proof -
  let ?rs = "map record_bare (reg_records region)"
  define tail where "tail = drop (length (region_to_bytes region)) bytes"
  have bytes: "bytes = concat (map rec_data ?rs) @ tail"
    using assms append_take_drop_id [of "length (region_to_bytes region)" bytes]
    by (simp add: region_image_def tail_def region_to_bytes_eq)
  have "records_cut ?rs tail"
    using assms by (intro records_cut_bare) (auto simp: region_image_def region_ok_def tail_def Let_def)
  moreover have "scan_records tail = ([], None)"
    using assms by (auto simp: region_image_def tail_def Let_def scan_records.simps)
  ultimately have "scan_records bytes = (?rs, None)" unfolding bytes by (rule scan_records_of_cut)
  moreover have "reg_records region \<noteq> []" using assms by (simp add: region_image_def region_ok_def)
  ultimately show ?thesis
    by (cases "reg_records region") (simp_all add: region_from_slice_scan region_bare_def)
qed

lemma region_ok_reads:
  "region_ok region \<Longrightarrow> region_from_slice (region_to_bytes region) = Inr (region_bare region)"
  by (simp add: region_image_reads region_image_to_bytes)

text \<open>The regions that were parsed are of this kind, if their headers fit in their records.\<close>

lemma records_cut_headers:
  "records_cut rs rest \<Longrightarrow> \<forall>r \<in> set rs. header_size (rec_header r) \<le> length (rec_data r) \<Longrightarrow> r \<in> set rs \<Longrightarrow>
   header_from_slice (rec_data r) = Inr (Some (rec_header r))"
proof (induction rs)
  case (Cons x rs)
  have "header_from_slice (rec_data x) = Inr (Some (rec_header x))" if "record_cut x tail" for tail
  proof -
    have "record_cut x []" by (rule record_cut_change [OF that]) (use Cons.prems(2) in auto)
    then show ?thesis by (simp add: record_cut_def)
  qed
  with Cons show ?case by auto
qed simp

lemma records_cut_lengths:
  "records_cut rs rest \<Longrightarrow> rs \<noteq> [] \<Longrightarrow> \<forall>r \<in> set rs. rec_data r \<noteq> [] \<Longrightarrow>
   (\<forall>r \<in> set (butlast rs). length (rec_data r) = header_record_size (rec_header r))
   \<and> length (rec_data (last rs)) \<le> header_record_size (rec_header (last rs))"
  by (induction rs) (auto simp: record_cut_def)

lemma records_cut_context: "records_cut rs rest \<Longrightarrow> \<forall>r \<in> set rs. rec_context r = context_default"
  by (induction rs) (auto simp: record_cut_def)

lemma records_cut_nonempty: "records_cut rs rest \<Longrightarrow> r \<in> set rs \<Longrightarrow> rec_data r \<noteq> []"
  by (induction rs) (auto simp: record_cut_def)

subsection \<open>Payload and checksum\<close>

lemma record_payload_split:
  assumes "header_size (rec_header r) + (if ver_cldic (hdr_version (rec_header r)) then 4 else 0)
     \<le> length (rec_data r)"
  shows "\<exists>check. rec_data r = take (header_size (rec_header r)) (rec_data r) @ record_payload r @ check
     \<and> length check = (if ver_cldic (hdr_version (rec_header r)) then 4 else 0)"
proof (intro exI conjI)
  let ?n = "length (rec_data r) - (if ver_cldic (hdr_version (rec_header r)) then 4 else 0)"
  have "header_size (rec_header r) \<le> ?n" using assms by auto
  then have "record_payload r = drop (header_size (rec_header r)) (take ?n (rec_data r))"
    by (auto simp: record_payload_def slice_get_def Let_def drop_take)
  moreover have "take (header_size (rec_header r)) (rec_data r)
      = take (header_size (rec_header r)) (take ?n (rec_data r))"
    using \<open>header_size (rec_header r) \<le> ?n\<close> by (simp only: take_take min_absorb1)
  ultimately show "rec_data r = take (header_size (rec_header r)) (rec_data r) @ record_payload r @ drop ?n (rec_data r)"
    by (metis append_assoc append_take_drop_id)
  show "length (drop ?n (rec_data r)) = (if ver_cldic (hdr_version (rec_header r)) then 4 else 0)"
    using assms by auto
qed

text \<open>The sum of the dwords of a block\<close>
definition dword_sum :: "bytes \<Rightarrow> u32" where
  "dword_sum bs = sum_list (map from_le_bytes (chunks 4 bs))"

lemma chunks_append: "0 < n \<Longrightarrow> length a mod n = 0 \<Longrightarrow> chunks n (a @ b) = chunks n a @ chunks n b"
proof (induction n a rule: chunks.induct)
  case (1 n s)
  show ?case
  proof (cases "s = []")
    case True
    then show ?thesis by (simp add: chunks.simps [of n "[]"])
  next
    case False
    with "1.prems" have "n \<le> length s" by (auto intro: dvd_imp_le)
    then have "length (drop n s) mod n = 0" using "1.prems" by (simp add: le_mod_geq [symmetric])
    with "1.IH" False "1.prems" have "chunks n (drop n s @ b) = chunks n (drop n s) @ chunks n b" by simp
    then show ?thesis
      using False "1.prems"(1) \<open>n \<le> length s\<close>
      by (subst chunks.simps, subst (2) chunks.simps) simp
  qed
qed

lemma chunks_full: "0 < n \<Longrightarrow> length s mod n = 0 \<Longrightarrow> c \<in> set (chunks n s) \<Longrightarrow> length c = n"
proof (induction n s rule: chunks.induct)
  case (1 n s)
  show ?case
  proof (cases "s = []")
    case True
    with "1.prems" show ?thesis by (simp add: chunks.simps [of n "[]"])
  next
    case False
    with "1.prems" have "n \<le> length s" by (auto intro: dvd_imp_le)
    moreover from this have "length (drop n s) mod n = 0" using "1.prems" by (simp add: le_mod_geq [symmetric])
    ultimately show ?thesis
      using "1.IH" "1.prems" False by (auto simp: chunks.simps [of n s])
  qed
qed

lemma record_checksum_eq:
  assumes "ver_cldic (hdr_version (rec_header r))" and "length (rec_data r) mod 4 = 0"
  shows "record_checksum r = Some (dword_sum (rec_data r) = 0)"
proof -
  have full: "map (\<lambda>s. case try_into 4 s of Some a \<Rightarrow> (from_le_bytes a :: u32) | None \<Rightarrow> from_le_bytes [0, 0, 0, 0])
      (chunks 4 (rec_data r)) = map from_le_bytes (chunks 4 (rec_data r))"
    using chunks_full [of 4 "rec_data r"] assms(2) by (auto simp: try_into_def)
  have sum: "fold (\<lambda>dword acc. acc + dword) xs a = a + sum_list xs" for xs and a :: u32
    by (induction xs arbitrary: a) (simp_all add: add.assoc)
  show ?thesis
    using assms(1) unfolding record_checksum_def full sum dword_sum_def Let_def by simp
qed

lemma region_from_slice_cuts_aux:
  assumes "region_from_slice bytes = Inr region"
  shows "reg_records region \<noteq> [] \<and>
    (\<exists>rest. bytes = region_to_bytes region @ rest \<and> records_cut (reg_records region) rest)"
proof -
  obtain rs e where scan: "scan_records bytes = (rs, e)" by (cases "scan_records bytes")
  with assms have "rs \<noteq> []" and "region = \<lparr>reg_records = rs\<rparr>"
    by (auto simp: region_from_slice_scan split: list.splits option.splits)
  with scan_records_cut [OF scan] show ?thesis by (auto simp: region_to_bytes_eq)
qed

lemma region_ok_parsed:
  assumes "region_from_slice bytes = Inr region"
    and "\<forall>r \<in> set (reg_records region). header_size (rec_header r) \<le> length (rec_data r)"
  shows "region_ok region"
proof -
  obtain rest where ne: "reg_records region \<noteq> []" and cut: "records_cut (reg_records region) rest"
    using region_from_slice_cuts_aux [OF assms(1)] by blast
  then show ?thesis
    using records_cut_headers [OF cut assms(2)] records_cut_lengths [OF cut ne]
      records_cut_nonempty [OF cut] by (auto simp: region_ok_def)
qed

lemma region_ok_child [simp]: "region_ok (set_child_context region h) \<longleftrightarrow> region_ok region"
  by (cases "reg_records region = []")
    (simp_all add: region_ok_def set_child_context_def last_map flip: map_butlast)

subsection \<open>Properties\<close>

text \<open>C22. \<open>read_field\<close> reads exactly the bits of the field, little-endian, wherever the field
  starts in a byte and however many bytes it spans: bit \<open>i\<close> of the value is bit \<open>offset + i\<close> of
  the record. It gives nothing exactly when the field is wider than 64 bits or not within the data.\<close>
theorem read_field_bits:
  "case read_field r offset sz of
     None \<Rightarrow> 64 < sz \<or> (\<exists>i < unat sz. length (rec_data r) \<le> field_pos offset i div 8)
   | Some v \<Rightarrow> sz \<le> 64 \<and> (\<forall>i < unat sz. field_pos offset i div 8 < length (rec_data r))
       \<and> (\<forall>i. bit v i \<longleftrightarrow> i < unat sz \<and> field_bit (rec_data r) offset i)"
proof (cases "64 < sz")
  case True
  then show ?thesis by (simp add: read_field_def)
next
  case False
  then have "unat sz \<le> 64" by (simp add: word_less_nat_alt)
  then have "case read_field_loop (rec_data r) offset (unat sz) 0 0 of
       None \<Rightarrow> \<exists>i < unat sz. length (rec_data r) \<le> field_pos offset i div 8
     | Some v \<Rightarrow> (\<forall>i < unat sz. field_pos offset i div 8 < length (rec_data r))
         \<and> (\<forall>i. bit v i \<longleftrightarrow> i < unat sz \<and> field_bit (rec_data r) offset i)"
    by (rule read_field_loop_spec) simp_all
  with False show ?thesis by (auto simp: read_field_def split: option.splits)
qed

text \<open>C18. The records of a region are consecutive pieces of its bytes, from the first byte on, none of
  them empty: each starts with the header it carries and has the size that header announces, except
  that the last one may be truncated by the end of the region. At least one record is returned.\<close>
theorem region_from_slice_cuts:
  assumes "region_from_slice bytes = Inr region"
  shows "reg_records region \<noteq> [] \<and>
    (\<exists>rest. bytes = region_to_bytes region @ rest \<and> records_cut (reg_records region) rest)"
  using assms by (rule region_from_slice_cuts_aux)

definition example_record :: crash_record where
  "example_record = \<lparr>rec_header = example_header, rec_data = example_header_bytes,
     rec_context = context_default\<rparr>"

theorem read_field_bits_witness:
  "read_field example_record 4 8 = Some 0x10 \<and> (\<forall>i. bit (0x10 :: u64) i \<longleftrightarrow> i < 8 \<and> field_bit example_header_bytes 4 i)"
proof -
  have v: "read_field example_record 4 8 = Some 0x10" by code_simp
  show ?thesis
    using read_field_bits [where r = example_record and offset = 4 and sz = 8] unfolding v by (simp add: example_record_def)
qed

theorem region_from_slice_cuts_witness:
  "reg_records \<lparr>reg_records = [example_record]\<rparr> \<noteq> [] \<and>
    (\<exists>rest. example_header_bytes @ [0, 0, 0, 0] = region_to_bytes \<lparr>reg_records = [example_record]\<rparr> @ rest
      \<and> records_cut (reg_records \<lparr>reg_records = [example_record]\<rparr>) rest)"
  by (rule region_from_slice_cuts) code_simp

text \<open>An error is returned exactly when not even the first record can be read: the error of its
  header, or \<open>EmptyRegion\<close> when the region is empty, starts with a termination marker or with a
  record whose size is 0. A later invalid header never turns into an error.\<close>
theorem region_from_slice_errors:
  "region_from_slice bytes = Inl err \<longleftrightarrow>
     (if bytes = [] then err = EmptyRegion
      else case header_from_slice bytes of
        Inl e \<Rightarrow> err = e
      | Inr None \<Rightarrow> err = EmptyRegion
      | Inr (Some h) \<Rightarrow> header_record_size h = 0 \<and> err = EmptyRegion)"
  by (auto simp: region_from_slice_scan scan_records.simps [of bytes] split: prod.splits sum.splits option.splits)

text \<open>C17. Exporting a region that was parsed and parsing it again gives the same records, provided
  that every header fits in its own record.\<close>
theorem region_export_import:
  assumes "region_from_slice bytes = Inr region"
    and "\<forall>r \<in> set (reg_records region). header_size (rec_header r) \<le> length (rec_data r)"
  shows "region_from_slice (region_to_bytes region) = Inr region"
proof -
  obtain rest where ne: "reg_records region \<noteq> []" and "records_cut (reg_records region) rest"
    using region_from_slice_cuts_aux [OF assms(1)] by blast
  then have "records_cut (reg_records region) []" using assms(2) by (blast intro: records_cut_alone)
  then have "scan_records (region_to_bytes region) = (reg_records region, None)"
    using scan_records_of_cut [of "reg_records region" "[]" None]
    by (simp add: region_to_bytes_eq scan_records.simps)
  with ne show ?thesis by (cases "reg_records region") (simp_all add: region_from_slice_scan)
qed

theorem region_export_import_witness:
  "region_from_slice (region_to_bytes \<lparr>reg_records = [example_record]\<rparr>) = Inr \<lparr>reg_records = [example_record]\<rparr>"
  by (rule region_export_import [of "example_header_bytes @ [0, 0, 0, 0]"]) code_simp+

text \<open>Records that were not parsed but built survive the export as well: if every record carries
  the header its data starts with and is as long as the header says, then parsing the export,
  followed by nothing or by a termination marker and anything else, gives the records back.\<close>
theorem region_roundtrip:
  assumes "rs \<noteq> []"
    and "\<forall>r \<in> set rs. header_from_slice (rec_data r) = Inr (Some (rec_header r))
      \<and> length (rec_data r) = header_record_size (rec_header r) \<and> rec_context r = context_default"
    and "header_from_slice tail = Inr None"
  shows "region_from_slice (region_to_bytes \<lparr>reg_records = rs\<rparr> @ tail) = Inr \<lparr>reg_records = rs\<rparr>"
proof -
  have one: "record_cut r rest" if "r \<in> set rs" for r rest
  proof -
    from that assms(2) have r: "header_from_slice (rec_data r) = Inr (Some (rec_header r))"
      "length (rec_data r) = header_record_size (rec_header r)" "rec_context r = context_default" by auto
    with header_from_slice_cases [of "rec_data r"]
    have len: "header_size (rec_header r) \<le> length (rec_data r)" by simp
    have "rec_data r \<noteq> []"
      using r(1) by (auto simp: header_from_slice_def version_from_slice_def read_le_eq)
    with r have "record_cut r []" by (simp add: record_cut_def)
    then show ?thesis using len by (rule record_cut_change) (use r in simp)
  qed
  have "records_cut xs tail" if "set xs \<subseteq> set rs" for xs
    using that by (induction xs) (auto intro: one)
  then have "records_cut rs tail" by simp
  moreover have "scan_records tail = ([], None)" using assms(3) by (simp add: scan_records.simps)
  ultimately have "scan_records (concat (map rec_data rs) @ tail) = (rs, None)"
    by (rule scan_records_of_cut)
  with assms(1) show ?thesis by (cases rs) (simp_all add: region_from_slice_scan region_to_bytes_eq)
qed

theorem region_roundtrip_witness:
  "region_from_slice (region_to_bytes \<lparr>reg_records = [example_record, example_record]\<rparr> @ [0, 0, 0, 0, 7])
     = Inr \<lparr>reg_records = [example_record, example_record]\<rparr>"
  by (rule region_roundtrip) (simp, code_simp+)

text \<open>C23. The checksum of a record of whole dwords that carries one is valid exactly when its last
  dword is the negated sum, modulo \<open>2^32\<close>, of all the dwords before it; a record without the CLDIC
  bit has no checksum.\<close>
theorem record_checksum_valid_iff:
  assumes "rec_data r = body @ to_le_bytes 4 c" and "length body mod 4 = 0"
  shows "record_checksum r =
    (if ver_cldic (hdr_version (rec_header r)) then Some (c = - dword_sum body) else None)"
proof (cases "ver_cldic (hdr_version (rec_header r))")
  case True
  have "chunks 4 (to_le_bytes 4 c) = [to_le_bytes 4 c]"
    by (simp add: chunks.simps [of 4 "to_le_bytes 4 c"] chunks.simps [of 4 "[]"] flip: length_0_conv)
  then have "dword_sum (rec_data r) = dword_sum body + c"
    unfolding assms(1) dword_sum_def using assms(2) by (simp add: chunks_append)
  moreover have "length (rec_data r) mod 4 = 0" using assms by simp
  moreover have "dword_sum body + c = 0 \<longleftrightarrow> c = - dword_sum body"
    by (metis add.commute eq_neg_iff_add_eq_0)
  ultimately show ?thesis using True by (simp add: record_checksum_eq)
next
  case False
  then show ?thesis by (simp add: record_checksum_def)
qed

theorem record_checksum_valid_iff_witness:
  "record_checksum \<lparr>rec_header = example_header\<lparr>hdr_version := version_of_u32 0x7e07a108\<rparr>,
       rec_data = example_header_bytes @ to_le_bytes 4 (5 :: u32), rec_context = context_default\<rparr>
     = (if ver_cldic (version_of_u32 0x7e07a108) then Some (5 = - dword_sum example_header_bytes) else None)"
  using record_checksum_valid_iff [of "\<lparr>rec_header = example_header\<lparr>hdr_version := version_of_u32 0x7e07a108\<rparr>,
       rec_data = example_header_bytes @ to_le_bytes 4 (5 :: u32), rec_context = context_default\<rparr>"
       example_header_bytes 5]
  by (simp add: example_header_bytes_def)

end
