(* ===== verification/Cper.thy ===== *)
theory Cper
  imports Region
begin

text \<open>
  UEFI Common Platform Error Records: \<open>lib/src/cper.rs\<close> and \<open>lib/src/cper/\<close>. The crate \<open>uguid\<close>
  is not part of the repository; the operations of it that the code uses are the record \<open>uguid\<close>, an
  argument of every definition that needs them, and what the code relies on is the locale
  \<open>guid_codec\<close>. The bytes of a CPER are the record header, the table of section descriptors and
  the section bodies, each at the offset its descriptor gives.
\<close>

subsection \<open>GUIDs\<close>

record 'g uguid =
  guid_from_bytes :: "bytes \<Rightarrow> 'g"
  guid_to_bytes :: "'g \<Rightarrow> bytes"
  guid_parse :: "string \<Rightarrow> 'g"
  guid_zero :: 'g
  guid_show :: "'g \<Rightarrow> string"

locale guid_codec =
  fixes G :: "'g uguid"
  assumes guid_from_to: "guid_from_bytes G (guid_to_bytes G g) = g"
    and length_guid: "length (guid_to_bytes G g) = 16"
    and guid_to_from: "length b = 16 \<Longrightarrow> guid_to_bytes G (guid_from_bytes G b) = b"
    and guid_zero_bytes: "guid_to_bytes G (guid_zero G) = replicate 16 0"

text \<open>\<open>Guid::from_bytes(s.get(a..b)?.try_into().ok()?)\<close>\<close>
definition read_guid :: "'g uguid \<Rightarrow> bytes \<Rightarrow> nat \<Rightarrow> nat \<Rightarrow> 'g option" where
  "read_guid G s a b = do { r \<leftarrow> slice_get s a b; arr \<leftarrow> try_into 16 r; Some (guid_from_bytes G arr) }"

lemma read_guid_skip [slice_simps]:
  "length xs \<le> a \<Longrightarrow> a \<le> b \<Longrightarrow> read_guid G (xs @ ys) a b = read_guid G ys (a - length xs) (b - length xs)"
  by (simp add: read_guid_def slice_get_skip)

lemma read_guid_Cons [slice_simps]:
  "0 < a \<Longrightarrow> a \<le> b \<Longrightarrow> read_guid G (x # xs) a b = read_guid G xs (a - 1) (b - 1)"
  by (simp add: read_guid_def slice_get_Cons)

context guid_codec
begin

lemma read_guid_first: "read_guid G (guid_to_bytes G g @ ys) 0 16 = Some g"
  by (simp add: read_guid_def slice_get_first length_guid guid_from_to)

end

subsection \<open>Revisions and timestamps\<close>

record revision =
  rev_major :: u8
  rev_minor :: u8

definition revision_new :: "u8 \<Rightarrow> u8 \<Rightarrow> revision" where
  "revision_new major minor = \<lparr>rev_major = major, rev_minor = minor\<rparr>"

definition revision_from_slice :: "bytes \<Rightarrow> revision option" where
  "revision_from_slice s = do {
     minor \<leftarrow> slice_at s 0;
     major \<leftarrow> slice_at s 1;
     Some \<lparr>rev_major = major, rev_minor = minor\<rparr> }"

definition revision_to_bytes :: "revision \<Rightarrow> bytes" where
  "revision_to_bytes r = [rev_minor r, rev_major r]"

definition revision_show :: "revision \<Rightarrow> string" where
  "revision_show r = show_dec (unat (rev_major r)) @ ''.'' @ show_dec (unat (rev_minor r))"

text \<open>\<open>crate::metadata::Time\<close>\<close>
record time =
  tm_year :: u16
  tm_month :: u8
  tm_day :: u8
  tm_hour :: u8
  tm_minute :: u8

definition bin_to_bcd :: "u8 \<Rightarrow> u8" where
  "bin_to_bcd b = push_bit 4 (b div 10) OR (b mod 10)"

record timestamp =
  ts_seconds :: u8
  ts_minutes :: u8
  ts_hours :: u8
  ts_precise :: bool
  ts_day :: u8
  ts_month :: u8
  ts_year :: u8
  ts_century :: u8

definition timestamp_default :: timestamp where
  "timestamp_default = \<lparr>ts_seconds = 0, ts_minutes = 0, ts_hours = 0, ts_precise = False, ts_day = 0,
     ts_month = 0, ts_year = 0, ts_century = 0\<rparr>"

definition timestamp_from_crashlog_metadata :: "time \<Rightarrow> timestamp" where
  "timestamp_from_crashlog_metadata t = timestamp_default\<lparr>
     ts_century := bin_to_bcd (ucast (tm_year t div 100)),
     ts_year := bin_to_bcd (ucast (tm_year t mod 100)),
     ts_month := bin_to_bcd (tm_month t),
     ts_day := bin_to_bcd (tm_day t),
     ts_hours := bin_to_bcd (tm_hour t),
     ts_minutes := bin_to_bcd (tm_minute t)\<rparr>"

definition timestamp_from_slice :: "bytes \<Rightarrow> timestamp option" where
  "timestamp_from_slice s = do {
     seconds \<leftarrow> slice_at s 0;
     minutes \<leftarrow> slice_at s 1;
     hours \<leftarrow> slice_at s 2;
     precise \<leftarrow> slice_at s 3;
     day \<leftarrow> slice_at s 4;
     month \<leftarrow> slice_at s 5;
     year \<leftarrow> slice_at s 6;
     century \<leftarrow> slice_at s 7;
     Some \<lparr>ts_seconds = seconds, ts_minutes = minutes, ts_hours = hours,
       ts_precise = (precise AND 1 \<noteq> 0), ts_day = day, ts_month = month, ts_year = year,
       ts_century = century\<rparr> }"

definition timestamp_to_bytes :: "timestamp \<Rightarrow> bytes" where
  "timestamp_to_bytes t = [ts_seconds t, ts_minutes t, ts_hours t, bool_word (ts_precise t),
     ts_day t, ts_month t, ts_year t, ts_century t]"

subsection \<open>Section descriptors\<close>

definition SECTION_DESCRIPTOR_SIZE :: nat where "SECTION_DESCRIPTOR_SIZE = 72"

definition FRU_ID :: u8 where "FRU_ID = 1"
definition FRU_STRING :: u8 where "FRU_STRING = 2"

datatype section_severity = SecRecoverable | SecFatal | SecCorrected | SecInformational

definition section_severity_from_u32 :: "u32 \<Rightarrow> section_severity" where
  "section_severity_from_u32 v = (if v = 0 then SecRecoverable else if v = 1 then SecFatal
     else if v = 2 then SecCorrected else SecInformational)"

fun section_severity_as_u32 :: "section_severity \<Rightarrow> u32" where
  "section_severity_as_u32 SecRecoverable = 0"
| "section_severity_as_u32 SecFatal = 1"
| "section_severity_as_u32 SecCorrected = 2"
| "section_severity_as_u32 SecInformational = 3"

record 'g section_descriptor =
  sd_section_offset :: u32
  sd_section_length :: u32
  sd_revision :: revision
  sd_validation_bits :: u8
  sd_flags :: u32
  sd_section_type :: 'g
  sd_fru_id :: "'g option"
  sd_section_severity :: section_severity
  sd_fru_text :: "bytes option"

definition descriptor_default :: "'g uguid \<Rightarrow> 'g section_descriptor" where
  "descriptor_default G = \<lparr>sd_section_offset = 0, sd_section_length = 0,
     sd_revision = revision_new 1 0, sd_validation_bits = 0, sd_flags = 0,
     sd_section_type = guid_zero G, sd_fru_id = None, sd_section_severity = SecInformational,
     sd_fru_text = None\<rparr>"

definition descriptor_from_slice :: "'g uguid \<Rightarrow> bytes \<Rightarrow> 'g section_descriptor option" where
  "descriptor_from_slice G s = do {
     r \<leftarrow> slice_get s 8 10;
     revision \<leftarrow> revision_from_slice r;
     validation_bits \<leftarrow> slice_at s 10;
     section_offset \<leftarrow> read_u32 s 0 4;
     section_length \<leftarrow> read_u32 s 4 8;
     flags \<leftarrow> read_u32 s 12 16;
     section_type \<leftarrow> read_guid G s 16 32;
     fru_id \<leftarrow> (if validation_bits AND FRU_ID \<noteq> 0
       then do { g \<leftarrow> read_guid G s 32 48; Some (Some g) } else Some None);
     section_severity \<leftarrow> read_u32 s 48 52;
     fru_text \<leftarrow> (if validation_bits AND FRU_STRING \<noteq> 0
       then do { t \<leftarrow> slice_get s 52 72; arr \<leftarrow> try_into 20 t; Some (Some arr) } else Some None);
     Some \<lparr>sd_section_offset = section_offset, sd_section_length = section_length,
       sd_revision = revision, sd_validation_bits = validation_bits, sd_flags = flags,
       sd_section_type = section_type, sd_fru_id = fru_id,
       sd_section_severity = section_severity_from_u32 section_severity, sd_fru_text = fru_text\<rparr> }"

definition descriptor_normalize :: "'g section_descriptor \<Rightarrow> 'g section_descriptor" where
  "descriptor_normalize d =
     (let bits = 0;
          bits = (if sd_fru_id d \<noteq> None then bits OR FRU_ID else bits);
          bits = (if sd_fru_text d \<noteq> None then bits OR FRU_STRING else bits)
      in d\<lparr>sd_validation_bits := bits\<rparr>)"

text \<open>\<open>o.unwrap_or(d)\<close> and \<open>o.unwrap_or_default()\<close>\<close>
definition option_or :: "'a option \<Rightarrow> 'a \<Rightarrow> 'a" where
  "option_or x d = (case x of Some v \<Rightarrow> v | None \<Rightarrow> d)"

definition descriptor_to_bytes :: "'g uguid \<Rightarrow> 'g section_descriptor \<Rightarrow> bytes" where
  "descriptor_to_bytes G d =
     to_le_bytes 4 (sd_section_offset d) @ to_le_bytes 4 (sd_section_length d)
     @ revision_to_bytes (sd_revision d) @ [sd_validation_bits d, 0] @ to_le_bytes 4 (sd_flags d)
     @ guid_to_bytes G (sd_section_type d)
     @ guid_to_bytes G (option_or (sd_fru_id d) (guid_zero G))
     @ to_le_bytes 4 (section_severity_as_u32 (sd_section_severity d))
     @ option_or (sd_fru_text d) (replicate 20 0)"

text \<open>The descriptors that are in the form \<open>normalize\<close> gives\<close>
definition fru_text_ok :: "'g section_descriptor \<Rightarrow> bool" where
  "fru_text_ok d \<longleftrightarrow> (case sd_fru_text d of None \<Rightarrow> True | Some t \<Rightarrow> length t = 20)"

definition descriptor_ok :: "'g section_descriptor \<Rightarrow> bool" where
  "descriptor_ok d \<longleftrightarrow> descriptor_normalize d = d \<and> fru_text_ok d"

lemma section_severity_roundtrip [simp, codec_simps]:
  "section_severity_from_u32 (section_severity_as_u32 x) = x"
  by (cases x) (simp_all add: section_severity_from_u32_def)

lemma revision_roundtrip [simp, codec_simps]:
  "revision_from_slice (rev_minor r # rev_major r # rest) = Some r"
  by (simp add: revision_from_slice_def slice_at_def)

lemma descriptor_normalize_bits:
  "sd_validation_bits (descriptor_normalize d) = (if sd_fru_id d \<noteq> None then FRU_ID else 0)
     OR (if sd_fru_text d \<noteq> None then FRU_STRING else 0)"
  by (simp add: descriptor_normalize_def Let_def)

interpretation revision: fixed_codec revision_to_bytes revision_from_slice 2 "\<lambda>_. True"
  by unfold_locales (simp_all add: revision_to_bytes_def)

interpretation timestamp: fixed_codec timestamp_to_bytes timestamp_from_slice 8 "\<lambda>_. True"
  by unfold_locales (simp_all add: timestamp_to_bytes_def timestamp_from_slice_def slice_at_def bool_word_def)

sublocale guid_codec < descriptor: fixed_codec "descriptor_to_bytes G" "descriptor_from_slice G"
  SECTION_DESCRIPTOR_SIZE descriptor_ok
proof unfold_locales
  fix d :: "'g section_descriptor" assume ok: "descriptor_ok d"
  then have fru: "length (option_or (sd_fru_text d) (replicate 20 0)) = 20"
    by (auto simp: descriptor_ok_def fru_text_ok_def option_or_def split: option.splits)
  then show "length (descriptor_to_bytes G d) = SECTION_DESCRIPTOR_SIZE"
    by (simp add: descriptor_to_bytes_def SECTION_DESCRIPTOR_SIZE_def length_guid revision_to_bytes_def)
  fix rest
  have "descriptor_normalize d = d" using ok by (simp add: descriptor_ok_def)
  then have bits: "sd_validation_bits d = (if sd_fru_id d \<noteq> None then FRU_ID else 0)
      OR (if sd_fru_text d \<noteq> None then FRU_STRING else 0)"
    by (metis (no_types) descriptor_normalize_bits)
  obtain off sl rev vb fl st fi sev ft where d: "d = \<lparr>sd_section_offset = off, sd_section_length = sl,
      sd_revision = rev, sd_validation_bits = vb, sd_flags = fl, sd_section_type = st, sd_fru_id = fi,
      sd_section_severity = sev, sd_fru_text = ft\<rparr>" by (cases d)
  show "descriptor_from_slice G (descriptor_to_bytes G d @ rest) = Some d"
    using fru bits unfolding d
    by (cases fi; cases ft)
      (simp_all add: descriptor_from_slice_def descriptor_to_bytes_def slice_simps length_guid
        read_guid_first revision_to_bytes_def option_or_def FRU_ID_def FRU_STRING_def)
qed

subsection \<open>The record header\<close>

definition RECORD_HEADER_SIZE :: nat where "RECORD_HEADER_SIZE = 128"

definition LCF_GUID :: "'g uguid \<Rightarrow> 'g" where
  "LCF_GUID G = guid_parse G ''eba67344-b876-4237-b80d-27e1297fa2ff''"

definition NOTIFICATION_BOOT :: "'g uguid \<Rightarrow> 'g" where
  "NOTIFICATION_BOOT G = guid_parse G ''3d61a466-ab40-409a-a698-f362d464b38f''"

definition PLATFORM_ID :: u32 where "PLATFORM_ID = 1"
definition TIMESTAMP :: u32 where "TIMESTAMP = 2"
definition PARTITION_ID :: u32 where "PARTITION_ID = 4"

datatype error_severity = ErrRecoverable | ErrFatal | ErrCorrected | ErrInformational

definition error_severity_from_u32 :: "u32 \<Rightarrow> error_severity" where
  "error_severity_from_u32 v = (if v = 0 then ErrRecoverable else if v = 1 then ErrFatal
     else if v = 2 then ErrCorrected else ErrInformational)"

fun error_severity_as_u32 :: "error_severity \<Rightarrow> u32" where
  "error_severity_as_u32 ErrRecoverable = 0"
| "error_severity_as_u32 ErrFatal = 1"
| "error_severity_as_u32 ErrCorrected = 2"
| "error_severity_as_u32 ErrInformational = 3"

record 'g cper_header =
  ch_revision :: revision
  ch_section_count :: u16
  ch_error_severity :: error_severity
  ch_validation_bits :: u32
  ch_record_length :: u32
  ch_timestamp :: "timestamp option"
  ch_platform_id :: "'g option"
  ch_partition_id :: "'g option"
  ch_creator_id :: 'g
  ch_notification_type :: 'g
  ch_record_id :: u64
  ch_flags :: u32
  ch_persistence_information :: u64

definition cper_header_default :: "'g uguid \<Rightarrow> 'g cper_header" where
  "cper_header_default G = \<lparr>ch_revision = revision_new 1 1, ch_section_count = 0,
     ch_error_severity = ErrInformational, ch_validation_bits = 0,
     ch_record_length = of_nat RECORD_HEADER_SIZE, ch_timestamp = None, ch_platform_id = None,
     ch_partition_id = None, ch_creator_id = LCF_GUID G, ch_notification_type = guid_zero G,
     ch_record_id = 0, ch_flags = 0, ch_persistence_information = 0\<rparr>"

text \<open>\<open>b"CPER"\<close>\<close>
definition CPER_SIGNATURE :: bytes where "CPER_SIGNATURE = [0x43, 0x50, 0x45, 0x52]"

definition cper_header_from_slice :: "'g uguid \<Rightarrow> bytes \<Rightarrow> 'g cper_header option" where
  "cper_header_from_slice G s = do {
     signature_end \<leftarrow> read_u32 s 6 10;
     if \<not> starts_with s CPER_SIGNATURE \<or> signature_end \<noteq> 0xFFFFFFFF then None
     else do {
       r \<leftarrow> slice_get s 4 6;
       revision \<leftarrow> revision_from_slice r;
       validation_bits \<leftarrow> read_u32 s 16 20;
       section_count \<leftarrow> read_u16 s 10 12;
       error_severity \<leftarrow> read_u32 s 12 16;
       record_length \<leftarrow> read_u32 s 20 24;
       timestamp \<leftarrow> (if validation_bits AND TIMESTAMP \<noteq> 0
         then do { b \<leftarrow> slice_get s 24 32; t \<leftarrow> timestamp_from_slice b; Some (Some t) } else Some None);
       platform_id \<leftarrow> (if validation_bits AND PLATFORM_ID \<noteq> 0
         then do { g \<leftarrow> read_guid G s 32 48; Some (Some g) } else Some None);
       partition_id \<leftarrow> (if validation_bits AND PARTITION_ID \<noteq> 0
         then do { g \<leftarrow> read_guid G s 48 64; Some (Some g) } else Some None);
       creator_id \<leftarrow> read_guid G s 64 80;
       notification_type \<leftarrow> read_guid G s 80 96;
       record_id \<leftarrow> read_u64 s 96 104;
       flags \<leftarrow> read_u32 s 104 108;
       persistence_information \<leftarrow> read_u64 s 108 116;
       Some \<lparr>ch_revision = revision, ch_section_count = section_count,
         ch_error_severity = error_severity_from_u32 error_severity,
         ch_validation_bits = validation_bits, ch_record_length = record_length,
         ch_timestamp = timestamp, ch_platform_id = platform_id, ch_partition_id = partition_id,
         ch_creator_id = creator_id, ch_notification_type = notification_type,
         ch_record_id = record_id, ch_flags = flags,
         ch_persistence_information = persistence_information\<rparr> } }"

definition cper_header_normalize :: "'g cper_header \<Rightarrow> 'g cper_header" where
  "cper_header_normalize h =
     (let bits = 0;
          bits = (if ch_timestamp h \<noteq> None then bits OR TIMESTAMP else bits);
          bits = (if ch_platform_id h \<noteq> None then bits OR PLATFORM_ID else bits);
          bits = (if ch_partition_id h \<noteq> None then bits OR PARTITION_ID else bits)
      in h\<lparr>ch_validation_bits := bits\<rparr>)"

definition cper_header_to_bytes :: "'g uguid \<Rightarrow> 'g cper_header \<Rightarrow> bytes" where
  "cper_header_to_bytes G h =
     CPER_SIGNATURE @ revision_to_bytes (ch_revision h) @ [0xFF, 0xFF, 0xFF, 0xFF]
     @ to_le_bytes 2 (ch_section_count h)
     @ to_le_bytes 4 (error_severity_as_u32 (ch_error_severity h))
     @ to_le_bytes 4 (ch_validation_bits h) @ to_le_bytes 4 (ch_record_length h)
     @ timestamp_to_bytes (option_or (ch_timestamp h) timestamp_default)
     @ guid_to_bytes G (option_or (ch_platform_id h) (guid_zero G))
     @ guid_to_bytes G (option_or (ch_partition_id h) (guid_zero G))
     @ guid_to_bytes G (ch_creator_id h) @ guid_to_bytes G (ch_notification_type h)
     @ to_le_bytes 8 (ch_record_id h) @ to_le_bytes 4 (ch_flags h)
     @ to_le_bytes 8 (ch_persistence_information h) @ replicate 12 0"

definition cper_header_ok :: "'g cper_header \<Rightarrow> bool" where
  "cper_header_ok h \<longleftrightarrow> cper_header_normalize h = h"

lemma error_severity_roundtrip [simp, codec_simps]:
  "error_severity_from_u32 (error_severity_as_u32 x) = x"
  by (cases x) (simp_all add: error_severity_from_u32_def)

lemma cper_header_normalize_bits:
  "ch_validation_bits (cper_header_normalize h) = (if ch_timestamp h \<noteq> None then TIMESTAMP else 0)
     OR (if ch_platform_id h \<noteq> None then PLATFORM_ID else 0)
     OR (if ch_partition_id h \<noteq> None then PARTITION_ID else 0)"
  by (simp add: cper_header_normalize_def Let_def or.assoc)

lemma signature_end: "read_u32 (0xFF # 0xFF # 0xFF # 0xFF # xs) 0 4 = Some 0xFFFFFFFF"
  using read_le_first [of "[0xFF, 0xFF, 0xFF, 0xFF]" 4 4 xs] by simp

sublocale guid_codec < cper_header: fixed_codec "cper_header_to_bytes G" "cper_header_from_slice G"
  RECORD_HEADER_SIZE cper_header_ok
proof unfold_locales
  fix h :: "'g cper_header" assume ok: "cper_header_ok h"
  have ts: "length (timestamp_to_bytes t) = 8" for t by (rule timestamp.length_enc) simp
  have ts': "timestamp_from_slice (timestamp_to_bytes t) = Some t" for t
    using timestamp.dec_enc [of t "[]"] by simp
  show "length (cper_header_to_bytes G h) = RECORD_HEADER_SIZE"
    by (simp add: cper_header_to_bytes_def RECORD_HEADER_SIZE_def length_guid revision_to_bytes_def
        ts CPER_SIGNATURE_def)
  fix rest
  have "cper_header_normalize h = h" using ok by (simp add: cper_header_ok_def)
  then have bits: "ch_validation_bits h = (if ch_timestamp h \<noteq> None then TIMESTAMP else 0)
     OR (if ch_platform_id h \<noteq> None then PLATFORM_ID else 0)
     OR (if ch_partition_id h \<noteq> None then PARTITION_ID else 0)"
    by (metis (no_types) cper_header_normalize_bits)
  obtain r sc es vb rl t pl pa ci nt ri fl pe where h: "h = \<lparr>ch_revision = r, ch_section_count = sc,
      ch_error_severity = es, ch_validation_bits = vb, ch_record_length = rl, ch_timestamp = t,
      ch_platform_id = pl, ch_partition_id = pa, ch_creator_id = ci, ch_notification_type = nt,
      ch_record_id = ri, ch_flags = fl, ch_persistence_information = pe\<rparr>" by (cases h)
  show "cper_header_from_slice G (cper_header_to_bytes G h @ rest) = Some h"
    using bits unfolding h
    by (cases t; cases pl; cases pa)
      (simp_all add: cper_header_from_slice_def cper_header_to_bytes_def slice_simps length_guid
        read_guid_first revision_to_bytes_def option_or_def TIMESTAMP_def PLATFORM_ID_def
        PARTITION_ID_def CPER_SIGNATURE_def starts_with_def signature_end ts ts')
qed

subsection \<open>Firmware error records\<close>

definition RECORD_ID_CRASHLOG :: "'g uguid \<Rightarrow> 'g" where
  "RECORD_ID_CRASHLOG G = guid_parse G ''8f87f311-c998-4d9e-a0c4-6065518c4f6d''"

definition HEADER_REV1_SIZE :: nat where "HEADER_REV1_SIZE = 16"
definition HEADER_REV2_SIZE :: nat where "HEADER_REV2_SIZE = 32"

record 'g fer_header =
  fh_error_type :: u8
  fh_revision :: u8
  fh_record_identifier :: u64
  fh_guid :: 'g

record 'g fer =
  fer_header :: "'g fer_header"
  fer_payload :: bytes

definition fer_header_from_slice :: "'g uguid \<Rightarrow> bytes \<Rightarrow> 'g fer_header option" where
  "fer_header_from_slice G s = do {
     revision \<leftarrow> slice_at s 1;
     error_type \<leftarrow> slice_at s 0;
     record_identifier \<leftarrow> read_u64 s 8 16;
     guid \<leftarrow> (if revision \<ge> 2 then read_guid G s 16 32 else Some (guid_zero G));
     Some \<lparr>fh_error_type = error_type, fh_revision = revision,
       fh_record_identifier = record_identifier, fh_guid = guid\<rparr> }"

definition fer_header_to_bytes :: "'g uguid \<Rightarrow> 'g fer_header \<Rightarrow> bytes" where
  "fer_header_to_bytes G h = [fh_error_type h, fh_revision h] @ replicate 6 0
     @ to_le_bytes 8 (fh_record_identifier h) @ guid_to_bytes G (fh_guid h)"

definition fer_header_len :: "'g fer_header \<Rightarrow> nat" where
  "fer_header_len h = (if fh_revision h \<ge> 2 then HEADER_REV2_SIZE else HEADER_REV1_SIZE)"

definition fer_from_slice :: "'g uguid \<Rightarrow> bytes \<Rightarrow> 'g fer option" where
  "fer_from_slice G s = do {
     header \<leftarrow> fer_header_from_slice G s;
     payload \<leftarrow> slice_from s (fer_header_len header);
     Some \<lparr>fer_header = header, fer_payload = payload\<rparr> }"

definition fer_from_crashlog_region :: "'g uguid \<Rightarrow> region \<Rightarrow> 'g fer" where
  "fer_from_crashlog_region G region =
     \<lparr>fer_header = \<lparr>fh_error_type = 2, fh_revision = 2, fh_record_identifier = 0,
        fh_guid = RECORD_ID_CRASHLOG G\<rparr>,
      fer_payload = region_to_bytes region\<rparr>"

definition fer_to_bytes :: "'g uguid \<Rightarrow> 'g fer \<Rightarrow> bytes" where
  "fer_to_bytes G f = fer_header_to_bytes G (fer_header f) @ fer_payload f"

subsection \<open>Sections\<close>

definition FW_ERROR_RECORD :: "'g uguid \<Rightarrow> 'g" where
  "FW_ERROR_RECORD G = guid_parse G ''81212a96-09ed-4996-9471-8d729c8e69ed''"

datatype 'g section_body = FirmwareErrorRecord "'g fer" | UnknownSection 'g bytes

definition section_body_from_slice :: "'g uguid \<Rightarrow> 'g \<Rightarrow> bytes \<Rightarrow> 'g section_body option" where
  "section_body_from_slice G guid s =
     (if guid = FW_ERROR_RECORD G then do { f \<leftarrow> fer_from_slice G s; Some (FirmwareErrorRecord f) }
      else Some (UnknownSection guid s))"

fun section_body_guid :: "'g uguid \<Rightarrow> 'g section_body \<Rightarrow> 'g" where
  "section_body_guid G (FirmwareErrorRecord _) = FW_ERROR_RECORD G"
| "section_body_guid G (UnknownSection guid _) = guid"

fun section_body_len :: "'g section_body \<Rightarrow> nat" where
  "section_body_len (FirmwareErrorRecord f) = fer_header_len (fer_header f) + length (fer_payload f)"
| "section_body_len (UnknownSection _ data) = length data"

fun section_body_to_bytes :: "'g uguid \<Rightarrow> 'g section_body \<Rightarrow> bytes" where
  "section_body_to_bytes G (FirmwareErrorRecord f) = fer_to_bytes G f"
| "section_body_to_bytes G (UnknownSection _ data) = data"

record 'g cper_section =
  cs_descriptor :: "'g section_descriptor"
  cs_body :: "'g section_body"

definition section_from_body :: "'g uguid \<Rightarrow> 'g section_body \<Rightarrow> 'g cper_section" where
  "section_from_body G body =
     \<lparr>cs_descriptor = (descriptor_default G)\<lparr>sd_section_type := section_body_guid G body,
        sd_section_length := of_nat (section_body_len body)\<rparr>,
      cs_body = body\<rparr>"

definition section_from_crashlog_region :: "'g uguid \<Rightarrow> region \<Rightarrow> 'g cper_section" where
  "section_from_crashlog_region G region =
     section_from_body G (FirmwareErrorRecord (fer_from_crashlog_region G region))"

text \<open>\<open>v.resize(n, x)\<close>\<close>
definition resize :: "nat \<Rightarrow> 'a \<Rightarrow> 'a list \<Rightarrow> 'a list" where
  "resize n x v = take n v @ replicate (n - length v) x"

definition section_body_bytes :: "'g uguid \<Rightarrow> 'g cper_section \<Rightarrow> bytes" where
  "section_body_bytes G s =
     resize (unat (sd_section_length (cs_descriptor s))) 0 (section_body_to_bytes G (cs_body s))"

subsection \<open>Records\<close>

record 'g cper =
  cper_record_header :: "'g cper_header"
  cper_sections :: "'g cper_section list"

definition cper_default :: "'g uguid \<Rightarrow> 'g cper" where
  "cper_default G = \<lparr>cper_record_header = cper_header_default G, cper_sections = []\<rparr>"

text \<open>The loop of \<open>normalize\<close> over the sections, with its cursor\<close>
fun normalize_sections :: "nat \<Rightarrow> 'g cper_section list \<Rightarrow> nat \<times> 'g cper_section list" where
  "normalize_sections cursor [] = (cursor, [])"
| "normalize_sections cursor (s # ss) =
     (let d = descriptor_normalize ((cs_descriptor s)\<lparr>sd_section_offset := of_nat cursor\<rparr>);
          (cursor', ss') = normalize_sections (cursor + unat (sd_section_length d)) ss
      in (cursor', s\<lparr>cs_descriptor := d\<rparr> # ss'))"

definition cper_normalize :: "'g cper \<Rightarrow> 'g cper" where
  "cper_normalize c =
     (let header = (cper_record_header c)\<lparr>ch_section_count := of_nat (length (cper_sections c))\<rparr>;
          cursor = RECORD_HEADER_SIZE + SECTION_DESCRIPTOR_SIZE * length (cper_sections c);
          (cursor', sections) = normalize_sections cursor (cper_sections c)
      in c\<lparr>cper_record_header := cper_header_normalize (header\<lparr>ch_record_length := of_nat cursor'\<rparr>),
           cper_sections := sections\<rparr>)"

definition append_section :: "'g cper \<Rightarrow> 'g cper_section \<Rightarrow> 'g cper" where
  "append_section c s = cper_normalize (c\<lparr>cper_sections := cper_sections c @ [s]\<rparr>)"

text \<open>The closure of \<open>filter_map\<close>: section \<open>i\<close> of the table\<close>
definition read_section :: "'g uguid \<Rightarrow> bytes \<Rightarrow> nat \<Rightarrow> 'g cper_section option" where
  "read_section G s i = do {
     let index = RECORD_HEADER_SIZE + i * SECTION_DESCRIPTOR_SIZE;
     tail \<leftarrow> slice_from s index;
     descriptor \<leftarrow> descriptor_from_slice G tail;
     let offset = unat (sd_section_offset descriptor);
     let end_offset = offset + unat (sd_section_length descriptor);
     body_slice \<leftarrow> slice_get s offset end_offset;
     body \<leftarrow> section_body_from_slice G (sd_section_type descriptor) body_slice;
     Some \<lparr>cs_descriptor = descriptor, cs_body = body\<rparr> }"

definition cper_from_slice :: "'g uguid \<Rightarrow> bytes \<Rightarrow> 'g cper option" where
  "cper_from_slice G s = do {
     h \<leftarrow> slice_get s 0 RECORD_HEADER_SIZE;
     record_header \<leftarrow> cper_header_from_slice G h;
     let sections = List.map_filter (read_section G s) [0..<unat (ch_section_count record_header)];
     Some (cper_normalize \<lparr>cper_record_header = record_header, cper_sections = sections\<rparr>) }"

definition cper_to_bytes :: "'g uguid \<Rightarrow> 'g cper \<Rightarrow> bytes" where
  "cper_to_bytes G c = cper_header_to_bytes G (cper_record_header c)
     @ concat (map (\<lambda>s. descriptor_to_bytes G (cs_descriptor s)) (cper_sections c))
     @ concat (map (section_body_bytes G) (cper_sections c))"

subsection \<open>Normal form\<close>

lemma descriptor_normalize_idem [simp]: "descriptor_normalize (descriptor_normalize d) = descriptor_normalize d"
  by (simp add: descriptor_normalize_def Let_def)

lemma descriptor_normalize_sel [simp]:
  "sd_section_offset (descriptor_normalize d) = sd_section_offset d"
  "sd_section_length (descriptor_normalize d) = sd_section_length d"
  "sd_section_type (descriptor_normalize d) = sd_section_type d"
  "sd_fru_text (descriptor_normalize d) = sd_fru_text d"
  by (simp_all add: descriptor_normalize_def Let_def)

lemma descriptor_normalize_offset:
  "descriptor_normalize (descriptor_normalize d\<lparr>sd_section_offset := x\<rparr>)
     = descriptor_normalize (d\<lparr>sd_section_offset := x\<rparr>)"
  by (simp add: descriptor_normalize_def Let_def)

lemma cper_header_normalize_idem [simp]: "cper_header_normalize (cper_header_normalize h) = cper_header_normalize h"
  by (simp add: cper_header_normalize_def Let_def)

text \<open>The lengths of the sections of a record\<close>
abbreviation section_length :: "'g cper_section \<Rightarrow> nat" where
  "section_length s \<equiv> unat (sd_section_length (cs_descriptor s))"

lemma length_normalize_sections [simp]: "length (snd (normalize_sections c ss)) = length ss"
  by (induction c ss rule: normalize_sections.induct) (auto simp: Let_def split: prod.splits)

lemma normalize_sections_cursor: "fst (normalize_sections c ss) = c + sum_list (map section_length ss)"
  by (induction c ss rule: normalize_sections.induct) (auto simp: Let_def split: prod.splits)

lemma normalize_sections_nth:
  "i < length ss \<Longrightarrow> snd (normalize_sections c ss) ! i =
     (ss ! i)\<lparr>cs_descriptor := descriptor_normalize ((cs_descriptor (ss ! i))
        \<lparr>sd_section_offset := of_nat (c + sum_list (map section_length (take i ss)))\<rparr>)\<rparr>"
proof (induction c ss arbitrary: i rule: normalize_sections.induct)
  case (1 c)
  then show ?case by simp
next
  case (2 c s ss)
  then show ?case
    by (cases i) (auto simp: Let_def ac_simps split: prod.splits)
qed

lemma normalize_sections_lengths [simp]:
  "map section_length (snd (normalize_sections c ss)) = map section_length ss"
  by (rule nth_equalityI) (simp_all add: normalize_sections_nth)

lemma normalize_sections_idem [simp]:
  "normalize_sections c (snd (normalize_sections c ss)) = normalize_sections c ss"
proof (rule prod_eqI)
  show "fst (normalize_sections c (snd (normalize_sections c ss))) = fst (normalize_sections c ss)"
    by (simp add: normalize_sections_cursor)
  show "snd (normalize_sections c (snd (normalize_sections c ss))) = snd (normalize_sections c ss)"
    by (rule nth_equalityI)
      (simp_all add: normalize_sections_nth descriptor_normalize_offset flip: take_map)
qed

lemma cper_normalize_idem [simp]: "cper_normalize (cper_normalize c) = cper_normalize c"
  by (simp add: cper_normalize_def Let_def case_prod_beta' cper_header_normalize_def)

text \<open>Appending to a record that is up to date, or to one that is not, gives the same record.\<close>

lemma normalize_sections_append:
  "normalize_sections c (snd (normalize_sections c' ss) @ ts) = normalize_sections c (ss @ ts)"
proof (rule prod_eqI)
  show "fst (normalize_sections c (snd (normalize_sections c' ss) @ ts)) = fst (normalize_sections c (ss @ ts))"
    by (simp add: normalize_sections_cursor)
  show "snd (normalize_sections c (snd (normalize_sections c' ss) @ ts)) = snd (normalize_sections c (ss @ ts))"
    by (rule nth_equalityI)
      (auto simp: normalize_sections_nth nth_append descriptor_normalize_offset simp flip: take_map)
qed

lemma append_section_normalize: "append_section (cper_normalize c) s = append_section c s"
  by (simp add: append_section_def cper_normalize_def Let_def case_prod_beta' cper_header_normalize_def
      normalize_sections_append)

lemma append_section_fold_normalized:
  "fold (\<lambda>x c. append_section c (f x)) xs (cper_normalize c)
     = cper_normalize (c\<lparr>cper_sections := cper_sections c @ map f xs\<rparr>)"
proof (induction xs arbitrary: c)
  case Nil
  then show ?case by simp
next
  case (Cons x xs)
  then show ?case by (simp add: append_section_normalize) (simp add: append_section_def Cons)
qed

lemma append_section_fold:
  "xs \<noteq> [] \<Longrightarrow> fold (\<lambda>x c. append_section c (f x)) xs c
     = cper_normalize (c\<lparr>cper_sections := cper_sections c @ map f xs\<rparr>)"
proof (cases xs)
  case (Cons y ys)
  then show ?thesis
    using append_section_fold_normalized [of f ys "c\<lparr>cper_sections := cper_sections c @ [f y]\<rparr>"]
    by (simp add: append_section_def [of c])
qed simp

text \<open>What is required of the sections for the record to be representable: the body has the length
  and the type the descriptor states, a firmware error record is of revision 2 or later, and all
  the offsets fit in 32 bits.\<close>

fun section_body_ok :: "'g uguid \<Rightarrow> 'g section_body \<Rightarrow> bool" where
  "section_body_ok G (FirmwareErrorRecord f) \<longleftrightarrow> 2 \<le> fh_revision (fer_header f)"
| "section_body_ok G (UnknownSection g data) \<longleftrightarrow> g \<noteq> FW_ERROR_RECORD G"

definition section_ok :: "'g uguid \<Rightarrow> 'g cper_section \<Rightarrow> bool" where
  "section_ok G s \<longleftrightarrow> section_body_ok G (cs_body s)
     \<and> sd_section_type (cs_descriptor s) = section_body_guid G (cs_body s)
     \<and> section_length s = section_body_len (cs_body s)
     \<and> fru_text_ok (cs_descriptor s)"

lemma section_from_body_ok:
  assumes "section_body_ok G b" and "section_body_len b < 2 ^ 32"
  shows "section_ok G (section_from_body G b)"
    and "section_length (section_from_body G b) = section_body_len b"
  using assms
  by (simp_all add: section_ok_def section_from_body_def fru_text_ok_def descriptor_default_def unat_of_nat_u32)

lemma cs_body_from_body [simp]: "cs_body (section_from_body G b) = b"
  by (simp add: section_from_body_def)

definition cper_size :: "'g cper \<Rightarrow> nat" where
  "cper_size c = RECORD_HEADER_SIZE + SECTION_DESCRIPTOR_SIZE * length (cper_sections c)
     + sum_list (map section_length (cper_sections c))"

definition cper_ok :: "'g uguid \<Rightarrow> 'g cper \<Rightarrow> bool" where
  "cper_ok G c \<longleftrightarrow> (\<forall>s \<in> set (cper_sections c). section_ok G s)
     \<and> length (cper_sections c) < 2 ^ 16 \<and> cper_size c < 2 ^ 32"

lemma cper_normalize_sel:
  "cper_sections (cper_normalize c) = snd (normalize_sections
     (RECORD_HEADER_SIZE + SECTION_DESCRIPTOR_SIZE * length (cper_sections c)) (cper_sections c))"
  "ch_section_count (cper_record_header (cper_normalize c)) = of_nat (length (cper_sections c))"
  "ch_record_length (cper_record_header (cper_normalize c)) = of_nat (cper_size c)"
  by (auto simp: cper_normalize_def Let_def cper_header_normalize_def cper_size_def
      normalize_sections_cursor [symmetric] split: prod.splits)

lemma cper_normalize_header_ok: "cper_header_ok (cper_record_header (cper_normalize c))"
  by (auto simp: cper_normalize_def Let_def cper_header_ok_def split: prod.splits)

lemma cper_normalize_length [simp]: "length (cper_sections (cper_normalize c)) = length (cper_sections c)"
  by (simp add: cper_normalize_sel)

lemma cper_normalize_nth:
  "i < length (cper_sections c) \<Longrightarrow> cper_sections (cper_normalize c) ! i =
     (let s = cper_sections c ! i in
      s\<lparr>cs_descriptor := descriptor_normalize ((cs_descriptor s)\<lparr>sd_section_offset :=
        of_nat (RECORD_HEADER_SIZE + SECTION_DESCRIPTOR_SIZE * length (cper_sections c)
          + sum_list (map section_length (take i (cper_sections c))))\<rparr>)\<rparr>)"
  by (simp add: cper_normalize_sel normalize_sections_nth Let_def)

lemma cper_normalize_size [simp]: "cper_size (cper_normalize c) = cper_size c"
  by (simp add: cper_size_def cper_normalize_sel)

lemma cper_normalize_ok:
  assumes "cper_ok G c"
  shows "cper_ok G (cper_normalize c)"
proof -
  have "section_ok G s" if "s \<in> set (cper_sections (cper_normalize c))" for s
  proof -
    from that obtain i where "i < length (cper_sections c)" "s = cper_sections (cper_normalize c) ! i"
      by (auto simp: in_set_conv_nth)
    with assms show ?thesis
      by (auto simp: cper_normalize_nth Let_def cper_ok_def section_ok_def fru_text_ok_def)
  qed
  with assms show ?thesis by (simp add: cper_ok_def)
qed

context guid_codec
begin

lemma fer_header_length: "length (fer_header_to_bytes G h) = HEADER_REV2_SIZE"
  by (simp add: fer_header_to_bytes_def HEADER_REV2_SIZE_def length_guid)

lemma fer_roundtrip:
  assumes "2 \<le> fh_revision (fer_header f)"
  shows "fer_from_slice G (fer_to_bytes G f) = Some f"
proof -
  obtain e r i g p where f: "f = \<lparr>fer_header = \<lparr>fh_error_type = e, fh_revision = r,
      fh_record_identifier = i, fh_guid = g\<rparr>, fer_payload = p\<rparr>"
    by (cases f, cases "fer_header f") auto
  have "fer_header_from_slice G (fer_to_bytes G f) = Some (fer_header f)"
    using assms unfolding f
    by (simp add: fer_header_from_slice_def fer_to_bytes_def fer_header_to_bytes_def slice_simps
        read_guid_first)
  moreover have "slice_from (fer_to_bytes G f) (fer_header_len (fer_header f)) = Some (fer_payload f)"
    using assms by (simp add: fer_to_bytes_def fer_header_len_def slice_from_skip fer_header_length)
  ultimately show ?thesis by (simp add: fer_from_slice_def)
qed

lemma section_body_bytes_ok:
  assumes "section_ok G s"
  shows "section_body_bytes G s = section_body_to_bytes G (cs_body s)"
    and "length (section_body_bytes G s) = section_length s"
    and "section_body_from_slice G (sd_section_type (cs_descriptor s)) (section_body_bytes G s) = Some (cs_body s)"
proof -
  have len: "length (section_body_to_bytes G (cs_body s)) = section_length s"
    using assms by (cases "cs_body s")
      (auto simp: section_ok_def fer_to_bytes_def fer_header_length fer_header_len_def)
  then show *: "section_body_bytes G s = section_body_to_bytes G (cs_body s)"
    by (simp add: section_body_bytes_def resize_def)
  with len show "length (section_body_bytes G s) = section_length s" by simp
  show "section_body_from_slice G (sd_section_type (cs_descriptor s)) (section_body_bytes G s) = Some (cs_body s)"
    using assms unfolding *
    by (cases "cs_body s") (auto simp: section_ok_def section_body_from_slice_def fer_roundtrip)
qed

lemma length_bodies:
  "\<forall>s \<in> set ss. section_ok G s \<Longrightarrow>
   length (concat (map (section_body_bytes G) ss)) = sum_list (map section_length ss)"
  by (induction ss) (simp_all add: section_body_bytes_ok(2))

lemma descriptors_ok:
  assumes "cper_ok G c" and "cper_normalize c = c"
  shows "\<forall>d \<in> set (map cs_descriptor (cper_sections c)). descriptor_ok d"
proof
  fix d assume "d \<in> set (map cs_descriptor (cper_sections c))"
  then obtain i where i: "i < length (cper_sections c)" "d = cs_descriptor (cper_sections c ! i)"
    by (auto simp: in_set_conv_nth)
  with assms(2) cper_normalize_nth [OF i(1)] have "descriptor_normalize d = d"
    by (metis (no_types, lifting) cper_section.select_convs(1) cper_section.surjective
        cper_section.update_convs(1) descriptor_normalize_idem)
  moreover have "fru_text_ok d"
    using assms(1) i by (auto simp: cper_ok_def section_ok_def)
  ultimately show "descriptor_ok d" by (simp add: descriptor_ok_def)
qed

lemma cper_parts:
  assumes "cper_ok G c" and "cper_normalize c = c"
  shows "length (cper_header_to_bytes G (cper_record_header c)) = RECORD_HEADER_SIZE"
    and "length (concat (map (descriptor_to_bytes G) (map cs_descriptor (cper_sections c))))
      = length (cper_sections c) * SECTION_DESCRIPTOR_SIZE"
    and "length (cper_to_bytes G c) = cper_size c"
proof -
  show h: "length (cper_header_to_bytes G (cper_record_header c)) = RECORD_HEADER_SIZE"
    using cper_normalize_header_ok [of c] assms(2) by (simp add: cper_header.length_enc)
  show d: "length (concat (map (descriptor_to_bytes G) (map cs_descriptor (cper_sections c))))
      = length (cper_sections c) * SECTION_DESCRIPTOR_SIZE"
    using descriptor.length_table [OF descriptors_ok [OF assms]] by simp
  show "length (cper_to_bytes G c) = cper_size c"
    using h d length_bodies [of "cper_sections c"] assms(1)
    by (simp add: cper_to_bytes_def cper_size_def cper_ok_def comp_def mult.commute)
qed

text \<open>The body of section \<open>i\<close> is where its descriptor says, and nothing else is there.\<close>

lemma section_offset_nth:
  assumes "cper_ok G c" and "cper_normalize c = c" and "i < length (cper_sections c)"
  shows "unat (sd_section_offset (cs_descriptor (cper_sections c ! i)))
    = RECORD_HEADER_SIZE + SECTION_DESCRIPTOR_SIZE * length (cper_sections c)
      + sum_list (map section_length (take i (cper_sections c)))"
proof -
  let ?n = "RECORD_HEADER_SIZE + SECTION_DESCRIPTOR_SIZE * length (cper_sections c)
      + sum_list (map section_length (take i (cper_sections c)))"
  have "sum_list (map section_length (take i (cper_sections c))) \<le> sum_list (map section_length (cper_sections c))"
    by (metis append_take_drop_id le_add1 map_append sum_list_append)
  with assms(1) have "?n < 2 ^ 32" by (simp add: cper_ok_def cper_size_def)
  moreover have "sd_section_offset (cs_descriptor (cper_sections c ! i)) = of_nat ?n"
    using cper_normalize_nth [OF assms(3)] unfolding assms(2) Let_def
    by (metis (no_types, lifting) cper_section.select_convs(1) cper_section.surjective
        cper_section.update_convs(1) descriptor_normalize_sel(1) section_descriptor.select_convs(1)
        section_descriptor.surjective section_descriptor.update_convs(1))
  ultimately show ?thesis by (simp only: unat_of_nat_u32)
qed

lemma slice_of_part:
  "i < length xs \<Longrightarrow> slice_get (pre @ concat (map f xs)) (length pre + length (concat (map f (take i xs))))
     (length pre + length (concat (map f (take i xs))) + length (f (xs ! i))) = Some (f (xs ! i))"
proof -
  assume "i < length xs"
  then have "take i xs @ xs ! i # drop (Suc i) xs = xs" by (rule id_take_nth_drop [symmetric])
  then have "concat (map f xs) = concat (map f (take i xs)) @ f (xs ! i) @ concat (map f (drop (Suc i) xs))"
    by (metis concat.simps(2) concat_append list.simps(9) map_append)
  then have eq: "pre @ concat (map f xs) = (pre @ concat (map f (take i xs))) @ f (xs ! i) @ concat (map f (drop (Suc i) xs))"
    by simp
  show ?thesis unfolding eq by (subst slice_get_skip) (simp_all add: slice_get_first)
qed

lemma section_body_slice:
  assumes "cper_ok G c" and "cper_normalize c = c" and "i < length (cper_sections c)"
  shows "slice_get (cper_to_bytes G c) (unat (sd_section_offset (cs_descriptor (cper_sections c ! i))))
      (unat (sd_section_offset (cs_descriptor (cper_sections c ! i))) + section_length (cper_sections c ! i))
    = Some (section_body_bytes G (cper_sections c ! i))"
proof -
  let ?ss = "cper_sections c"
  define pre where "pre = cper_header_to_bytes G (cper_record_header c)
      @ concat (map (descriptor_to_bytes G) (map cs_descriptor ?ss))"
  have pre: "length pre = RECORD_HEADER_SIZE + SECTION_DESCRIPTOR_SIZE * length ?ss"
    using cper_parts [OF assms(1,2)] by (simp add: pre_def)
  have ok: "\<forall>s \<in> set ?ss. section_ok G s" using assms(1) by (simp add: cper_ok_def)
  then have "\<forall>s \<in> set (take i ?ss). section_ok G s" by (auto dest: in_set_takeD)
  then have before: "length (concat (map (section_body_bytes G) (take i ?ss)))
      = sum_list (map section_length (take i ?ss))" by (rule length_bodies)
  have len: "length (section_body_bytes G (?ss ! i)) = section_length (?ss ! i)"
    using ok assms(3) by (simp add: section_body_bytes_ok(2))
  have "cper_to_bytes G c = pre @ concat (map (section_body_bytes G) ?ss)"
    by (simp add: cper_to_bytes_def pre_def comp_def)
  then show ?thesis
    using slice_of_part [OF assms(3), of pre "section_body_bytes G"]
    unfolding section_offset_nth [OF assms] pre before len by simp
qed

lemma read_section_to_bytes:
  assumes "cper_ok G c" and "cper_normalize c = c" and "i < length (cper_sections c)"
  shows "read_section G (cper_to_bytes G c) i = Some (cper_sections c ! i)"
proof -
  let ?ss = "cper_sections c" and ?h = "cper_header_to_bytes G (cper_record_header c)"
  have bytes: "cper_to_bytes G c = ?h @ concat (map (descriptor_to_bytes G) (map cs_descriptor ?ss))
      @ concat (map (section_body_bytes G) ?ss)"
    by (simp add: cper_to_bytes_def comp_def)
  have i: "i < length (map cs_descriptor ?ss)" using assms(3) by simp
  have desc: "descriptor_from_slice G (drop (RECORD_HEADER_SIZE + i * SECTION_DESCRIPTOR_SIZE) (cper_to_bytes G c))
      = Some (cs_descriptor (?ss ! i))"
    using descriptor.dec_table [OF descriptors_ok [OF assms(1,2)] i, of ?h "concat (map (section_body_bytes G) ?ss)"]
      cper_parts(1) [OF assms(1,2)] assms(3) unfolding bytes by simp
  have "i * SECTION_DESCRIPTOR_SIZE \<le> length ?ss * SECTION_DESCRIPTOR_SIZE"
    using assms(3) by (intro mult_le_mono1) simp
  then have "RECORD_HEADER_SIZE + i * SECTION_DESCRIPTOR_SIZE \<le> length (cper_to_bytes G c)"
    unfolding cper_parts(3) [OF assms(1,2)] cper_size_def mult.commute [of SECTION_DESCRIPTOR_SIZE]
    by linarith
  then have "slice_from (cper_to_bytes G c) (RECORD_HEADER_SIZE + i * SECTION_DESCRIPTOR_SIZE)
      = Some (drop (RECORD_HEADER_SIZE + i * SECTION_DESCRIPTOR_SIZE) (cper_to_bytes G c))"
    by (simp add: slice_from_def)
  moreover have "section_body_from_slice G (sd_section_type (cs_descriptor (?ss ! i)))
      (section_body_bytes G (?ss ! i)) = Some (cs_body (?ss ! i))"
    using assms(1,3) by (simp add: cper_ok_def section_body_bytes_ok(3))
  ultimately show ?thesis
    using desc section_body_slice [OF assms] by (simp add: read_section_def Let_def)
qed

lemma cper_roundtrip_normal:
  assumes "cper_ok G c" and "cper_normalize c = c"
  shows "cper_from_slice G (cper_to_bytes G c) = Some c"
proof -
  let ?ss = "cper_sections c" and ?h = "cper_header_to_bytes G (cper_record_header c)"
  have "slice_get (cper_to_bytes G c) 0 RECORD_HEADER_SIZE = Some ?h"
    using cper_parts(1) [OF assms] by (simp add: cper_to_bytes_def slice_get_first)
  moreover have "cper_header_from_slice G ?h = Some (cper_record_header c)"
    using cper_header.dec_enc [of "cper_record_header c" "[]"] cper_normalize_header_ok [of c] assms(2) by simp
  moreover have "unat (ch_section_count (cper_record_header c)) = length ?ss"
  proof -
    have "ch_section_count (cper_record_header c) = of_nat (length ?ss)"
      using cper_normalize_sel(2) [of c] assms(2) by simp
    moreover have "length ?ss < 2 ^ 16" using assms(1) by (simp add: cper_ok_def)
    ultimately show ?thesis by (simp only: unat_of_nat_u16)
  qed
  moreover have "List.map_filter (read_section G (cper_to_bytes G c)) [0..<length ?ss] = ?ss"
  proof -
    have "List.map_filter (read_section G (cper_to_bytes G c)) [0..<length ?ss]
        = map (\<lambda>i. ?ss ! i) [0..<length ?ss]"
      using read_section_to_bytes [OF assms] by (auto simp: List.map_filter_def intro: filter_True)
    then show ?thesis by (simp add: map_nth)
  qed
  moreover have "cper_normalize \<lparr>cper_record_header = cper_record_header c, cper_sections = ?ss\<rparr> = c"
    using assms(2) by (cases c) simp
  ultimately show ?thesis using assms(2) by (simp add: cper_from_slice_def Let_def)
qed

text \<open>A firmware error record of revision 1 has a header of 16 bytes, but \<open>to_bytes\<close> always writes 32.\<close>

lemma fer_rev1_bytes:
  assumes "\<not> 2 \<le> fh_revision (fer_header f)" and "fh_guid (fer_header f) = guid_zero G"
    and "16 + length (fer_payload f) < 2 ^ 32"
  shows "section_body_from_slice G (FW_ERROR_RECORD G)
      (section_body_bytes G (section_from_body G (FirmwareErrorRecord f)))
    = Some (FirmwareErrorRecord (f\<lparr>fer_payload := take (length (fer_payload f)) (replicate 16 0 @ fer_payload f)\<rparr>))"
proof -
  obtain e r i p where f: "f = \<lparr>fer_header = \<lparr>fh_error_type = e, fh_revision = r,
      fh_record_identifier = i, fh_guid = guid_zero G\<rparr>, fer_payload = p\<rparr>"
    using assms(2) by (cases f, cases "fer_header f") auto
  let ?front = "[e, r] @ replicate 6 0 @ to_le_bytes 8 i"
  let ?p = "take (length p) (replicate 16 0 @ p)"
  have "section_length (section_from_body G (FirmwareErrorRecord f)) = 16 + length p"
    using assms(1,3) unfolding f
    by (simp add: section_from_body_def fer_header_len_def HEADER_REV1_SIZE_def unat_of_nat_u32 del: of_nat_add)
  moreover have "section_body_to_bytes G (FirmwareErrorRecord f) = ?front @ replicate 16 0 @ p"
    unfolding f by (simp add: fer_to_bytes_def fer_header_to_bytes_def guid_zero_bytes)
  moreover have "length ?front = 16" by simp
  ultimately have bytes: "section_body_bytes G (section_from_body G (FirmwareErrorRecord f)) = ?front @ ?p"
    by (simp add: section_body_bytes_def resize_def section_from_body_def del: append.simps)
  have "fer_header_from_slice G (?front @ ?p) = Some (fer_header f)"
    using assms(1) unfolding f by (simp add: fer_header_from_slice_def slice_simps)
  moreover have "slice_from (?front @ ?p) (fer_header_len (fer_header f)) = Some ?p"
    using assms(1) \<open>length ?front = 16\<close>
    by (subst slice_from_skip) (simp_all add: f fer_header_len_def HEADER_REV1_SIZE_def)
  ultimately show ?thesis
    unfolding bytes by (simp add: section_body_from_slice_def fer_from_slice_def f)
qed

end

subsection \<open>An instance of the GUID operations\<close>

text \<open>GUIDs as 128-bit words, with the mixed-endian text form, for the evaluation of examples\<close>

fun hex_pairs :: "string \<Rightarrow> bytes" where
  "hex_pairs (a # b # s) = (if a = CHR ''-'' then hex_pairs (b # s)
     else (case (digit_value 16 a, digit_value 16 b) of
        (Some x, Some y) \<Rightarrow> of_nat (16 * x + y) # hex_pairs s | _ \<Rightarrow> hex_pairs s))"
| "hex_pairs _ = []"

definition uguid_word :: "128 word uguid" where
  "uguid_word = \<lparr>guid_from_bytes = from_le_bytes, guid_to_bytes = to_le_bytes 16,
     guid_parse = (\<lambda>s. let b = hex_pairs s in
       from_le_bytes (rev (take 4 b) @ rev (take 2 (drop 4 b)) @ rev (take 2 (drop 6 b)) @ drop 8 b)),
     guid_zero = 0,
     guid_show = (\<lambda>g. show_hex (unat g))\<rparr>"

interpretation guid_word: guid_codec uguid_word
proof unfold_locales
  fix g :: "128 word" and b :: bytes
  show "guid_from_bytes uguid_word (guid_to_bytes uguid_word g) = g"
    by (simp add: uguid_word_def from_to_le_bytes)
  show "length (guid_to_bytes uguid_word g) = 16" by (simp add: uguid_word_def)
  show "guid_to_bytes uguid_word (guid_from_bytes uguid_word b) = b" if "length b = 16"
    using that to_from_le_bytes [of b, where 'a = 128] by (simp add: uguid_word_def)
  show "guid_to_bytes uguid_word (guid_zero uguid_word) = replicate 16 0"
    by (simp add: uguid_word_def) code_simp
qed

subsection \<open>Properties\<close>

text \<open>C19. A CPER that is exported and parsed again is the same record, header, descriptors and section
  bodies alike, as long as its sections are representable (\<open>cper_ok\<close>) and its layout fields are up
  to date, which is what \<open>normalize\<close> establishes.\<close>
theorem cper_export_import:
  assumes "guid_codec G" and "cper_ok G c"
  shows "cper_from_slice G (cper_to_bytes G (cper_normalize c)) = Some (cper_normalize c)"
  using guid_codec.cper_roundtrip_normal [OF assms(1) cper_normalize_ok [OF assms(2)] cper_normalize_idem] .

definition example_cper :: "128 word cper" where
  "example_cper = (cper_default uguid_word)\<lparr>cper_sections :=
     [section_from_crashlog_region uguid_word \<lparr>reg_records = [example_record]\<rparr>,
      section_from_body uguid_word (UnknownSection 5 [1, 2, 3])]\<rparr>"

lemma example_cper_ok: "cper_ok uguid_word example_cper"
  and example_cper_length: "length (cper_sections example_cper) = 2"
  and example_cper_size: "cper_size example_cper = 315"
proof -
  have "FW_ERROR_RECORD uguid_word \<noteq> 5" by code_simp
  moreover have payload: "length (region_to_bytes \<lparr>reg_records = [example_record]\<rparr>) = 8" by code_simp
  ultimately have "\<forall>s \<in> set (cper_sections example_cper). section_ok uguid_word s"
    by (auto simp: example_cper_def section_from_crashlog_region_def fer_from_crashlog_region_def
        fer_header_len_def HEADER_REV2_SIZE_def intro!: section_from_body_ok(1))
  moreover show len: "length (cper_sections example_cper) = 2" by (simp add: example_cper_def)
  moreover show size: "cper_size example_cper = 315"
    using payload by (simp add: cper_size_def len) (simp add: example_cper_def
        section_from_crashlog_region_def section_from_body_def fer_from_crashlog_region_def
        fer_header_len_def HEADER_REV2_SIZE_def RECORD_HEADER_SIZE_def SECTION_DESCRIPTOR_SIZE_def)
  ultimately show "cper_ok uguid_word example_cper" by (simp add: cper_ok_def)
qed

theorem cper_export_import_witness:
  "cper_from_slice uguid_word (cper_to_bytes uguid_word (cper_normalize example_cper))
     = Some (cper_normalize example_cper)"
  using guid_word.guid_codec_axioms example_cper_ok by (rule cper_export_import)

text \<open>C20. The layout of an exported CPER: its length is the record length of the header, the sections
  follow each other without gaps after the descriptor table, and every section body is at the
  offset, and has the length, of its descriptor.\<close>
theorem cper_layout:
  assumes "guid_codec G" and "cper_ok G c"
  defines "n \<equiv> cper_normalize c"
  shows "length (cper_to_bytes G n) = unat (ch_record_length (cper_record_header n))
    \<and> (\<forall>i < length (cper_sections n).
        let s = cper_sections n ! i; offset = unat (sd_section_offset (cs_descriptor s)) in
        slice_get (cper_to_bytes G n) offset (offset + section_length s) = Some (section_body_bytes G s)
        \<and> offset = (if i = 0 then RECORD_HEADER_SIZE + SECTION_DESCRIPTOR_SIZE * length (cper_sections n)
            else let p = cper_sections n ! (i - 1) in
              unat (sd_section_offset (cs_descriptor p)) + section_length p))"
proof -
  have ok: "cper_ok G n" and idem: "cper_normalize n = n"
    using assms(2) by (simp_all add: n_def cper_normalize_ok)
  note facts = guid_codec.section_offset_nth [OF assms(1) ok idem]
  have "ch_record_length (cper_record_header n) = of_nat (cper_size n)" and "cper_size n < 2 ^ 32"
    using ok by (simp_all add: n_def cper_normalize_sel cper_ok_def)
  then have "length (cper_to_bytes G n) = unat (ch_record_length (cper_record_header n))"
    using guid_codec.cper_parts(3) [OF assms(1) ok idem] by (simp add: unat_of_nat_u32)
  moreover have "unat (sd_section_offset (cs_descriptor (cper_sections n ! i)))
      = (if i = 0 then RECORD_HEADER_SIZE + SECTION_DESCRIPTOR_SIZE * length (cper_sections n)
         else unat (sd_section_offset (cs_descriptor (cper_sections n ! (i - 1))))
           + section_length (cper_sections n ! (i - 1)))" if "i < length (cper_sections n)" for i
    using that by (cases i) (simp_all add: facts take_Suc_conv_app_nth)
  moreover note guid_codec.section_body_slice [OF assms(1) ok idem]
  ultimately show ?thesis by (simp add: Let_def)
qed

theorem cper_layout_witness:
  "length (cper_to_bytes uguid_word (cper_normalize example_cper))
     = unat (ch_record_length (cper_record_header (cper_normalize example_cper)))"
  using cper_layout [OF guid_word.guid_codec_axioms example_cper_ok] by (rule conjunct1)

text \<open>\<open>append_section\<close> keeps a record representable and up to date, and adds exactly the given
  section at the end: the bodies of the others are untouched.\<close>
theorem append_section_invariant:
  assumes "cper_ok G c" and "section_ok G s"
    and "length (cper_sections c) + 1 < 2 ^ 16"
    and "cper_size c + SECTION_DESCRIPTOR_SIZE + section_length s < 2 ^ 32"
  shows "cper_ok G (append_section c s) \<and> cper_normalize (append_section c s) = append_section c s
    \<and> map cs_body (cper_sections (append_section c s)) = map cs_body (cper_sections c) @ [cs_body s]"
proof -
  let ?c = "c\<lparr>cper_sections := cper_sections c @ [s]\<rparr>"
  have "cper_ok G ?c" using assms by (auto simp: cper_ok_def cper_size_def)
  moreover have "map cs_body (cper_sections (cper_normalize ?c)) = map cs_body (cper_sections ?c)"
    by (rule nth_equalityI) (auto simp: cper_normalize_nth Let_def nth_append less_Suc_eq)
  ultimately show ?thesis by (simp add: append_section_def cper_normalize_ok)
qed

theorem append_section_invariant_witness:
  "cper_ok uguid_word (append_section example_cper (section_from_body uguid_word (UnknownSection 7 [9])))
   \<and> cper_normalize (append_section example_cper (section_from_body uguid_word (UnknownSection 7 [9])))
     = append_section example_cper (section_from_body uguid_word (UnknownSection 7 [9]))
   \<and> map cs_body (cper_sections (append_section example_cper (section_from_body uguid_word (UnknownSection 7 [9]))))
     = map cs_body (cper_sections example_cper) @ [cs_body (section_from_body uguid_word (UnknownSection 7 [9]))]"
  by (rule append_section_invariant [OF example_cper_ok])
    (code_simp, simp add: example_cper_length, simp add: example_cper_size section_from_body_def
      SECTION_DESCRIPTOR_SIZE_def)

text \<open>A firmware error record of revision 1, which only comes from an imported CPER, does not
  survive the export: its header has 16 bytes but \<open>to_bytes\<close> writes 32, and cutting the result to
  the announced length moves the payload by 16 zero bytes and loses its end.\<close>
theorem fer_revision1_export_shifts_payload:
  assumes "guid_codec G" and "fh_revision (fer_header f) < 2" and "fh_guid (fer_header f) = guid_zero G"
    and "16 + length (fer_payload f) < 2 ^ 32"
  shows "section_body_from_slice G (FW_ERROR_RECORD G)
      (section_body_bytes G (section_from_body G (FirmwareErrorRecord f)))
    = Some (FirmwareErrorRecord (f\<lparr>fer_payload := take (length (fer_payload f)) (replicate 16 0 @ fer_payload f)\<rparr>))"
  using guid_codec.fer_rev1_bytes [OF assms(1) _ assms(3,4)] assms(2) by (simp add: not_le)

theorem fer_revision1_export_shifts_payload_witness:
  "section_body_from_slice uguid_word (FW_ERROR_RECORD uguid_word) (section_body_bytes uguid_word
     (section_from_body uguid_word (FirmwareErrorRecord \<lparr>fer_header = \<lparr>fh_error_type = 2, fh_revision = 1,
        fh_record_identifier = 0, fh_guid = 0\<rparr>, fer_payload = [7, 8]\<rparr>)))
   = Some (FirmwareErrorRecord \<lparr>fer_header = \<lparr>fh_error_type = 2, fh_revision = 1,
        fh_record_identifier = 0, fh_guid = 0\<rparr>, fer_payload = [0, 0]\<rparr>)"
  using fer_revision1_export_shifts_payload [OF guid_word.guid_codec_axioms,
      of "\<lparr>fer_header = \<lparr>fh_error_type = 2, fh_revision = 1, fh_record_identifier = 0, fh_guid = 0\<rparr>,
        fer_payload = [7, 8]\<rparr>"]
  by (simp add: uguid_word_def)

text \<open>The value of a BCD byte\<close>
definition bcd_value :: "u8 \<Rightarrow> nat" where
  "bcd_value b = 10 * unat (drop_bit 4 b) + unat (b AND 0xF)"

lemma nibbles:
  fixes x y :: u8
  assumes "take_bit 4 x = x" and "take_bit 4 y = y"
  shows "drop_bit 4 (push_bit 4 x OR y) = x" and "(push_bit 4 x OR y) AND 0xF = y"
proof -
  have x: "\<not> bit x (4 + n)" and y: "\<not> bit y (4 + n)" for n
    using assms by (metis bit_take_bit_iff not_add_less1)+
  show "drop_bit 4 (push_bit 4 x OR y) = x"
  proof (rule bit_word_eqI)
    fix n assume "n < LENGTH(8)"
    then consider "n < 4" | "4 \<le> n" by linarith
    then show "bit (drop_bit 4 (push_bit 4 x OR y)) n = bit x n"
      using x [of "n - 4"] y by cases (simp_all add: bit_simps)
  qed
  have "(push_bit 4 x OR y) AND 0xF = take_bit 4 (push_bit 4 x OR y)"
    by (simp add: take_bit_eq_mask mask_eq_exp_minus_1)
  also have "\<dots> = y"
    by (rule bit_word_eqI) (metis assms(2) bit_or_iff bit_push_bit_iff bit_take_bit_iff not_le)
  finally show "(push_bit 4 x OR y) AND 0xF = y" .
qed

lemma bin_to_bcd_value:
  assumes "unat b < 100"
  shows "bcd_value (bin_to_bcd b) = unat b"
proof -
  have "unat (b div 10) < 10" and "unat (b mod 10) < 10" using assms by (simp_all add: unat_div unat_mod)
  moreover have small: "take_bit 4 w = w" if "unat w < 10" for w :: u8
    using that by (simp add: word_unat_eq_iff unsigned_take_bit_eq take_bit_nat_eq_self)
  ultimately have "drop_bit 4 (bin_to_bcd b) = b div 10" and "bin_to_bcd b AND 0xF = b mod 10"
    unfolding bin_to_bcd_def by (blast intro: nibbles)+
  then have "bcd_value (bin_to_bcd b) = 10 * unat (b div 10) + unat (b mod 10)"
    by (simp add: bcd_value_def)
  then show ?thesis by (simp add: unat_div unat_mod)
qed

text \<open>The time stamp of an exported record is the extraction time in binary-coded decimal: century
  and year give the full year back, and every other field its number.\<close>
theorem timestamp_is_bcd_of_time:
  assumes "tm_year t < 10000" and "tm_month t < 100" and "tm_day t < 100" and "tm_hour t < 100"
    and "tm_minute t < 100"
  defines "ts \<equiv> timestamp_from_crashlog_metadata t"
  shows "100 * bcd_value (ts_century ts) + bcd_value (ts_year ts) = unat (tm_year t)
    \<and> bcd_value (ts_month ts) = unat (tm_month t) \<and> bcd_value (ts_day ts) = unat (tm_day t)
    \<and> bcd_value (ts_hours ts) = unat (tm_hour t) \<and> bcd_value (ts_minutes ts) = unat (tm_minute t)
    \<and> ts_seconds ts = 0 \<and> \<not> ts_precise ts"
proof -
  have year: "unat (tm_year t) < 10000" using assms(1) by (simp add: word_less_nat_alt)
  then have "unat (ucast (tm_year t div 100) :: u8) = unat (tm_year t) div 100"
    and "unat (ucast (tm_year t mod 100) :: u8) = unat (tm_year t) mod 100"
    by (simp_all add: unat_div unat_mod unsigned_ucast_eq take_bit_eq_mod)
  moreover have "unat (tm_year t) div 100 < 100" using year by simp
  ultimately show ?thesis
    using assms(2-5)
    by (simp add: ts_def timestamp_from_crashlog_metadata_def timestamp_default_def bin_to_bcd_value
        word_less_nat_alt)
qed

theorem timestamp_is_bcd_of_time_witness:
  "let t = \<lparr>tm_year = 2025, tm_month = 6, tm_day = 30, tm_hour = 23, tm_minute = 59\<rparr>;
       ts = timestamp_from_crashlog_metadata t in
   100 * bcd_value (ts_century ts) + bcd_value (ts_year ts) = 2025 \<and> bcd_value (ts_minutes ts) = 59"
  using timestamp_is_bcd_of_time [of "\<lparr>tm_year = 2025, tm_month = 6, tm_day = 30, tm_hour = 23, tm_minute = 59\<rparr>"]
  by (simp add: Let_def)

end
