(* ===== verification/Bert.thy ===== *)
theory Bert
  imports Cper
begin

text \<open>
  The ACPI Boot Error Record Table and the Boot Error Region: \<open>lib/src/bert.rs\<close> and
  \<open>lib/src/bert/berr.rs\<close>. \<open>SdtHeader\<close> of the crate \<open>acpi\<close> is the record of the fields the code
  names, 36 bytes long; its signature is the one \<open>to_bytes\<close> writes. A boot error region is a status
  block of 20 bytes followed by data entries, each a header, of 64 or 72 bytes depending on its
  revision, and a CPER section body.
\<close>

subsection \<open>The status block\<close>

record status_block =
  gesb_block_status :: u32
  gesb_raw_data_offset :: u32
  gesb_raw_data_length :: u32
  gesb_data_length :: u32
  gesb_error_severity :: u32

definition status_block_default :: status_block where
  "status_block_default = \<lparr>gesb_block_status = 0, gesb_raw_data_offset = 0, gesb_raw_data_length = 0,
     gesb_data_length = 0, gesb_error_severity = 0\<rparr>"

definition status_block_from_slice :: "bytes \<Rightarrow> status_block option" where
  "status_block_from_slice s = do {
     block_status \<leftarrow> read_u32 s 0 4;
     raw_data_offset \<leftarrow> read_u32 s 4 8;
     raw_data_length \<leftarrow> read_u32 s 8 12;
     data_length \<leftarrow> read_u32 s 12 16;
     error_severity \<leftarrow> read_u32 s 16 20;
     Some \<lparr>gesb_block_status = block_status, gesb_raw_data_offset = raw_data_offset,
       gesb_raw_data_length = raw_data_length, gesb_data_length = data_length,
       gesb_error_severity = error_severity\<rparr> }"

definition status_block_to_bytes :: "status_block \<Rightarrow> bytes" where
  "status_block_to_bytes b = to_le_bytes 4 (gesb_block_status b)
     @ to_le_bytes 4 (gesb_raw_data_offset b) @ to_le_bytes 4 (gesb_raw_data_length b)
     @ to_le_bytes 4 (gesb_data_length b) @ to_le_bytes 4 (gesb_error_severity b)"

text \<open>\<open>mem::size_of::<GenericErrorStatusBlock>()\<close>\<close>
definition STATUS_BLOCK_SIZE :: nat where "STATUS_BLOCK_SIZE = 20"

interpretation status_block: fixed_codec status_block_to_bytes status_block_from_slice
  STATUS_BLOCK_SIZE "\<lambda>_. True"
  by unfold_locales (simp_all add: status_block_to_bytes_def status_block_from_slice_def
      STATUS_BLOCK_SIZE_def slice_simps)

subsection \<open>Data entries\<close>

record 'g data_entry_header =
  deh_section :: 'g
  deh_error_severity :: u32
  deh_revision :: u16
  deh_validation_bits :: u8
  deh_flags :: u8
  deh_error_data_length :: u32
  deh_fru_id :: bytes
  deh_fru_text :: bytes
  deh_timestamp :: u64

definition data_entry_header_default :: "'g uguid \<Rightarrow> 'g data_entry_header" where
  "data_entry_header_default G = \<lparr>deh_section = guid_zero G, deh_error_severity = 0, deh_revision = 0,
     deh_validation_bits = 0, deh_flags = 0, deh_error_data_length = 0, deh_fru_id = replicate 16 0,
     deh_fru_text = replicate 20 0, deh_timestamp = 0\<rparr>"

definition data_entry_header_from_slice :: "'g uguid \<Rightarrow> bytes \<Rightarrow> 'g data_entry_header option" where
  "data_entry_header_from_slice G s = do {
     revision \<leftarrow> read_u16 s 20 22;
     sec \<leftarrow> read_guid G s 0 16;
     error_severity \<leftarrow> read_u32 s 16 20;
     validation_bits \<leftarrow> slice_at s 22;
     flags \<leftarrow> slice_at s 23;
     error_data_length \<leftarrow> read_u32 s 24 28;
     f \<leftarrow> slice_get s 28 44;
     fru_id \<leftarrow> try_into 16 f;
     t \<leftarrow> slice_get s 44 64;
     fru_text \<leftarrow> try_into 20 t;
     timestamp \<leftarrow> (if revision \<ge> 0x300 then read_u64 s 64 72 else Some 0);
     Some \<lparr>deh_section = sec, deh_error_severity = error_severity, deh_revision = revision,
       deh_validation_bits = validation_bits, deh_flags = flags,
       deh_error_data_length = error_data_length, deh_fru_id = fru_id, deh_fru_text = fru_text,
       deh_timestamp = timestamp\<rparr> }"

definition data_entry_header_to_bytes :: "'g uguid \<Rightarrow> 'g data_entry_header \<Rightarrow> bytes" where
  "data_entry_header_to_bytes G h = guid_to_bytes G (deh_section h)
     @ to_le_bytes 4 (deh_error_severity h) @ to_le_bytes 2 (deh_revision h)
     @ [deh_validation_bits h, deh_flags h] @ to_le_bytes 4 (deh_error_data_length h)
     @ deh_fru_id h @ deh_fru_text h
     @ (if deh_revision h \<ge> 0x300 then to_le_bytes 8 (deh_timestamp h) else [])"

text \<open>\<open>mem::size_of::<GenericErrorDataEntryHeader>()\<close>, a packed structure\<close>
definition DATA_ENTRY_HEADER_SIZE :: nat where "DATA_ENTRY_HEADER_SIZE = 72"

definition data_entry_header_size :: "'g data_entry_header \<Rightarrow> nat" where
  "data_entry_header_size h =
     (if deh_revision h \<ge> 0x300 then DATA_ENTRY_HEADER_SIZE else DATA_ENTRY_HEADER_SIZE - 8)"

record 'g data_entry =
  de_header :: "'g data_entry_header"
  de_cper_section :: "'g section_body"

definition data_entry_from_slice :: "'g uguid \<Rightarrow> bytes \<Rightarrow> 'g data_entry option" where
  "data_entry_from_slice G s = do {
     header \<leftarrow> data_entry_header_from_slice G s;
     body \<leftarrow> slice_get s (data_entry_header_size header)
       (data_entry_header_size header + unat (deh_error_data_length header));
     cper_section \<leftarrow> section_body_from_slice G (deh_section header) body;
     Some \<lparr>de_header = header, de_cper_section = cper_section\<rparr> }"

definition data_entry_to_bytes :: "'g uguid \<Rightarrow> 'g data_entry \<Rightarrow> bytes" where
  "data_entry_to_bytes G e =
     (let cper_section = section_body_to_bytes G (de_cper_section e);
          header = (de_header e)\<lparr>deh_error_data_length := of_nat (length cper_section)\<rparr>
      in data_entry_header_to_bytes G header @ cper_section)"

definition data_entry_size :: "'g data_entry \<Rightarrow> nat" where
  "data_entry_size e = data_entry_header_size (de_header e) + unat (deh_error_data_length (de_header e))"

subsection \<open>The boot error region\<close>

record 'g berr =
  berr_header :: status_block
  berr_entries :: "'g data_entry list"

lemma data_entry_size_pos: "64 \<le> data_entry_size e"
  by (simp add: data_entry_size_def data_entry_header_size_def DATA_ENTRY_HEADER_SIZE_def)

text \<open>The loop of \<open>Berr::from_slice\<close>. \<open>None\<close> is the early return of \<open>s.get(ptr..end)?\<close>.\<close>

function berr_loop :: "'g uguid \<Rightarrow> bytes \<Rightarrow> nat \<Rightarrow> nat \<Rightarrow> 'g data_entry list \<Rightarrow> 'g data_entry list option" where
  "berr_loop G s ptr stop entries =
     (case slice_get s ptr stop of
        None \<Rightarrow> None
      | Some sl \<Rightarrow>
          (case data_entry_from_slice G sl of
             None \<Rightarrow> Some entries
           | Some entry \<Rightarrow>
               (let ptr' = ptr + data_entry_size entry; entries' = entries @ [entry] in
                if ptr' \<ge> stop then Some entries' else berr_loop G s ptr' stop entries')))"
  by pat_completeness auto
termination
proof (relation "measure (\<lambda>(G, s, ptr, stop, entries). stop - ptr)", goal_cases)
  case 1
  show ?case by simp
next
  case (2 G s ptr stop entries sl entry ptr' entries')
  with data_entry_size_pos [of entry] show ?case by simp
qed

declare berr_loop.simps [simp del]

definition berr_from_slice :: "'g uguid \<Rightarrow> bytes \<Rightarrow> 'g berr option" where
  "berr_from_slice G s = do {
     header \<leftarrow> status_block_from_slice s;
     let ptr = STATUS_BLOCK_SIZE;
     let stop = ptr + unat (gesb_data_length header);
     entries \<leftarrow> berr_loop G s ptr stop [];
     Some \<lparr>berr_header = header, berr_entries = entries\<rparr> }"

text \<open>The loop of \<open>Berr::to_bytes\<close>: the data length, a wrapping sum, and the payload\<close>
definition berr_payload :: "'g uguid \<Rightarrow> 'g data_entry list \<Rightarrow> u32 \<times> bytes" where
  "berr_payload G entries = fold (\<lambda>entry (len, payload).
     let bytes = data_entry_to_bytes G entry in (len + of_nat (length bytes), payload @ bytes))
     entries (0, [])"

definition berr_to_bytes :: "'g uguid \<Rightarrow> 'g berr \<Rightarrow> bytes" where
  "berr_to_bytes G b = (let (len, payload) = berr_payload G (berr_entries b) in
     status_block_to_bytes ((berr_header b)\<lparr>gesb_data_length := len\<rparr>) @ payload)"

subsection \<open>The table\<close>

record sdt_header =
  sdt_length :: u32
  sdt_revision :: u8
  sdt_checksum :: u8
  sdt_oem_id :: bytes
  sdt_oem_table_id :: bytes
  sdt_oem_revision :: u32
  sdt_creator_id :: u32
  sdt_creator_revision :: u32

record bert =
  bert_header :: sdt_header
  bert_region_length :: u32
  bert_region :: u64

definition bert_dummy :: bert where
  "bert_dummy = \<lparr>bert_header = \<lparr>sdt_length = 0, sdt_revision = 0, sdt_checksum = 0,
       sdt_oem_id = replicate 6 0, sdt_oem_table_id = replicate 8 0, sdt_oem_revision = 0,
       sdt_creator_id = 0, sdt_creator_revision = 0\<rparr>,
     bert_region_length = 0, bert_region = 0\<rparr>"

text \<open>\<open>b"BERT"\<close> and \<open>b"BERR"\<close>\<close>
definition BERT_SIGNATURE :: bytes where "BERT_SIGNATURE = [0x42, 0x45, 0x52, 0x54]"
definition BERR_SIGNATURE :: bytes where "BERR_SIGNATURE = [0x42, 0x45, 0x52, 0x52]"

text \<open>\<open>mem::size_of::<Bert>()\<close>: the 36 bytes of \<open>SdtHeader\<close> and two fields\<close>
definition BERT_SIZE :: nat where "BERT_SIZE = 48"

definition bert_to_bytes :: "bert \<Rightarrow> bytes" where
  "bert_to_bytes b = BERT_SIGNATURE @ to_le_bytes 4 (sdt_length (bert_header b))
     @ [sdt_revision (bert_header b), sdt_checksum (bert_header b)]
     @ sdt_oem_id (bert_header b) @ sdt_oem_table_id (bert_header b)
     @ to_le_bytes 4 (sdt_oem_revision (bert_header b)) @ to_le_bytes 4 (sdt_creator_id (bert_header b))
     @ to_le_bytes 4 (sdt_creator_revision (bert_header b))
     @ to_le_bytes 4 (bert_region_length b) @ to_le_bytes 8 (bert_region b)"

definition berr_from_bert_file :: "'g uguid \<Rightarrow> bytes \<Rightarrow> 'g berr option" where
  "berr_from_bert_file G s =
     (if starts_with s BERR_SIGNATURE then do { r \<leftarrow> slice_from s 4; berr_from_slice G r }
      else if starts_with s BERT_SIGNATURE then do { r \<leftarrow> slice_from s BERT_SIZE; berr_from_slice G r }
      else None)"

subsection \<open>Round trips\<close>

text \<open>What is required of an entry to be representable\<close>
definition data_entry_ok :: "'g uguid \<Rightarrow> 'g data_entry \<Rightarrow> bool" where
  "data_entry_ok G e \<longleftrightarrow>
     length (deh_fru_id (de_header e)) = 16 \<and> length (deh_fru_text (de_header e)) = 20
     \<and> (deh_revision (de_header e) < 0x300 \<longrightarrow> deh_timestamp (de_header e) = 0)
     \<and> deh_section (de_header e) = section_body_guid G (de_cper_section e)
     \<and> section_body_ok G (de_cper_section e)
     \<and> unat (deh_error_data_length (de_header e)) = section_body_len (de_cper_section e)"

context guid_codec
begin

lemma section_body_roundtrip:
  assumes "section_body_ok G b"
  shows "section_body_from_slice G (section_body_guid G b) (section_body_to_bytes G b) = Some b"
    and "length (section_body_to_bytes G b) = section_body_len b"
proof -
  show "section_body_from_slice G (section_body_guid G b) (section_body_to_bytes G b) = Some b"
    using assms by (cases b) (simp_all add: section_body_from_slice_def fer_roundtrip)
  show "length (section_body_to_bytes G b) = section_body_len b"
    using assms by (cases b) (simp_all add: fer_to_bytes_def fer_header_length fer_header_len_def)
qed

lemma data_entry_header_roundtrip:
  assumes "length (deh_fru_id h) = 16" and "length (deh_fru_text h) = 20"
    and "deh_revision h < 0x300 \<longrightarrow> deh_timestamp h = 0"
  shows "data_entry_header_from_slice G (data_entry_header_to_bytes G h @ rest) = Some h"
    and "length (data_entry_header_to_bytes G h) = data_entry_header_size h"
proof -
  obtain sec sev rev vb fl dl fi ft ts where h: "h = \<lparr>deh_section = sec, deh_error_severity = sev,
      deh_revision = rev, deh_validation_bits = vb, deh_flags = fl, deh_error_data_length = dl,
      deh_fru_id = fi, deh_fru_text = ft, deh_timestamp = ts\<rparr>" by (cases h)
  show "data_entry_header_from_slice G (data_entry_header_to_bytes G h @ rest) = Some h"
  proof (cases "0x300 \<le> rev")
    case True
    with assms(1,2) show ?thesis
      unfolding h by (simp add: data_entry_header_from_slice_def data_entry_header_to_bytes_def
          slice_simps length_guid read_guid_first)
  next
    case False
    with assms(3) have "ts = 0" unfolding h by (simp add: not_le)
    with False assms(1,2) show ?thesis
      unfolding h by (simp add: data_entry_header_from_slice_def data_entry_header_to_bytes_def
          slice_simps length_guid read_guid_first)
  qed
  show "length (data_entry_header_to_bytes G h) = data_entry_header_size h"
    using assms unfolding h
    by (simp add: data_entry_header_to_bytes_def data_entry_header_size_def DATA_ENTRY_HEADER_SIZE_def length_guid)
qed

lemma data_entry_roundtrip:
  assumes ok: "data_entry_ok G e"
  shows "data_entry_from_slice G (data_entry_to_bytes G e @ rest) = Some e"
    and "length (data_entry_to_bytes G e) = data_entry_size e"
proof -
  let ?h = "de_header e" and ?b = "de_cper_section e"
  have body: "section_body_from_slice G (deh_section ?h) (section_body_to_bytes G ?b) = Some ?b"
    and len: "length (section_body_to_bytes G ?b) = unat (deh_error_data_length ?h)"
    using ok section_body_roundtrip [of ?b] by (simp_all add: data_entry_ok_def)
  have "of_nat (length (section_body_to_bytes G ?b)) = deh_error_data_length ?h"
    unfolding len by simp
  then have "?h\<lparr>deh_error_data_length := of_nat (length (section_body_to_bytes G ?b))\<rparr> = ?h" by simp
  then have bytes: "data_entry_to_bytes G e = data_entry_header_to_bytes G ?h @ section_body_to_bytes G ?b"
    by (simp add: data_entry_to_bytes_def Let_def)
  have hdr: "data_entry_header_from_slice G (data_entry_header_to_bytes G ?h @ r) = Some ?h"
    and hlen: "length (data_entry_header_to_bytes G ?h) = data_entry_header_size ?h" for r
    using ok data_entry_header_roundtrip [of ?h] by (simp_all add: data_entry_ok_def)
  show "data_entry_from_slice G (data_entry_to_bytes G e @ rest) = Some e"
    using hdr body by (simp add: data_entry_from_slice_def bytes slice_get_skip hlen slice_get_first len)
  show "length (data_entry_to_bytes G e) = data_entry_size e"
    by (simp add: bytes hlen len data_entry_size_def)
qed

lemma berr_loop_entries:
  assumes "\<forall>e \<in> set es. data_entry_ok G e"
  shows "berr_loop G (pre @ concat (map (data_entry_to_bytes G) es) @ rest) (length pre)
      (length pre + sum_list (map data_entry_size es)) acc = Some (acc @ es)"
  using assms
proof (induction es arbitrary: pre acc)
  case Nil
  have "data_entry_from_slice G [] = None"
    by (simp add: data_entry_from_slice_def data_entry_header_from_slice_def read_le_eq)
  then show ?case by (subst berr_loop.simps) (simp add: slice_get_skip slice_get_def)
next
  case (Cons e es)
  let ?s = "pre @ concat (map (data_entry_to_bytes G) (e # es)) @ rest"
  let ?stop = "length pre + sum_list (map data_entry_size (e # es))"
  have len: "length (data_entry_to_bytes G x) = data_entry_size x" if "x \<in> set (e # es)" for x
    using Cons.prems that by (intro data_entry_roundtrip(2)) blast
  have total: "length (concat (map (data_entry_to_bytes G) (e # es))) = sum_list (map data_entry_size (e # es))"
    using len by (simp add: length_concat comp_def cong: map_cong)
  have sl: "slice_get ?s (length pre) ?stop = Some (concat (map (data_entry_to_bytes G) (e # es)))"
    using total by (simp only: slice_get_skip slice_get_first le_add1 diff_self_eq_0 diff_add_inverse order_refl)
  have "data_entry_from_slice G (data_entry_to_bytes G e @ concat (map (data_entry_to_bytes G) es)) = Some e"
    using Cons.prems by (simp add: data_entry_roundtrip(1))
  then have entry: "data_entry_from_slice G (concat (map (data_entry_to_bytes G) (e # es))) = Some e" by simp
  show ?case
  proof (cases "es = []")
    case True
    then show ?thesis using sl entry by (subst berr_loop.simps) simp
  next
    case False
    then have "0 < sum_list (map data_entry_size es)"
      using data_entry_size_pos [of "hd es"] by (cases es) simp_all
    then have "\<not> ?stop \<le> length pre + data_entry_size e"
      unfolding list.map sum_list.Cons by linarith
    then have "berr_loop G ?s (length pre) ?stop acc = berr_loop G ?s (length pre + data_entry_size e) ?stop (acc @ [e])"
      using sl entry by (subst berr_loop.simps) (auto simp: Let_def)
    also have "\<dots> = Some ((acc @ [e]) @ es)"
      using Cons.IH [of "pre @ data_entry_to_bytes G e" "acc @ [e]"] Cons.prems len [of e]
      by (simp add: add.assoc)
    finally show ?thesis by simp
  qed
qed

lemma berr_payload_eq:
  "berr_payload G es = (of_nat (length (concat (map (data_entry_to_bytes G) es))),
     concat (map (data_entry_to_bytes G) es))"
proof -
  have "fold (\<lambda>entry (len, payload). let bytes = data_entry_to_bytes G entry in
        (len + of_nat (length bytes), payload @ bytes)) es (l, p)
      = (l + of_nat (length (concat (map (data_entry_to_bytes G) es))),
         p @ concat (map (data_entry_to_bytes G) es))" for l :: u32 and p
    by (induction es arbitrary: l p) (simp_all add: Let_def add.assoc)
  then show ?thesis by (simp add: berr_payload_def)
qed

lemma berr_roundtrip:
  assumes "\<forall>e \<in> set (berr_entries b). data_entry_ok G e"
    and "sum_list (map data_entry_size (berr_entries b)) < 2 ^ 32"
  shows "berr_from_slice G (berr_to_bytes G b @ rest) = Some (b\<lparr>berr_header := (berr_header b)
      \<lparr>gesb_data_length := of_nat (sum_list (map data_entry_size (berr_entries b)))\<rparr>\<rparr>)"
proof -
  let ?es = "berr_entries b" and ?n = "sum_list (map data_entry_size (berr_entries b))"
  let ?h = "(berr_header b)\<lparr>gesb_data_length := of_nat ?n\<rparr>"
  have "length (concat (map (data_entry_to_bytes G) ?es)) = ?n"
    using assms(1) by (simp add: length_concat comp_def data_entry_roundtrip(2) cong: map_cong)
  then have bytes: "berr_to_bytes G b @ rest
      = status_block_to_bytes ?h @ concat (map (data_entry_to_bytes G) ?es) @ rest"
    by (simp add: berr_to_bytes_def berr_payload_eq)
  have len: "length (status_block_to_bytes ?h) = STATUS_BLOCK_SIZE" by (rule status_block.length_enc) simp
  have "unat (gesb_data_length ?h) = ?n" using assms(2) by (simp add: unat_of_nat_u32)
  then show ?thesis
    using berr_loop_entries [OF assms(1), of "status_block_to_bytes ?h" rest "[]"]
    unfolding bytes len by (simp add: berr_from_slice_def status_block.dec_enc Let_def)
qed

end

lemma berr_loop_None_iff:
  "ptr \<le> stop \<Longrightarrow> berr_loop G s ptr stop acc = None \<longleftrightarrow> length s < stop"
proof (induction G s ptr stop acc rule: berr_loop.induct)
  case (1 G s ptr stop acc)
  show ?case
  proof (cases "slice_get s ptr stop")
    case None
    then have "length s < stop" using "1.prems" by (auto simp: slice_get_None_iff)
    with None show ?thesis by (subst berr_loop.simps) simp
  next
    case sl: (Some sl)
    then have long: "\<not> length s < stop" by (auto simp: slice_get_Some_iff)
    show ?thesis
    proof (cases "data_entry_from_slice G sl")
      case None
      with sl long show ?thesis by (subst berr_loop.simps) simp
    next
      case (Some e)
      with sl long "1.IH" [OF sl Some refl refl] show ?thesis
        by (subst berr_loop.simps) (auto simp: Let_def)
    qed
  qed
qed

lemma bert_length:
  "length (sdt_oem_id (bert_header b)) = 6 \<Longrightarrow> length (sdt_oem_table_id (bert_header b)) = 8 \<Longrightarrow>
   length (bert_to_bytes b) = BERT_SIZE"
  by (simp add: bert_to_bytes_def BERT_SIZE_def BERT_SIGNATURE_def)

lemma berr_from_bert_file_bert:
  assumes "length (sdt_oem_id (bert_header b)) = 6" and "length (sdt_oem_table_id (bert_header b)) = 8"
  shows "berr_from_bert_file G (bert_to_bytes b @ s) = berr_from_slice G s"
proof -
  have "slice_from (bert_to_bytes b @ s) BERT_SIZE = Some s"
    using bert_length [OF assms] by (rule slice_from_skip)
  moreover have "starts_with (bert_to_bytes b @ s) BERT_SIGNATURE"
    and "\<not> starts_with (bert_to_bytes b @ s) BERR_SIGNATURE"
    by (simp_all add: bert_to_bytes_def starts_with_def BERT_SIGNATURE_def BERR_SIGNATURE_def)
  ultimately show ?thesis by (simp add: berr_from_bert_file_def)
qed

subsection \<open>Properties\<close>

text \<open>A BERT file that is exported, the table followed by the boot error region, is read back as the
  same entries and status block, whose data length is the size of the entries.\<close>
theorem bert_file_export_import:
  assumes "guid_codec G" and "\<forall>e \<in> set (berr_entries r). data_entry_ok G e"
    and "sum_list (map data_entry_size (berr_entries r)) < 2 ^ 32"
    and "length (sdt_oem_id (bert_header b)) = 6" and "length (sdt_oem_table_id (bert_header b)) = 8"
  shows "berr_from_bert_file G (bert_to_bytes b @ berr_to_bytes G r @ rest) = Some (r\<lparr>berr_header := (berr_header r)
      \<lparr>gesb_data_length := of_nat (sum_list (map data_entry_size (berr_entries r)))\<rparr>\<rparr>)"
  unfolding berr_from_bert_file_bert [OF assms(4,5)]
  using guid_codec.berr_roundtrip [OF assms(1-3)] .

definition example_entry :: "128 word data_entry" where
  "example_entry = \<lparr>de_header = (data_entry_header_default uguid_word)\<lparr>deh_section := 5,
     deh_error_data_length := 3\<rparr>, de_cper_section = UnknownSection 5 [1, 2, 3]\<rparr>"

lemma example_entry_ok: "data_entry_ok uguid_word example_entry"
  by code_simp

theorem bert_file_export_import_witness:
  "berr_from_bert_file uguid_word (bert_to_bytes bert_dummy @ berr_to_bytes uguid_word
       \<lparr>berr_header = status_block_default, berr_entries = [example_entry]\<rparr> @ [])
   = Some \<lparr>berr_header = status_block_default\<lparr>gesb_data_length := 67\<rparr>, berr_entries = [example_entry]\<rparr>"
proof -
  have size: "data_entry_size example_entry = 67" by code_simp
  show ?thesis
    using bert_file_export_import [OF guid_word.guid_codec_axioms,
        of "\<lparr>berr_header = status_block_default, berr_entries = [example_entry]\<rparr>" bert_dummy "[]"]
    by (simp add: example_entry_ok size) (simp add: bert_dummy_def)
qed

text \<open>Parsing a boot error region fails exactly when the status block, or the data length it
  announces, exceeds the slice; entries that cannot be parsed only end the list.\<close>
theorem berr_from_slice_fails_iff:
  "berr_from_slice G s = None \<longleftrightarrow>
     length s < STATUS_BLOCK_SIZE
     \<or> length s < STATUS_BLOCK_SIZE + unat (from_le_bytes (take 4 (drop 12 s)) :: u32)"
  by (auto simp: berr_from_slice_def status_block_from_slice_def read_le_eq STATUS_BLOCK_SIZE_def
      berr_loop_None_iff bind_Some_None_iff Let_def)

end
