(* ===== verification/Source.thy ===== *)
theory Source
  imports RustString
begin

text \<open>
  Names of the crash log sources: \<open>lib/src/source.rs\<close> (the type, its text form and its parser),
  \<open>lib/src/source/capability.rs\<close>, \<open>lib/src/source/pmt.rs\<close> (device identifiers) and
  \<open>lib/src/source/pmt/bdf.rs\<close>.
\<close>

subsection \<open>Capabilities\<close>

datatype capability = Extract | Trigger | EnableDisable | Clear

fun capability_show :: "capability \<Rightarrow> string" where
  "capability_show Extract = ''extract''"
| "capability_show Trigger = ''trigger''"
| "capability_show EnableDisable = ''enable/disable''"
| "capability_show Clear = ''clear''"

text \<open>The derived order: the order of declaration\<close>
fun capability_rank :: "capability \<Rightarrow> nat" where
  "capability_rank Extract = 0"
| "capability_rank Trigger = 1"
| "capability_rank EnableDisable = 2"
| "capability_rank Clear = 3"

lemma capability_rank_inj: "capability_rank a = capability_rank b \<longleftrightarrow> a = b"
  by (cases a; cases b) simp_all

instantiation capability :: linorder
begin

definition less_eq_capability :: "capability \<Rightarrow> capability \<Rightarrow> bool" where
  "a \<le> b \<longleftrightarrow> capability_rank a \<le> capability_rank b"

definition less_capability :: "capability \<Rightarrow> capability \<Rightarrow> bool" where
  "a < b \<longleftrightarrow> capability_rank a < capability_rank b"

instance
  by standard (auto simp: less_eq_capability_def less_capability_def capability_rank_inj)

end

text \<open>\<open>BTreeSet<Capability>\<close>, iterated in order\<close>
type_synonym capabilities = "capability set"

subsection \<open>PCI addresses\<close>

record pci_bdf =
  bdf_segment :: u16
  bdf_bus :: u8
  bdf_device :: u8
  bdf_function :: u8

definition pci_bdf_new :: "u16 \<Rightarrow> u8 \<Rightarrow> u8 \<Rightarrow> u8 \<Rightarrow> pci_bdf" where
  "pci_bdf_new s b d f = \<lparr>bdf_segment = s, bdf_bus = b, bdf_device = d, bdf_function = f\<rparr>"

text \<open>\<open>u8::from_str_radix(s, 16)\<close> and \<open>u16::from_str_radix(s, 16)\<close>\<close>
definition parse_hex :: "string \<Rightarrow> 'a::len word option" where
  "parse_hex s = (case from_str_radix 16 (2 ^ LENGTH('a)) s of Inl _ \<Rightarrow> None | Inr n \<Rightarrow> Some (of_nat n))"

definition pci_bdf_from_pci_device :: "string \<Rightarrow> pci_bdf option" where
  "pci_bdf_from_pci_device device =
     (let bdf = split_where (\<lambda>c. c = CHR '':'' \<or> c = CHR ''.'') device in
      if length bdf \<noteq> 4 then None
      else do {
        segment \<leftarrow> parse_hex (bdf ! 0);
        bus \<leftarrow> parse_hex (bdf ! 1);
        device \<leftarrow> parse_hex (bdf ! 2);
        function \<leftarrow> parse_hex (bdf ! 3);
        Some \<lparr>bdf_segment = segment, bdf_bus = bus, bdf_device = device, bdf_function = function\<rparr> })"

definition pci_bdf_show :: "pci_bdf \<Rightarrow> string" where
  "pci_bdf_show b = zero_pad 4 (show_hex (unat (bdf_segment b))) @ '':''
     @ zero_pad 2 (show_hex (unat (bdf_bus b))) @ '':''
     @ zero_pad 2 (show_hex (unat (bdf_device b))) @ ''.'' @ show_hex (unat (bdf_function b))"

definition pci_bdf_from_str :: "string \<Rightarrow> pci_bdf option" where
  "pci_bdf_from_str s = do {
     (segment, bdf) \<leftarrow> split_once CHR '':'' s;
     (bus, df) \<leftarrow> split_once CHR '':'' bdf;
     (device, function) \<leftarrow> split_once CHR ''.'' df;
     segment \<leftarrow> parse_hex segment;
     bus \<leftarrow> parse_hex bus;
     device \<leftarrow> parse_hex device;
     function \<leftarrow> parse_hex function;
     Some \<lparr>bdf_segment = segment, bdf_bus = bus, bdf_device = device, bdf_function = function\<rparr> }"

subsection \<open>PMT device identifiers\<close>

datatype pmt_device_id = PmtName string | PmtBdf pci_bdf

fun pmt_device_id_show :: "pmt_device_id \<Rightarrow> string" where
  "pmt_device_id_show (PmtName name) = name"
| "pmt_device_id_show (PmtBdf bdf) = pci_bdf_show bdf"

definition pmt_device_id_from_str :: "string \<Rightarrow> pmt_device_id option" where
  "pmt_device_id_from_str s =
     (if trim_end_numeric s = ''crashlog'' then Some (PmtName s)
      else case pci_bdf_from_str s of Some bdf \<Rightarrow> Some (PmtBdf bdf) | None \<Rightarrow> None)"

fun pmt_description :: "pmt_device_id \<Rightarrow> string" where
  "pmt_description (PmtName name) = ''PMT endpoint ('' @ name @ '')''"
| "pmt_description (PmtBdf bdf) = ''PMT endpoints for PCI device '' @ pci_bdf_show bdf"

subsection \<open>Sources\<close>

datatype crash_log_source = SourceAcpi | SourcePmtDevice pmt_device_id | SourceEventLog

fun source_show :: "crash_log_source \<Rightarrow> string" where
  "source_show SourceAcpi = ''acpi''"
| "source_show (SourcePmtDevice dev) = ''pmt:'' @ pmt_device_id_show dev"
| "source_show SourceEventLog = ''evt''"

datatype parse_source_error = InvalidSource | InvalidParameter

fun parse_source_error_show :: "parse_source_error \<Rightarrow> string" where
  "parse_source_error_show InvalidSource = ''Invalid source''"
| "parse_source_error_show InvalidParameter = ''Invalid parameter''"

definition source_from_str :: "string \<Rightarrow> parse_source_error + crash_log_source" where
  "source_from_str s =
     (let (source, parameter) = (case split_once CHR '':'' s of Some p \<Rightarrow> p | None \<Rightarrow> (s, [])) in
      if source = ''acpi'' then (if parameter = [] then Inr SourceAcpi else Inl InvalidParameter)
      else if source = ''pmt'' then
        (case pmt_device_id_from_str parameter of Some dev \<Rightarrow> Inr (SourcePmtDevice dev)
         | None \<Rightarrow> Inl InvalidParameter)
      else if source = ''evt'' then (if parameter = [] then Inr SourceEventLog else Inl InvalidParameter)
      else Inl InvalidSource)"

fun source_description :: "crash_log_source \<Rightarrow> string" where
  "source_description SourceAcpi = ''ACPI BERT''"
| "source_description SourceEventLog = ''Windows Event Log''"
| "source_description (SourcePmtDevice dev) = pmt_description dev"

subsection \<open>Printing and parsing\<close>

lemma show_hex_char: "c \<in> set (zero_pad w (show_hex n)) \<Longrightarrow> \<exists>d < 16. c = digit_lower d"
proof -
  assume "c \<in> set (zero_pad w (show_hex n))"
  then have "c = CHR ''0'' \<or> c \<in> set (show_radix digit_lower 16 n)"
    by (auto simp: zero_pad_def show_hex_def)
  moreover have "CHR ''0'' = digit_lower 0" by code_simp
  ultimately show ?thesis using show_radix_set [of 16 c digit_lower n] by force
qed

lemma show_hex_no_sep:
  "CHR '':'' \<notin> set (zero_pad w (show_hex n))" "CHR ''.'' \<notin> set (zero_pad w (show_hex n))"
  using show_hex_char digit_lower_not_sign(3,4) by metis+

lemma zero_pad_0 [simp]: "zero_pad 0 s = s"
  by (simp add: zero_pad_def)

lemma parse_hex_show: "parse_hex (zero_pad w (show_hex (unat x))) = Some x"
  using from_str_radix_padded [of 16 "unat x" "2 ^ LENGTH('a)" w]
  by (simp add: parse_hex_def show_hex_def unsigned_less)

lemma parse_hex_show_plain: "parse_hex (show_hex (unat x)) = Some x"
  using parse_hex_show [of 0 x] by simp

lemma pci_bdf_roundtrip: "pci_bdf_from_str (pci_bdf_show b) = Some b"
  by (simp add: pci_bdf_from_str_def pci_bdf_show_def split_once_sep show_hex_no_sep parse_hex_show
      parse_hex_show_plain)

lemma parse_digits_chars:
  "parse_digits r m acc s = Inr n \<Longrightarrow> c \<in> set s \<Longrightarrow> \<exists>d. digit_value r c = Some d"
  by (induction r m acc s rule: parse_digits.induct) (auto split: option.splits if_splits)

lemma from_str_radix_chars:
  "from_str_radix r m s = Inr n \<Longrightarrow> c \<in> set s \<Longrightarrow> c = CHR ''+'' \<or> (\<exists>d. digit_value r c = Some d)"
  by (auto simp: from_str_radix_def simp del: parse_digits.simps
      split: list.splits if_splits dest: parse_digits_chars)

lemma parse_hex_no_sep:
  assumes "parse_hex s = Some (x :: 'a::len word)"
  shows "\<forall>c \<in> set s. \<not> (c = CHR '':'' \<or> c = CHR ''.'')"
proof -
  have "digit_value 16 (CHR '':'') = None" and "digit_value 16 (CHR ''.'') = None" by code_simp+
  then show ?thesis
    using assms from_str_radix_chars [of 16 "2 ^ LENGTH('a)" s]
    by (fastforce simp: parse_hex_def split: sum.splits)
qed

lemma split_once_Some:
  "split_once c s = Some (a, b) \<Longrightarrow> s = a @ c # b \<and> c \<notin> set a"
proof -
  assume s: "split_once c s = Some (a, b)"
  then obtain x where d: "dropWhile (\<lambda>x. x \<noteq> c) s = x # b" and a: "a = takeWhile (\<lambda>x. x \<noteq> c) s"
    by (auto simp: split_once_def split: list.splits)
  from d have "x = c" using hd_dropWhile [of "\<lambda>x. x \<noteq> c" s] by simp
  with d a show ?thesis by (metis set_takeWhileD takeWhile_dropWhile_id)
qed

lemma crashlog_not_bdf: "trim_end_numeric (pci_bdf_show b) \<noteq> ''crashlog''"
proof
  assume eq: "trim_end_numeric (pci_bdf_show b) = ''crashlog''"
  obtain d where d: "pci_bdf_show b = trim_end_numeric (pci_bdf_show b) @ d" and num: "\<forall>c \<in> set d. is_numeric c"
    using trim_end_numeric_decomp by blast
  have "CHR '':'' \<in> set (pci_bdf_show b)" by (simp add: pci_bdf_show_def)
  then have "CHR '':'' \<in> set ''crashlog'' \<union> set d" unfolding d [unfolded eq] by simp
  moreover have "\<not> is_numeric (CHR '':'')" by code_simp
  ultimately show False using num by auto
qed

lemma pmt_device_id_roundtrip:
  assumes "case dev of PmtName n \<Rightarrow> trim_end_numeric n = ''crashlog'' | PmtBdf _ \<Rightarrow> True"
  shows "pmt_device_id_from_str (pmt_device_id_show dev) = Some dev"
  using assms by (cases dev) (simp_all add: pmt_device_id_from_str_def crashlog_not_bdf pci_bdf_roundtrip)

text \<open>The sources that have a text form of their own: a PMT endpoint is named \<open>crashlog<number>\<close>.\<close>
definition source_ok :: "crash_log_source \<Rightarrow> bool" where
  "source_ok s = (case s of SourcePmtDevice (PmtName n) \<Rightarrow> trim_end_numeric n = ''crashlog'' | _ \<Rightarrow> True)"

lemma source_roundtrip:
  assumes "source_ok s"
  shows "source_from_str (source_show s) = Inr s"
proof (cases s)
  case (SourcePmtDevice dev)
  have "split_once CHR '':'' (''pmt'' @ CHR '':'' # pmt_device_id_show dev) = Some (''pmt'', pmt_device_id_show dev)"
    by (rule split_once_sep) simp
  moreover have "pmt_device_id_from_str (pmt_device_id_show dev) = Some dev"
    using assms SourcePmtDevice by (intro pmt_device_id_roundtrip) (auto simp: source_ok_def split: pmt_device_id.splits)
  ultimately show ?thesis using SourcePmtDevice by (simp add: source_from_str_def)
qed (simp_all add: source_from_str_def split_once_def)

lemma pmt_device_id_from_str_ok:
  "pmt_device_id_from_str s = Some dev \<Longrightarrow> source_ok (SourcePmtDevice dev)"
  by (auto simp: pmt_device_id_from_str_def source_ok_def split: if_splits option.splits)

lemma source_from_str_ok: "source_from_str s = Inr src \<Longrightarrow> source_ok src"
  by (auto simp: source_from_str_def Let_def source_ok_def pmt_device_id_from_str_def
      split: prod.splits if_splits option.splits pmt_device_id.splits)

subsection \<open>Properties\<close>

text \<open>The text form of a source is unambiguous: whatever was parsed prints to a text that parses
  to the same source again, be it an endpoint name or a PCI address in any of its spellings.\<close>
theorem source_parse_show_parse:
  assumes "source_from_str s = Inr src"
  shows "source_from_str (source_show src) = Inr src"
  using source_roundtrip [OF source_from_str_ok [OF assms]] .

theorem source_parse_show_parse_witness:
  "source_from_str (source_show (SourcePmtDevice (PmtBdf (pci_bdf_new 0x1111 0x22 0x33 4))))
     = Inr (SourcePmtDevice (PmtBdf (pci_bdf_new 0x1111 0x22 0x33 4)))"
proof (rule source_parse_show_parse)
  show "source_from_str ''pmt:+1111:22:033.4'' = Inr (SourcePmtDevice (PmtBdf (pci_bdf_new 0x1111 0x22 0x33 4)))"
    by (simp add: source_from_str_def split_once_def pmt_device_id_from_str_def trim_end_numeric_def
        is_numeric_def pci_bdf_from_str_def parse_hex_def from_str_radix_def digit_value_def pci_bdf_new_def)
qed

text \<open>Every PCI address prints to a text that \<open>from_str\<close> reads back.\<close>
theorem pci_bdf_show_parse: "pci_bdf_from_str (pci_bdf_show b) = Some b"
  by (rule pci_bdf_roundtrip)

text \<open>The two parsers of PCI addresses agree: what \<open>from_str\<close> accepts, \<open>from_pci_device\<close> reads as
  the same address.\<close>
theorem pci_bdf_parsers_agree:
  assumes "pci_bdf_from_str s = Some b"
  shows "pci_bdf_from_pci_device s = Some b"
proof -
  let ?P = "\<lambda>c. c = CHR '':'' \<or> c = CHR ''.''"
  from assms obtain x y z w where s: "s = x @ CHR '':'' # y @ CHR '':'' # z @ CHR ''.'' # w"
    and hex: "parse_hex x = Some (bdf_segment b)" "parse_hex y = Some (bdf_bus b)"
      "parse_hex z = Some (bdf_device b)" "parse_hex w = Some (bdf_function b)"
    by (auto simp: pci_bdf_from_str_def split: bind_splits dest!: split_once_Some)
  note no_sep = hex [THEN parse_hex_no_sep]
  have "split_where ?P s = [x, y, z, w]"
    unfolding s using no_sep by (simp add: split_where_sep split_where_none)
  with hex show ?thesis by (simp add: pci_bdf_from_pci_device_def)
qed

theorem pci_bdf_parsers_agree_witness:
  "pci_bdf_from_pci_device (pci_bdf_show (pci_bdf_new 0 0 0x1f 5)) = Some (pci_bdf_new 0 0 0x1f 5)"
  by (rule pci_bdf_parsers_agree) (rule pci_bdf_roundtrip)

end
