(* ===== verification/CrashLog.thy ===== *)
theory CrashLog
  imports Bert Source
begin

text \<open>
  Crash logs: \<open>lib/src/crashlog.rs\<close>, \<open>lib/src/metadata.rs\<close>, \<open>Region::from_cper_section\<close> of
  \<open>lib/src/region.rs\<close>, \<open>Cper::from_raw_crashlog\<close> of \<open>lib/src/cper.rs\<close> and \<open>Berr::from_crashlog\<close> of
  \<open>lib/src/bert/berr.rs\<close>. \<open>from_regions\<close> is a loop over a queue, in front of which the regions that
  are nested in box records are pushed; \<open>unpack_region\<close> is the depth-first traversal it is proved
  equal to.
\<close>

subsection \<open>Metadata\<close>

definition time_show :: "time \<Rightarrow> string" where
  "time_show t = zero_pad 4 (show_dec (unat (tm_year t))) @ ''-''
     @ zero_pad 2 (show_dec (unat (tm_month t))) @ ''-'' @ zero_pad 2 (show_dec (unat (tm_day t))) @ ''-''
     @ zero_pad 2 (show_dec (unat (tm_hour t))) @ ''-'' @ zero_pad 2 (show_dec (unat (tm_minute t)))"

record 'g metadata =
  md_computer :: "string option"
  md_source :: "crash_log_source option"
  md_time :: "time option"
  md_extra_cper_sections :: "'g section_body list"

definition metadata_default :: "'g metadata" where
  "metadata_default = \<lparr>md_computer = None, md_source = None, md_time = None,
     md_extra_cper_sections = []\<rparr>"

definition metadata_show :: "'g metadata \<Rightarrow> string" where
  "metadata_show m = (case (md_computer m, md_source m, md_time m) of
     (Some computer, Some source, Some time) \<Rightarrow> computer @ ''-'' @ source_show source @ ''-'' @ time_show time
   | (Some computer, None, Some time) \<Rightarrow> computer @ ''-'' @ time_show time
   | (None, None, Some time) \<Rightarrow> time_show time
   | (None, Some source, Some time) \<Rightarrow> source_show source @ ''-'' @ time_show time
   | (Some computer, None, None) \<Rightarrow> computer
   | (Some computer, Some source, None) \<Rightarrow> computer @ ''-'' @ source_show source
   | (None, Some source, None) \<Rightarrow> source_show source
   | (None, None, None) \<Rightarrow> ''unnamed'')"

record 'g crashlog =
  cl_regions :: "region list"
  cl_metadata :: "'g metadata"

subsection \<open>Gathering the regions\<close>

definition is_box :: "crash_record \<Rightarrow> bool" where
  "is_box r \<longleftrightarrow> ver_record_type (hdr_version (rec_header r)) = BOX
     \<or> err_type0_legacy_server_box (errata_from_version (hdr_version (rec_header r)))"

text \<open>The body of the inner loop of \<open>from_regions\<close>: the region nested in a box record, if any\<close>
definition box_region :: "crash_record \<Rightarrow> region option" where
  "box_region r =
     (if \<not> is_box r then None
      else case slice_from (rec_data r) (header_size (rec_header r)) of
        None \<Rightarrow> None
      | Some payload \<Rightarrow>
          (case region_from_slice payload of
             Inr region \<Rightarrow> Some (set_child_context region (rec_header r))
           | Inl _ \<Rightarrow> None))"

text \<open>The inner loop, with its \<open>push_front\<close>\<close>
definition push_boxes :: "crash_record list \<Rightarrow> region list \<Rightarrow> region list" where
  "push_boxes records queue =
     fold (\<lambda>r queue. case box_region r of Some region \<Rightarrow> region # queue | None \<Rightarrow> queue) records queue"

definition box_regions :: "region \<Rightarrow> region list" where
  "box_regions region = rev (List.map_filter box_region (reg_records region))"

lemma push_boxes_eq: "push_boxes records queue = rev (List.map_filter box_region records) @ queue"
  unfolding push_boxes_def
  by (induction records arbitrary: queue) (auto simp: List.map_filter_simps split: option.split)

text \<open>Nested regions are smaller: this is why the queue runs empty.\<close>

definition region_weight :: "region \<Rightarrow> nat" where
  "region_weight r = Suc (sum_list (map (\<lambda>r. length (rec_data r)) (reg_records r)))"

lemma header_size_pos: "8 \<le> header_size h"
  by (simp add: header_size_def split: header_type.split)

lemma box_region_weight:
  assumes "box_region r = Some region"
  shows "region_weight region \<le> length (rec_data r)"
proof -
  from assms obtain payload region' where payload: "slice_from (rec_data r) (header_size (rec_header r)) = Some payload"
    and r': "region_from_slice payload = Inr region'" and region: "region = set_child_context region' (rec_header r)"
    by (auto simp: box_region_def split: if_splits option.splits sum.splits)
  have "length (region_to_bytes region') \<le> length payload"
    using region_from_slice_cuts_aux [OF r'] by auto
  moreover have "region_weight region = Suc (length (region_to_bytes region'))"
    unfolding region by (simp add: region_weight_def set_child_context_def region_to_bytes_eq length_concat comp_def)
  moreover have "length payload + 8 \<le> length (rec_data r)"
    using payload header_size_pos [of "rec_header r"] by (auto simp: slice_from_def split: if_splits)
  ultimately show ?thesis by linarith
qed

lemma box_regions_weight: "sum_list (map region_weight (box_regions region)) < region_weight region"
proof -
  have "sum_list (map region_weight (List.map_filter box_region rs)) \<le> sum_list (map (\<lambda>r. length (rec_data r)) rs)" for rs
    by (induction rs) (auto simp: List.map_filter_simps box_region_weight add_mono trans_le_add2 split: option.split)
  from this [of "reg_records region"] show ?thesis
    by (simp add: box_regions_def region_weight_def [of region] sum_list_rev le_imp_less_Suc flip: rev_map)
qed

lemma box_regions_mem_weight: "c \<in> set (box_regions region) \<Longrightarrow> region_weight c < region_weight region"
  using box_regions_weight [of region] member_le_sum_list [of "region_weight c" "map region_weight (box_regions region)"]
  by fastforce

text \<open>The \<open>while\<close> loop\<close>
function from_regions_loop :: "region list \<Rightarrow> region list \<Rightarrow> region list" where
  "from_regions_loop [] regions = regions"
| "from_regions_loop (region # queue) regions =
     from_regions_loop (push_boxes (reg_records region) queue) (regions @ [region])"
  by pat_completeness auto
termination
proof (relation "measure (\<lambda>(queue, regions). sum_list (map region_weight queue))", goal_cases)
  case 1
  show ?case by simp
next
  case (2 region queue regions)
  show ?case
    using box_regions_weight [of region] by (simp add: push_boxes_eq box_regions_def)
qed

declare from_regions_loop.simps(2) [simp del]

definition from_regions :: "region list \<Rightarrow> error + 'g crashlog" where
  "from_regions regions =
     (let regions = from_regions_loop regions [] in
      if regions = [] then Inl InvalidCrashLog
      else Inr \<lparr>cl_regions = regions, cl_metadata = metadata_default\<rparr>)"

subsection \<open>Parsing\<close>

definition region_from_cper_section :: "'g uguid \<Rightarrow> 'g section_body \<Rightarrow> region option" where
  "region_from_cper_section G body = (case body of
     FirmwareErrorRecord fer \<Rightarrow>
       (if fh_guid (fer_header fer) = RECORD_ID_CRASHLOG G
        then (case region_from_slice (fer_payload fer) of Inr r \<Rightarrow> Some r | Inl _ \<Rightarrow> None)
        else None)
   | UnknownSection _ _ \<Rightarrow> None)"

definition from_berr :: "'g uguid \<Rightarrow> 'g berr \<Rightarrow> error + 'g crashlog" where
  "from_berr G b =
     from_regions (List.map_filter (\<lambda>e. region_from_cper_section G (de_cper_section e)) (berr_entries b))"

text \<open>The \<open>for\<close> loop of \<open>from_cper\<close>: the regions and the other sections\<close>
fun sort_sections :: "'g uguid \<Rightarrow> 'g cper_section list \<Rightarrow> region list \<Rightarrow> 'g section_body list
    \<Rightarrow> region list \<times> 'g section_body list" where
  "sort_sections G [] regions extra = (regions, extra)"
| "sort_sections G (s # ss) regions extra =
     (case region_from_cper_section G (cs_body s) of
        Some region \<Rightarrow> sort_sections G ss (regions @ [region]) extra
      | None \<Rightarrow> sort_sections G ss regions (extra @ [cs_body s]))"

definition from_cper :: "'g uguid \<Rightarrow> 'g cper \<Rightarrow> error + 'g crashlog" where
  "from_cper G c =
     (let (regions, extra_cper_sections) = sort_sections G (cper_sections c) [] [] in
      if regions = [] then Inl NoCrashLogFound
      else rbind (from_regions regions) (\<lambda>crashlog.
        Inr (crashlog\<lparr>cl_metadata := (cl_metadata crashlog)
               \<lparr>md_extra_cper_sections := extra_cper_sections\<rparr>\<rparr>)))"

definition crashlog_from_slice :: "'g uguid \<Rightarrow> bytes \<Rightarrow> error + 'g crashlog" where
  "crashlog_from_slice G s =
     (case berr_from_bert_file G s of
        Some berr \<Rightarrow> from_berr G berr
      | None \<Rightarrow>
          (case cper_from_slice G s of
             Some cper \<Rightarrow> from_cper G cper
           | None \<Rightarrow> rbind (region_from_slice s) (\<lambda>region. from_regions [region])))"

subsection \<open>Exporting\<close>

definition berr_from_crashlog :: "'g uguid \<Rightarrow> 'g crashlog \<Rightarrow> 'g berr" where
  "berr_from_crashlog G c = \<lparr>berr_header = status_block_default,
     berr_entries = map (\<lambda>region.
       \<lparr>de_header = (data_entry_header_default G)\<lparr>deh_section := FW_ERROR_RECORD G, deh_revision := 0x300\<rparr>,
        de_cper_section = FirmwareErrorRecord (fer_from_crashlog_region G region)\<rparr>) (cl_regions c)\<rparr>"

definition crashlog_to_bert :: "'g uguid \<Rightarrow> 'g crashlog \<Rightarrow> bytes" where
  "crashlog_to_bert G c =
     (let berr = berr_to_bytes G (berr_from_crashlog G c);
          bert = bert_dummy\<lparr>bert_region := 0, bert_region_length := of_nat (length berr)\<rparr>
      in bert_to_bytes bert @ berr)"

definition cper_from_raw_crashlog :: "'g uguid \<Rightarrow> 'g crashlog \<Rightarrow> 'g cper" where
  "cper_from_raw_crashlog G c =
     (let cper = cper_default G;
          cper = cper\<lparr>cper_record_header := (cper_record_header cper)
            \<lparr>ch_notification_type := NOTIFICATION_BOOT G, ch_error_severity := ErrFatal,
             ch_timestamp := map_option timestamp_from_crashlog_metadata (md_time (cl_metadata c))\<rparr>\<rparr>;
          cper = fold (\<lambda>region cper.
            let s = section_from_crashlog_region G region in
            append_section cper (s\<lparr>cs_descriptor := (cs_descriptor s)\<lparr>sd_section_severity := SecFatal\<rparr>\<rparr>))
            (cl_regions c) cper
      in fold (\<lambda>body cper. append_section cper (section_from_body G body))
           (md_extra_cper_sections (cl_metadata c)) cper)"

definition crashlog_to_bytes :: "'g uguid \<Rightarrow> 'g crashlog \<Rightarrow> bytes" where
  "crashlog_to_bytes G c = cper_to_bytes G (cper_from_raw_crashlog G c)"

subsection \<open>The order of the regions\<close>

text \<open>A region, and after it the regions nested in its box records, last box first, each followed by
  its own\<close>
function unpack_region :: "region \<Rightarrow> region list" where
  "unpack_region region = region # concat (map unpack_region (box_regions region))"
  by pat_completeness auto
termination by (relation "measure region_weight") (auto dest: box_regions_mem_weight)

declare unpack_region.simps [simp del]

lemma from_regions_loop_unpack:
  "from_regions_loop queue regions = regions @ concat (map unpack_region queue)"
proof (induction queue regions rule: from_regions_loop.induct)
  case (1 regions)
  then show ?case by simp
next
  case (2 region queue regions)
  have "from_regions_loop (region # queue) regions
      = regions @ region # concat (map unpack_region (box_regions region @ queue))"
    using 2 by (simp add: from_regions_loop.simps(2) push_boxes_eq box_regions_def)
  then show ?case by (simp add: unpack_region.simps [of region])
qed

lemma from_regions_unpack:
  "from_regions regions = (if regions = [] then Inl InvalidCrashLog
     else Inr \<lparr>cl_regions = concat (map unpack_region regions), cl_metadata = metadata_default\<rparr>)"
proof -
  have "unpack_region r \<noteq> []" for r by (subst unpack_region.simps) simp
  then have "concat (map unpack_region regions) = [] \<longleftrightarrow> regions = []" by (cases regions) auto
  then show ?thesis by (simp add: from_regions_def from_regions_loop_unpack)
qed

lemma unpack_region_no_box:
  assumes "\<forall>r \<in> set (reg_records region). \<not> is_box r"
  shows "unpack_region region = [region]"
proof -
  have "List.map_filter box_region rs = []" if "\<forall>r \<in> set rs. \<not> is_box r" for rs
    using that by (induction rs) (simp_all add: List.map_filter_simps box_region_def)
  with assms show ?thesis by (subst unpack_region.simps) (simp add: box_regions_def)
qed

lemma from_regions_no_box:
  assumes "regions \<noteq> []" and "\<forall>region \<in> set regions. \<forall>r \<in> set (reg_records region). \<not> is_box r"
  shows "from_regions regions = Inr \<lparr>cl_regions = regions, cl_metadata = metadata_default\<rparr>"
proof -
  have "concat (map unpack_region rs) = rs" if "set rs \<subseteq> set regions" for rs
    using that assms(2) by (induction rs) (auto intro!: unpack_region_no_box)
  with assms(1) show ?thesis by (simp add: from_regions_unpack)
qed

lemma subseq_unpack: "subseq regions (concat (map unpack_region regions))"
proof (induction regions)
  case Nil
  then show ?case by simp
next
  case (Cons r rs)
  then show ?case by (subst list.map, subst unpack_region.simps) (auto intro: list_emb_append2)
qed

subsection \<open>Exporting and importing\<close>

text \<open>What is read back from the export of regions: each of them without its parent header, and after
  it the regions that are nested in its box records\<close>
definition regions_reread :: "region list \<Rightarrow> region list" where
  "regions_reread regions = concat (map unpack_region (map region_bare regions))"

text \<open>A region that was not nested in a box record and has no box record itself\<close>
definition region_flat :: "region \<Rightarrow> bool" where
  "region_flat region \<longleftrightarrow> (\<forall>r \<in> set (reg_records region). \<not> is_box r \<and> rec_context r = context_default)"

lemma region_flat_reread: "region_flat region \<Longrightarrow> unpack_region (region_bare region) = [region]"
  by (simp add: region_flat_def region_bare_id unpack_region_no_box)

lemma regions_reread_flat: "\<forall>region \<in> set regions. region_flat region \<Longrightarrow> regions_reread regions = regions"
  by (induction regions) (simp_all add: regions_reread_def region_flat_reread)

lemma regions_reread_Cons [simp]: "regions_reread (r # rs) = unpack_region (region_bare r) @ regions_reread rs"
  and regions_reread_Nil [simp]: "regions_reread [] = []"
  by (simp_all add: regions_reread_def)

lemma regions_reread_subseq: "subseq (map region_bare regions) (regions_reread regions)"
  unfolding regions_reread_def by (rule subseq_unpack)

lemma from_regions_reread:
  "regions \<noteq> [] \<Longrightarrow> from_regions (map region_bare regions)
     = Inr \<lparr>cl_regions = regions_reread regions, cl_metadata = metadata_default\<rparr>"
  by (simp add: from_regions_unpack regions_reread_def)

definition region_section :: "'g uguid \<Rightarrow> region \<Rightarrow> 'g cper_section" where
  "region_section G region = (let s = section_from_crashlog_region G region in
     s\<lparr>cs_descriptor := (cs_descriptor s)\<lparr>sd_section_severity := SecFatal\<rparr>\<rparr>)"

definition crashlog_cper_size :: "'g crashlog \<Rightarrow> nat" where
  "crashlog_cper_size c = RECORD_HEADER_SIZE
     + sum_list (map (\<lambda>r. SECTION_DESCRIPTOR_SIZE + HEADER_REV2_SIZE + length (region_to_bytes r)) (cl_regions c))
     + sum_list (map (\<lambda>b. SECTION_DESCRIPTOR_SIZE + section_body_len b) (md_extra_cper_sections (cl_metadata c)))"

text \<open>The crash logs that a CPER can represent: regions as their headers say, extra sections that read
  back as themselves and not as a region, fewer than \<open>2^16\<close> sections and less than \<open>2^32\<close> bytes\<close>
definition crashlog_ok :: "'g uguid \<Rightarrow> 'g crashlog \<Rightarrow> bool" where
  "crashlog_ok G c \<longleftrightarrow> cl_regions c \<noteq> [] \<and> (\<forall>r \<in> set (cl_regions c). region_ok r)
     \<and> (\<forall>b \<in> set (md_extra_cper_sections (cl_metadata c)).
          section_body_ok G b \<and> region_from_cper_section G b = None)
     \<and> length (cl_regions c) + length (md_extra_cper_sections (cl_metadata c)) < 2 ^ 16
     \<and> crashlog_cper_size c < 2 ^ 32"

lemma region_body_len:
  "section_body_len (FirmwareErrorRecord (fer_from_crashlog_region G region)) = HEADER_REV2_SIZE + length (region_to_bytes region)"
  by (simp add: fer_from_crashlog_region_def fer_header_len_def)

lemma region_body_ok: "section_body_ok G (FirmwareErrorRecord (fer_from_crashlog_region G region))"
  by (simp add: fer_from_crashlog_region_def)

lemma region_section_body [simp]:
  "cs_body (region_section G region) = FirmwareErrorRecord (fer_from_crashlog_region G region)"
  by (simp add: region_section_def section_from_crashlog_region_def Let_def)

lemma region_section_ok:
  assumes "HEADER_REV2_SIZE + length (region_to_bytes region) < 2 ^ 32"
  shows "section_ok G (region_section G region)"
    and "section_length (region_section G region) = HEADER_REV2_SIZE + length (region_to_bytes region)"
proof -
  let ?b = "FirmwareErrorRecord (fer_from_crashlog_region G region)"
  have "section_body_len ?b < 2 ^ 32" using assms by (simp only: region_body_len)
  from section_from_body_ok [OF region_body_ok this]
  have "section_ok G (section_from_body G ?b)" and "section_length (section_from_body G ?b) = section_body_len ?b" .
  then show "section_ok G (region_section G region)"
    and "section_length (region_section G region) = HEADER_REV2_SIZE + length (region_to_bytes region)"
    unfolding region_body_len
    by (simp_all add: region_section_def Let_def section_from_crashlog_region_def section_ok_def fru_text_ok_def)
qed

lemma region_from_section_ok:
  "region_ok region \<Longrightarrow>
   region_from_cper_section G (FirmwareErrorRecord (fer_from_crashlog_region G region)) = Some (region_bare region)"
  by (simp add: region_from_cper_section_def fer_from_crashlog_region_def region_ok_reads)

lemma sort_sections_append:
  "sort_sections G (ss @ ts) regions extra = (let (r, e) = sort_sections G ss regions extra in sort_sections G ts r e)"
  by (induction G ss regions extra rule: sort_sections.induct) (auto split: option.split)

lemma sort_sections_bodies:
  "map cs_body ss = map cs_body ts \<Longrightarrow> sort_sections G ss regions extra = sort_sections G ts regions extra"
proof (induction G ss regions extra arbitrary: ts rule: sort_sections.induct)
  case (1 G regions extra)
  then show ?case by simp
next
  case (2 G s ss regions extra)
  then obtain t ts' where "ts = t # ts'" "cs_body s = cs_body t" "map cs_body ss = map cs_body ts'"
    by (cases ts) auto
  with 2 show ?case by (auto split: option.split)
qed

lemma sort_sections_regions:
  "\<forall>r \<in> set rs. region_ok r \<Longrightarrow>
   sort_sections G (map (region_section G) rs) regions extra = (regions @ map region_bare rs, extra)"
  by (induction rs arbitrary: regions) (simp_all add: region_from_section_ok)

lemma sort_sections_extra:
  "\<forall>b \<in> set bs. region_from_cper_section G b = None \<Longrightarrow>
   sort_sections G (map (section_from_body G) bs) regions extra = (regions, extra @ bs)"
  by (induction bs arbitrary: extra) simp_all

text \<open>The record a crash log is exported as, before it is brought up to date\<close>
definition crashlog_raw_cper :: "'g uguid \<Rightarrow> 'g crashlog \<Rightarrow> 'g cper" where
  "crashlog_raw_cper G c = \<lparr>cper_record_header = (cper_header_default G)
       \<lparr>ch_notification_type := NOTIFICATION_BOOT G, ch_error_severity := ErrFatal,
        ch_timestamp := map_option timestamp_from_crashlog_metadata (md_time (cl_metadata c))\<rparr>,
     cper_sections = map (region_section G) (cl_regions c)
       @ map (section_from_body G) (md_extra_cper_sections (cl_metadata c))\<rparr>"

lemma cper_from_raw_crashlog_eq:
  assumes "cl_regions c \<noteq> []"
  shows "cper_from_raw_crashlog G c = cper_normalize (crashlog_raw_cper G c)"
  using append_section_fold [of "cl_regions c" "region_section G"] assms
  by (simp add: cper_from_raw_crashlog_def Let_def crashlog_raw_cper_def cper_default_def
      append_section_fold_normalized region_section_def)

lemma crashlog_raw_cper_ok:
  assumes "crashlog_ok G c"
  shows "cper_ok G (crashlog_raw_cper G c)"
proof -
  let ?rs = "cl_regions c" and ?bs = "md_extra_cper_sections (cl_metadata c)"
  have size: "crashlog_cper_size c < 2 ^ 32" using assms by (simp add: crashlog_ok_def)
  have r: "HEADER_REV2_SIZE + length (region_to_bytes r) < 2 ^ 32" if "r \<in> set ?rs" for r
    using member_le_sum_list [of "SECTION_DESCRIPTOR_SIZE + HEADER_REV2_SIZE + length (region_to_bytes r)"
        "map (\<lambda>r. SECTION_DESCRIPTOR_SIZE + HEADER_REV2_SIZE + length (region_to_bytes r)) ?rs"] that size
    by (auto simp: crashlog_cper_size_def)
  have b: "section_body_len b < 2 ^ 32" if "b \<in> set ?bs" for b
    using member_le_sum_list [of "SECTION_DESCRIPTOR_SIZE + section_body_len b"
        "map (\<lambda>b. SECTION_DESCRIPTOR_SIZE + section_body_len b) ?bs"] that size
    by (auto simp: crashlog_cper_size_def)
  have lens: "map section_length (map (region_section G) ?rs) = map (\<lambda>r. HEADER_REV2_SIZE + length (region_to_bytes r)) ?rs"
    and lens': "map section_length (map (section_from_body G) ?bs) = map section_body_len ?bs"
    using r b assms by (auto simp: region_section_ok(2) section_from_body_ok(2) crashlog_ok_def)
  have secs: "map section_length (cper_sections (crashlog_raw_cper G c))
      = map (\<lambda>r. HEADER_REV2_SIZE + length (region_to_bytes r)) ?rs @ map section_body_len ?bs"
    unfolding crashlog_raw_cper_def cper.select_convs map_append lens lens' ..
  have "cper_size (crashlog_raw_cper G c) = crashlog_cper_size c"
    unfolding cper_size_def secs
    by (simp add: crashlog_raw_cper_def crashlog_cper_size_def sum_list_addf sum_list_triv algebra_simps)
  moreover have "\<forall>s \<in> set (cper_sections (crashlog_raw_cper G c)). section_ok G s"
    using r b assms by (auto simp: crashlog_raw_cper_def crashlog_ok_def region_section_ok(1) section_from_body_ok(1))
  moreover have "length (cper_sections (crashlog_raw_cper G c)) < 2 ^ 16"
    using assms by (simp add: crashlog_raw_cper_def crashlog_ok_def)
  ultimately show ?thesis using size by (simp add: cper_ok_def)
qed

lemma cper_bytes_not_bert:
  "berr_from_bert_file G (cper_to_bytes H c) = None"
  by (simp add: berr_from_bert_file_def cper_to_bytes_def cper_header_to_bytes_def starts_with_def
      CPER_SIGNATURE_def BERT_SIGNATURE_def BERR_SIGNATURE_def)

lemma map_cs_body_normalize: "map cs_body (cper_sections (cper_normalize c)) = map cs_body (cper_sections c)"
  by (rule nth_equalityI) (auto simp: cper_normalize_nth Let_def)

text \<open>Reading the entries of an exported boot error region\<close>

lemma berr_from_crashlog_bytes:
  "berr_to_bytes G (berr_from_crashlog G c) = berr_to_bytes G ((berr_from_crashlog G c)\<lparr>berr_entries :=
     map (\<lambda>e. e\<lparr>de_header := (de_header e)\<lparr>deh_error_data_length :=
       of_nat (length (section_body_to_bytes G (de_cper_section e)))\<rparr>\<rparr>) (berr_entries (berr_from_crashlog G c))\<rparr>)"
proof -
  let ?f = "\<lambda>e. e\<lparr>de_header := (de_header e)\<lparr>deh_error_data_length :=
       of_nat (length (section_body_to_bytes G (de_cper_section e)))\<rparr>\<rparr>"
  have "data_entry_to_bytes G (?f e) = data_entry_to_bytes G e" for e
    by (simp add: data_entry_to_bytes_def Let_def)
  then have "berr_payload G (map ?f es) = berr_payload G es" for es
    unfolding berr_payload_def by (simp add: fold_map comp_def)
  then show ?thesis by (simp add: berr_to_bytes_def)
qed

definition crashlog_berr_size :: "'g crashlog \<Rightarrow> nat" where
  "crashlog_berr_size c = sum_list (map (\<lambda>r. DATA_ENTRY_HEADER_SIZE + HEADER_REV2_SIZE
     + length (region_to_bytes r)) (cl_regions c))"

lemma crashlog_berr_roundtrip:
  assumes G: "guid_codec G" and size: "crashlog_berr_size c < 2 ^ 32"
  shows "\<exists>b. berr_from_bert_file G (crashlog_to_bert G c) = Some b
    \<and> map de_cper_section (berr_entries b)
      = map (\<lambda>r. FirmwareErrorRecord (fer_from_crashlog_region G r)) (cl_regions c)"
proof -
  let ?body = "\<lambda>r. FirmwareErrorRecord (fer_from_crashlog_region G r)"
  let ?f = "\<lambda>e. e\<lparr>de_header := (de_header e)\<lparr>deh_error_data_length :=
       of_nat (length (section_body_to_bytes G (de_cper_section e)))\<rparr>\<rparr>"
  define r where "r = (berr_from_crashlog G c)\<lparr>berr_entries := map ?f (berr_entries (berr_from_crashlog G c))\<rparr>"
  have len: "length (section_body_to_bytes G (?body x)) = HEADER_REV2_SIZE + length (region_to_bytes x)" for x
    using guid_codec.section_body_roundtrip(2) [OF G region_body_ok] by (simp only: region_body_len)
  have small: "HEADER_REV2_SIZE + length (region_to_bytes x) < 2 ^ 32" if "x \<in> set (cl_regions c)" for x
    using member_le_sum_list [of "DATA_ENTRY_HEADER_SIZE + HEADER_REV2_SIZE + length (region_to_bytes x)"
        "map (\<lambda>r. DATA_ENTRY_HEADER_SIZE + HEADER_REV2_SIZE + length (region_to_bytes r)) (cl_regions c)"] that size
    by (auto simp: crashlog_berr_size_def)
  have entries: "berr_entries r = map (\<lambda>x. \<lparr>de_header = (data_entry_header_default G)
      \<lparr>deh_section := FW_ERROR_RECORD G, deh_revision := 0x300,
       deh_error_data_length := of_nat (HEADER_REV2_SIZE + length (region_to_bytes x))\<rparr>,
      de_cper_section = ?body x\<rparr>) (cl_regions c)"
    unfolding r_def berr_from_crashlog_def by (simp add: comp_def len del: section_body_to_bytes.simps of_nat_add)
  have ok: "\<forall>e \<in> set (berr_entries r). data_entry_ok G e"
    using small unfolding entries
    by (auto simp: data_entry_ok_def data_entry_header_default_def region_body_ok region_body_len
        unat_of_nat_u32 simp del: section_body_len.simps section_body_ok.simps of_nat_add)
  have "map data_entry_size (berr_entries r) = map (\<lambda>r. DATA_ENTRY_HEADER_SIZE + HEADER_REV2_SIZE
     + length (region_to_bytes r)) (cl_regions c)"
    using small unfolding entries
    by (auto simp: data_entry_size_def data_entry_header_size_def unat_of_nat_u32 simp del: of_nat_add)
  then have "sum_list (map data_entry_size (berr_entries r)) < 2 ^ 32"
    using size by (simp add: crashlog_berr_size_def)
  from guid_codec.berr_roundtrip [OF G ok this, of "[]"]
  have "berr_from_bert_file G (bert_to_bytes (bert_dummy\<lparr>bert_region := 0, bert_region_length := n\<rparr>) @ berr_to_bytes G r)
      = Some (r\<lparr>berr_header := (berr_header r)\<lparr>gesb_data_length := of_nat (sum_list (map data_entry_size (berr_entries r)))\<rparr>\<rparr>)" for n
    by (subst berr_from_bert_file_bert) (simp_all add: bert_dummy_def)
  moreover have "crashlog_to_bert G c = bert_to_bytes (bert_dummy\<lparr>bert_region := 0,
      bert_region_length := of_nat (length (berr_to_bytes G r))\<rparr>) @ berr_to_bytes G r"
    unfolding crashlog_to_bert_def Let_def berr_from_crashlog_bytes [of G c] r_def ..
  ultimately show ?thesis by (auto simp: entries comp_def)
qed

lemma crashlog_to_bert_file:
  "berr_from_bert_file G (crashlog_to_bert G c) = berr_from_slice G (berr_to_bytes G (berr_from_crashlog G c))"
  unfolding crashlog_to_bert_def Let_def by (rule berr_from_bert_file_bert) (simp_all add: bert_dummy_def)

text \<open>The boot error region of a crash log gives its regions back.\<close>

lemma crashlog_berr_extract:
  assumes "guid_codec G" and "cl_regions c \<noteq> []" and "\<forall>r \<in> set (cl_regions c). region_ok r"
    and "crashlog_berr_size c < 2 ^ 32"
  shows "\<exists>b. berr_from_slice G (berr_to_bytes G (berr_from_crashlog G c)) = Some b
    \<and> from_berr G b = Inr \<lparr>cl_regions = regions_reread (cl_regions c), cl_metadata = metadata_default\<rparr>"
proof -
  obtain b where b: "berr_from_slice G (berr_to_bytes G (berr_from_crashlog G c)) = Some b"
    and entries: "map de_cper_section (berr_entries b)
      = map (\<lambda>r. FirmwareErrorRecord (fer_from_crashlog_region G r)) (cl_regions c)"
    using crashlog_berr_roundtrip [OF assms(1,4)] unfolding crashlog_to_bert_file by blast
  have split: "List.map_filter (\<lambda>e. region_from_cper_section G (de_cper_section e)) es
      = List.map_filter (region_from_cper_section G) (map de_cper_section es)" for es
    by (induction es) (simp_all add: List.map_filter_simps split: option.split)
  have all: "List.map_filter (region_from_cper_section G)
      (map (\<lambda>r. FirmwareErrorRecord (fer_from_crashlog_region G r)) rs) = map region_bare rs"
    if "\<forall>r \<in> set rs. region_ok r" for rs
    using that by (induction rs) (simp_all add: List.map_filter_simps region_from_section_ok)
  show ?thesis
    using b from_regions_reread [OF assms(2)] unfolding from_berr_def
    by (simp add: split entries all [OF assms(3)])
qed

text \<open>Every region of a crash log was parsed from some bytes.\<close>

lemma region_from_slice_bare:
  assumes "region_from_slice bytes = Inr region"
  shows "region_bare region = region"
proof -
  obtain rest where "records_cut (reg_records region) rest"
    using region_from_slice_cuts_aux [OF assms] by blast
  then have "\<forall>r \<in> set (reg_records region). rec_context r = context_default"
    by (rule records_cut_context)
  then show ?thesis by (rule region_bare_id)
qed

definition region_parsed :: "region \<Rightarrow> bool" where
  "region_parsed region \<longleftrightarrow> (\<exists>bytes. region_from_slice bytes = Inr (region_bare region))"

lemma region_parsedI: "region_from_slice bytes = Inr region \<Longrightarrow> region_parsed region"
  using region_from_slice_bare [of bytes region] by (auto simp: region_parsed_def)

lemma region_bare_child [simp]: "region_bare (set_child_context region h) = region_bare region"
  by (simp add: region_bare_def set_child_context_def record_bare_def)

lemma region_parsed_child [simp]: "region_parsed (set_child_context region h) \<longleftrightarrow> region_parsed region"
  by (simp add: region_parsed_def)

lemma unpack_region_parsed: "region_parsed region \<Longrightarrow> r \<in> set (unpack_region region) \<Longrightarrow> region_parsed r"
proof (induction region rule: unpack_region.induct)
  case (1 region)
  have "region_parsed b" if "b \<in> set (box_regions region)" for b
    using that by (force simp: box_regions_def List.map_filter_def box_region_def intro: region_parsedI
        split: if_splits option.splits sum.splits)
  with 1 show ?case by (subst (asm) unpack_region.simps) auto
qed

lemma from_regions_parsed:
  "from_regions regions = Inr c \<Longrightarrow> \<forall>r \<in> set regions. region_parsed r \<Longrightarrow> r \<in> set (cl_regions c) \<Longrightarrow> region_parsed r"
  by (auto simp: from_regions_unpack split: if_splits) (blast intro: unpack_region_parsed)

lemma sort_sections_parsed:
  "sort_sections G ss regions extra = (regions', extra') \<Longrightarrow> \<forall>r \<in> set regions. region_parsed r \<Longrightarrow>
   \<forall>r \<in> set regions'. region_parsed r"
  by (induction G ss regions extra rule: sort_sections.induct)
    (auto simp: region_from_cper_section_def intro: region_parsedI split: option.splits section_body.splits if_splits sum.splits)

lemma crashlog_from_slice_parsed:
  assumes "crashlog_from_slice G s = Inr c" and "r \<in> set (cl_regions c)"
  shows "region_parsed r"
proof -
  have sec: "region_parsed region" if "region_from_cper_section G body = Some region" for body region
    using that by (auto simp: region_from_cper_section_def intro: region_parsedI split: section_body.splits if_splits sum.splits)
  from assms(1) consider (boot) berr where "from_berr G berr = Inr c" | (common) cper where "from_cper G cper = Inr c"
    | (raw) region where "region_from_slice s = Inr region" "from_regions [region] = Inr c"
    by (cases "region_from_slice s") (auto simp: crashlog_from_slice_def split: option.splits)
  then show ?thesis
  proof cases
    case boot
    then show ?thesis
      using assms(2) sec unfolding from_berr_def
      by (elim from_regions_parsed) (auto simp: List.map_filter_def)
  next
    case common
    obtain regions extra where ss: "sort_sections G (cper_sections cper) [] [] = (regions, extra)" by fastforce
    with common obtain c' :: "'a crashlog" where "from_regions regions = Inr c'" "cl_regions c = cl_regions c'"
      by (cases "from_regions regions :: error + 'a crashlog") (auto simp: from_cper_def split: if_splits)
    then show ?thesis
      using assms(2) sort_sections_parsed [OF ss] by (metis empty_iff empty_set from_regions_parsed)
  next
    case raw
    then show ?thesis using assms(2) by (elim from_regions_parsed) (auto intro: region_parsedI)
  qed
qed

lemma region_parsed_ok:
  assumes "region_parsed region"
    and "\<forall>r \<in> set (reg_records region). header_size (rec_header r) \<le> length (rec_data r)"
  shows "region_ok region"
proof -
  from assms obtain bytes where "region_from_slice bytes = Inr (region_bare region)" by (auto simp: region_parsed_def)
  then have "region_ok (region_bare region)" by (rule region_ok_parsed) (use assms(2) in simp)
  then show ?thesis by simp
qed

subsection \<open>Properties\<close>

lemma crashlog_cper_roundtrip:
  fixes c :: "'g crashlog"
  assumes "guid_codec G" and "crashlog_ok G c"
  shows "crashlog_from_slice G (crashlog_to_bytes G c) = Inr \<lparr>cl_regions = regions_reread (cl_regions c),
    cl_metadata = metadata_default\<lparr>md_extra_cper_sections := md_extra_cper_sections (cl_metadata c)\<rparr>\<rparr>"
proof -
  let ?c = "crashlog_raw_cper G c" and ?n = "cper_normalize (crashlog_raw_cper G c)"
  from assms(2) have ne: "cl_regions c \<noteq> []" and ok: "\<forall>r \<in> set (cl_regions c). region_ok r"
    and extra: "\<forall>b \<in> set (md_extra_cper_sections (cl_metadata c)). region_from_cper_section G b = None"
    by (simp_all add: crashlog_ok_def)
  have "crashlog_to_bytes G c = cper_to_bytes G ?n"
    using ne by (simp add: crashlog_to_bytes_def cper_from_raw_crashlog_eq)
  moreover have "cper_from_slice G (cper_to_bytes G ?n) = Some ?n"
    using guid_codec.cper_roundtrip_normal [OF assms(1) cper_normalize_ok [OF crashlog_raw_cper_ok [OF assms(2)]]]
    by simp
  moreover have "sort_sections G (cper_sections ?n) [] []
      = (map region_bare (cl_regions c), md_extra_cper_sections (cl_metadata c))"
    unfolding sort_sections_bodies [OF map_cs_body_normalize]
    by (simp only: crashlog_raw_cper_def cper.select_convs sort_sections_append
        sort_sections_regions [OF ok] sort_sections_extra [OF extra] Let_def case_prod_conv append_Nil)
  ultimately show ?thesis
    using ne from_regions_reread [OF ne, where 'a = 'g]
    by (simp add: crashlog_from_slice_def cper_bytes_not_bert from_cper_def)
qed

text \<open>C1. End to end: a crash log exported as a CPER file and decoded again has the same regions in the
  same order, and the same extra sections; its other metadata is not part of the file. The crash log
  must have a region, fewer than \<open>2^16\<close> sections and a size below \<open>2^32\<close> bytes; the data of every
  record must start with its header and be as long as the header says, where only the last record of
  a region may be truncated; and the extra sections must not be crash log sections themselves and be
  representable: firmware error records of revision 2 or later, or sections of another type. The
  regions come back without the parent headers they had, and a region with box records is followed by
  the regions nested in them, as the reader unpacks the boxes; no region is lost or reordered, and
  the regions are the same when none of them has a box record or was nested in one.\<close>
theorem crashlog_cper_export_import:
  fixes c :: "'g crashlog"
  assumes "guid_codec G" and "crashlog_ok G c"
  shows "crashlog_from_slice G (crashlog_to_bytes G c) = Inr \<lparr>cl_regions = regions_reread (cl_regions c),
      cl_metadata = metadata_default\<lparr>md_extra_cper_sections := md_extra_cper_sections (cl_metadata c)\<rparr>\<rparr>
    \<and> subseq (map region_bare (cl_regions c)) (regions_reread (cl_regions c))
    \<and> ((\<forall>region \<in> set (cl_regions c). region_flat region) \<longrightarrow> regions_reread (cl_regions c) = cl_regions c)"
  using crashlog_cper_roundtrip [OF assms] regions_reread_subseq regions_reread_flat by blast

definition example_region :: region where
  "example_region = \<lparr>reg_records = [example_record]\<rparr>"

definition example_crashlog :: "128 word crashlog" where
  "example_crashlog = \<lparr>cl_regions = [example_region, example_region],
     cl_metadata = metadata_default\<lparr>md_extra_cper_sections := [UnknownSection 5 [1, 2, 3]]\<rparr>\<rparr>"

text \<open>A box record, and the crash log of a region that consists of it\<close>
definition example_box :: crash_record where
  "example_box = \<lparr>rec_header = \<lparr>hdr_version = version_of_u32 0x3d07a108,
      hdr_size = \<lparr>rs_record_size = 4, rs_extended_record_size = 0\<rparr>, hdr_header_type = Type1\<rparr>,
    rec_data = [0x08, 0xa1, 0x07, 0x3d, 4, 0, 0, 0] @ example_header_bytes, rec_context = context_default\<rparr>"

definition example_box_region :: region where
  "example_box_region = \<lparr>reg_records = [example_box]\<rparr>"

definition example_box_crashlog :: "128 word crashlog" where
  "example_box_crashlog = \<lparr>cl_regions =
     [example_box_region, set_child_context example_region (rec_header example_box)], cl_metadata = metadata_default\<rparr>"

lemma example_region_ok: "region_ok example_region" "region_flat example_region" "region_ok example_box_region"
  "unpack_region (region_bare example_region) = [example_region]"
proof -
  show flat: "region_flat example_region" by code_simp
  show "region_ok example_region" "region_ok example_box_region" by code_simp+
  show "unpack_region (region_bare example_region) = [example_region]" using flat by (rule region_flat_reread)
qed

lemma example_lengths: "length (region_to_bytes example_region) = 8" "length (region_to_bytes example_box_region) = 16"
  "length (region_to_bytes (set_child_context example_region h)) = 8"
  by (simp_all add: example_region_def example_box_region_def example_box_def region_to_bytes_def
      set_child_context_def example_record_def example_header_bytes_def)

lemma example_crashlog_ok: "crashlog_ok uguid_word example_crashlog" "crashlog_ok uguid_word example_box_crashlog"
proof -
  have "FW_ERROR_RECORD uguid_word \<noteq> 5" by code_simp
  then show "crashlog_ok uguid_word example_crashlog" "crashlog_ok uguid_word example_box_crashlog"
    by (simp_all add: crashlog_ok_def example_crashlog_def example_box_crashlog_def example_region_ok example_lengths
        region_from_cper_section_def metadata_default_def
        crashlog_cper_size_def RECORD_HEADER_SIZE_def SECTION_DESCRIPTOR_SIZE_def HEADER_REV2_SIZE_def)
qed

lemma example_crashlog_reread: "regions_reread (cl_regions example_crashlog) = cl_regions example_crashlog"
  by (simp add: example_crashlog_def example_region_ok)

theorem crashlog_cper_export_import_witness:
  "crashlog_from_slice uguid_word (crashlog_to_bytes uguid_word example_crashlog)
     = Inr \<lparr>cl_regions = cl_regions example_crashlog,
       cl_metadata = metadata_default\<lparr>md_extra_cper_sections := md_extra_cper_sections (cl_metadata example_crashlog)\<rparr>\<rparr>
   \<and> crashlog_from_slice uguid_word (crashlog_to_bytes uguid_word example_box_crashlog)
     = Inr \<lparr>cl_regions = cl_regions example_box_crashlog @ [example_region], cl_metadata = metadata_default\<rparr>"
proof
  have "\<forall>region \<in> set (cl_regions example_crashlog). region_flat region"
    by (simp add: example_crashlog_def example_region_ok)
  with crashlog_cper_export_import [OF guid_word.guid_codec_axioms example_crashlog_ok(1)]
  show "crashlog_from_slice uguid_word (crashlog_to_bytes uguid_word example_crashlog)
     = Inr \<lparr>cl_regions = cl_regions example_crashlog,
       cl_metadata = metadata_default\<lparr>md_extra_cper_sections := md_extra_cper_sections (cl_metadata example_crashlog)\<rparr>\<rparr>"
    by simp
  have "regions_reread (cl_regions example_box_crashlog) = cl_regions example_box_crashlog @ [example_region]"
    by code_simp
  with crashlog_cper_export_import [OF guid_word.guid_codec_axioms example_crashlog_ok(2)]
  show "crashlog_from_slice uguid_word (crashlog_to_bytes uguid_word example_box_crashlog)
     = Inr \<lparr>cl_regions = cl_regions example_box_crashlog @ [example_region], cl_metadata = metadata_default\<rparr>"
    by (simp add: example_box_crashlog_def metadata_default_def)
qed

text \<open>A region that is nested in a box record is exported twice, with its box and on its own: a raw
  region with one box record is read as two regions, and its export is read as three.\<close>
theorem box_region_exported_twice:
  "crashlog_from_slice uguid_word (region_to_bytes example_box_region) = Inr example_box_crashlog
   \<and> (case crashlog_from_slice uguid_word (crashlog_to_bytes uguid_word example_box_crashlog) of
        Inr c \<Rightarrow> length (cl_regions c) = 3 | Inl _ \<Rightarrow> False)"
proof
  show "crashlog_from_slice uguid_word (region_to_bytes example_box_region) = Inr example_box_crashlog" by code_simp
  have "length (regions_reread (cl_regions example_box_crashlog)) = 3" by code_simp
  then show "case crashlog_from_slice uguid_word (crashlog_to_bytes uguid_word example_box_crashlog) of
        Inr c \<Rightarrow> length (cl_regions c) = 3 | Inl _ \<Rightarrow> False"
    using crashlog_cper_roundtrip [OF guid_word.guid_codec_axioms example_crashlog_ok(2)] by simp
qed

text \<open>C2. End to end: a crash log exported as a BERT file and decoded again has the same regions in the
  same order; a BERT file carries nothing else. The crash log must have a region and an export of
  less than \<open>2^32\<close> bytes, and the data of every record must start with its header and be as long as
  the header says, where only the last record of a region may be truncated. The regions come back
  without the parent headers they had, and a region with box records is followed by the regions
  nested in them; no region is lost or reordered, and the regions are the same when none of them has
  a box record or was nested in one.\<close>
theorem crashlog_bert_export_import:
  assumes "guid_codec G" and "cl_regions c \<noteq> []" and "\<forall>r \<in> set (cl_regions c). region_ok r"
    and "crashlog_berr_size c < 2 ^ 32"
  shows "crashlog_from_slice G (crashlog_to_bert G c)
      = Inr \<lparr>cl_regions = regions_reread (cl_regions c), cl_metadata = metadata_default\<rparr>
    \<and> subseq (map region_bare (cl_regions c)) (regions_reread (cl_regions c))
    \<and> ((\<forall>region \<in> set (cl_regions c). region_flat region) \<longrightarrow> regions_reread (cl_regions c) = cl_regions c)"
proof (intro conjI regions_reread_subseq impI regions_reread_flat)
  obtain b where "berr_from_slice G (berr_to_bytes G (berr_from_crashlog G c)) = Some b"
    and "from_berr G b = Inr \<lparr>cl_regions = regions_reread (cl_regions c), cl_metadata = metadata_default\<rparr>"
    using crashlog_berr_extract [OF assms] by blast
  then show "crashlog_from_slice G (crashlog_to_bert G c)
      = Inr \<lparr>cl_regions = regions_reread (cl_regions c), cl_metadata = metadata_default\<rparr>"
    by (simp add: crashlog_from_slice_def crashlog_to_bert_file)
qed

lemma example_crashlog_berr: "crashlog_berr_size example_crashlog < 2 ^ 32" "crashlog_berr_size example_box_crashlog < 2 ^ 32"
  by (simp_all add: example_crashlog_def example_box_crashlog_def example_lengths crashlog_berr_size_def
      DATA_ENTRY_HEADER_SIZE_def HEADER_REV2_SIZE_def)

theorem crashlog_bert_export_import_witness:
  "crashlog_from_slice uguid_word (crashlog_to_bert uguid_word example_crashlog)
     = Inr \<lparr>cl_regions = cl_regions example_crashlog, cl_metadata = metadata_default\<rparr>"
proof -
  have "crashlog_from_slice uguid_word (crashlog_to_bert uguid_word example_crashlog)
      = Inr \<lparr>cl_regions = regions_reread (cl_regions example_crashlog), cl_metadata = metadata_default\<rparr>"
    using crashlog_bert_export_import [OF guid_word.guid_codec_axioms _ _ example_crashlog_berr(1)]
    by (simp add: example_crashlog_def example_region_ok)
  then show ?thesis by (simp add: example_crashlog_reread)
qed

text \<open>C6. The queue of \<open>from_regions\<close> runs empty, and what it has gathered is the depth-first traversal:
  every region is followed by the regions nested in its box records, the last box first. No region
  is lost or reordered: the given regions are a subsequence of the result.\<close>
theorem from_regions_depth_first:
  "from_regions regions = (if regions = [] then Inl InvalidCrashLog
     else Inr \<lparr>cl_regions = concat (map unpack_region regions), cl_metadata = metadata_default\<rparr>)
   \<and> subseq regions (concat (map unpack_region regions))"
  using from_regions_unpack subseq_unpack by blast

text \<open>C21. Every region that was unpacked from a box record knows the header of that record: it is the
  parent header of all of its records, and its bytes lie within the payload of the box.\<close>
theorem box_region_context:
  assumes "box_region r = Some region"
  shows "is_box r \<and> (\<forall>x \<in> set (reg_records region). ctx_parent_header (rec_context x) = Some (rec_header r))
    \<and> (\<exists>rest. drop (header_size (rec_header r)) (rec_data r) = region_to_bytes region @ rest)"
proof -
  from assms obtain payload region' where payload: "slice_from (rec_data r) (header_size (rec_header r)) = Some payload"
    and r': "region_from_slice payload = Inr region'" and region: "region = set_child_context region' (rec_header r)"
    and box: "is_box r"
    by (auto simp: box_region_def split: if_splits option.splits sum.splits)
  have "drop (header_size (rec_header r)) (rec_data r) = payload"
    using payload by (auto simp: slice_from_def split: if_splits)
  moreover have "region_to_bytes region = region_to_bytes region'"
    by (simp add: region region_to_bytes_eq set_child_context_def comp_def)
  ultimately show ?thesis
    using box region_from_slice_cuts_aux [OF r'] by (auto simp: region set_child_context_def)
qed

theorem box_region_context_witness:
  "is_box example_box \<and> ctx_parent_header (rec_context (hd (reg_records
      (set_child_context example_region (rec_header example_box))))) = Some (rec_header example_box)"
proof -
  have "box_region example_box = Some (set_child_context example_region (rec_header example_box))" by code_simp
  from box_region_context [OF this] show ?thesis by (simp add: set_child_context_def example_region_def)
qed

end
