(* ===== verification/Collateral.thy ===== *)
theory Collateral
  imports Header "HOL-Library.Product_Lexorder"
begin

text \<open>
  The collateral manager (\<open>lib/src/collateral.rs\<close>, \<open>lib/src/collateral/target_info.rs\<close>), the tree
  embedded in the library (\<open>lib/src/collateral/embedded.rs\<close>), and the operations on headers that
  consult the manager (\<open>lib/src/header.rs\<close>). An implementation of the trait \<open>CollateralTree\<close> is the
  record of its two methods, applied to a tree that does not change. The maps are those of the
  \<open>no_std\<close> build, \<open>BTreeMap\<close>s, for the registry, whose iteration order is visible, and maps without
  order where only lookups are. \<open>serde_json::from_slice\<close> is a parameter that gives the raw fields
  of a target description.
\<close>

subsection \<open>Order of the keys\<close>

definition pvss_key :: "'a pvss_scheme \<Rightarrow> string \<times> string \<times> string \<times> string \<times> 'a" where
  "pvss_key p = (pvss_product p, pvss_variant p, pvss_stepping p, pvss_security p, pvss.more p)"

lemma pvss_key_inj: "pvss_key p = pvss_key q \<longleftrightarrow> p = q"
  by (auto simp: pvss_key_def intro: pvss.equality)

instantiation pvss_ext :: (linorder) linorder
begin

definition less_eq_pvss_ext :: "'a pvss_ext \<Rightarrow> 'a pvss_ext \<Rightarrow> bool" where
  "p \<le> q \<longleftrightarrow> pvss_key p \<le> pvss_key q"

definition less_pvss_ext :: "'a pvss_ext \<Rightarrow> 'a pvss_ext \<Rightarrow> bool" where
  "p < q \<longleftrightarrow> pvss_key p < pvss_key q"

instance
  by standard (auto simp: less_eq_pvss_ext_def less_pvss_ext_def pvss_key_inj simp flip: pvss_key_inj)

end

instantiation item_path :: linorder
begin

definition less_eq_item_path :: "item_path \<Rightarrow> item_path \<Rightarrow> bool" where
  "p \<le> q \<longleftrightarrow> item_elements p \<le> item_elements q"

definition less_item_path :: "item_path \<Rightarrow> item_path \<Rightarrow> bool" where
  "p < q \<longleftrightarrow> item_elements p < item_elements q"

instance
  by standard (auto simp: less_eq_item_path_def less_item_path_def item_path.expand)

end

subsection \<open>Collateral trees\<close>

text \<open>\<open>trait CollateralTree\<close>\<close>
record collateral_tree =
  tree_get :: "pvss \<Rightarrow> item_path \<Rightarrow> error + bytes"
  tree_search :: "item_path \<Rightarrow> error + pvss list"

text \<open>What a client can rely on: \<open>search\<close> returns the products for which \<open>get\<close> gives the item, and an
  absent item is reported as such.\<close>
locale collateral_provider =
  fixes tree :: collateral_tree
  assumes search_ok: "\<exists>ps. tree_search tree path = Inr ps"
    and search_get: "tree_search tree path = Inr ps \<Longrightarrow> p \<in> set ps \<longleftrightarrow> (\<exists>b. tree_get tree p path = Inr b)"
    and get_error: "tree_get tree p path = Inl e \<Longrightarrow> e = MissingCollateral p path"
begin

lemma search_hit: "tree_search tree path = Inr ps \<Longrightarrow> p \<in> set ps \<Longrightarrow> \<exists>b. tree_get tree p path = Inr b"
  using search_get by blast

end

subsection \<open>The embedded tree\<close>

type_synonym registry = "(pvss, (item_path, bytes) btree) btree"

definition insert_item :: "registry \<Rightarrow> string \<Rightarrow> string \<Rightarrow> string \<Rightarrow> string \<Rightarrow> string \<Rightarrow> bytes \<Rightarrow> registry" where
  "insert_item registry product variant stepping security path content =
     (let pvss = \<lparr>pvss_product = product, pvss_variant = variant, pvss_stepping = stepping,
            pvss_security = security\<rparr>;
          registry = (if bt_get registry pvss = None then bt_insert pvss [] registry else registry)
      in bt_modify pvss (bt_insert (item_from_str path) content) registry)"

definition embedded_get :: "registry \<Rightarrow> pvss \<Rightarrow> item_path \<Rightarrow> error + bytes" where
  "embedded_get registry pvss item =
     rbind (ok_or (MissingCollateral pvss item) (bt_get registry pvss)) (\<lambda>items.
       ok_or (MissingCollateral pvss item) (bt_get items item))"

definition embedded_search :: "registry \<Rightarrow> item_path \<Rightarrow> error + pvss list" where
  "embedded_search registry item =
     Inr (map fst (filter (\<lambda>(pvss, items). bt_get items item \<noteq> None) registry))"

definition embedded_tree :: "registry \<Rightarrow> collateral_tree" where
  "embedded_tree registry = \<lparr>tree_get = embedded_get registry, tree_search = embedded_search registry\<rparr>"

text \<open>\<open>EmbeddedTree::new\<close>: the generated file is a sequence of calls of \<open>insert_item\<close>.\<close>
definition embedded_new :: "(string \<times> string \<times> string \<times> string \<times> string \<times> bytes) list \<Rightarrow> registry" where
  "embedded_new calls = fold (\<lambda>(pr, va, st, se, path, content) r. insert_item r pr va st se path content) calls []"

definition registry_wf :: "registry \<Rightarrow> bool" where
  "registry_wf r \<longleftrightarrow> bt_wf r \<and> (\<forall>(p, items) \<in> set r. bt_wf items)"

lemma in_bt_modify: "(k, v) \<in> set (bt_modify k' f m) \<Longrightarrow> (k, v) \<in> set m \<or> (\<exists>w. (k, w) \<in> set m \<and> v = f w)"
  by (induction k' f m rule: bt_modify.induct) (auto split: if_splits)

lemma registry_wf_insert_item: "registry_wf r \<Longrightarrow> registry_wf (insert_item r a b c d path content)"
  unfolding insert_item_def Let_def registry_wf_def
  by (auto simp: bt_wf_modify btree.wf_insert intro!: btree.wf_insert
      dest!: in_bt_modify subsetD [OF set_bt_insert])

lemma registry_wf_new: "registry_wf (embedded_new calls)"
proof -
  have "registry_wf r \<Longrightarrow> registry_wf (fold (\<lambda>(pr, va, st, se, path, content) r.
      insert_item r pr va st se path content) calls r)" for r
    by (induction calls arbitrary: r) (auto simp: registry_wf_insert_item)
  moreover have "registry_wf []" by (simp add: registry_wf_def)
  ultimately show ?thesis by (simp add: embedded_new_def)
qed

lemma embedded_get_insert:
  "embedded_get (insert_item r pr va st se path content) p item =
     (if p = \<lparr>pvss_product = pr, pvss_variant = va, pvss_stepping = st, pvss_security = se\<rparr>
         \<and> item = item_from_str path
      then Inr content else embedded_get r p item)"
  by (auto simp: embedded_get_def insert_item_def Let_def bt_get_modify bt_get_insert split: option.split)

lemma embedded_provider:
  assumes "registry_wf r"
  shows "collateral_provider (embedded_tree r)"
proof
  fix path ps p e
  show "\<exists>ps. tree_search (embedded_tree r) path = Inr ps"
    by (simp add: embedded_tree_def embedded_search_def)
  show "p \<in> set ps \<longleftrightarrow> (\<exists>b. tree_get (embedded_tree r) p path = Inr b)"
    if "tree_search (embedded_tree r) path = Inr ps"
  proof -
    have "p \<in> set ps \<longleftrightarrow> (\<exists>items. (p, items) \<in> set r \<and> bt_get items path \<noteq> None)"
      using that by (force simp: embedded_tree_def embedded_search_def)
    also have "\<dots> \<longleftrightarrow> (\<exists>items. bt_get r p = Some items \<and> bt_get items path \<noteq> None)"
      using assms by (simp add: registry_wf_def btree.in_entries_iff)
    finally show ?thesis by (auto simp: embedded_tree_def embedded_get_def rbind_Inr_iff)
  qed
  show "e = MissingCollateral p path" if "tree_get (embedded_tree r) p path = Inl e"
    using that by (auto simp: embedded_tree_def embedded_get_def rbind_Inl_iff)
qed

interpretation embedded: collateral_provider "embedded_tree (embedded_new calls)" for calls
  by (rule embedded_provider [OF registry_wf_new])

subsection \<open>Target information\<close>

record target_info =
  ti_product :: string
  ti_product_id :: string
  ti_variant :: string
  ti_die_id :: "u8 \<rightharpoonup> string"

text \<open>The fields as they are in the JSON file; those with a default may be missing.\<close>
record raw_target_info =
  raw_product :: string
  raw_product_id :: string
  raw_variant :: "string option"
  raw_die_id :: "(string \<times> string) list"

definition default_variant :: string where "default_variant = ''all''"

text \<open>\<open>key.parse::<u8>()\<close>\<close>
definition parse_u8 :: "string \<Rightarrow> int_error + u8" where
  "parse_u8 s = (case from_str_radix 10 (2 ^ 8) s of Inl e \<Rightarrow> Inl e | Inr n \<Rightarrow> Inr (of_nat n))"

definition deserialize_die_ids :: "(string \<times> string) list \<Rightarrow> (u8 \<rightharpoonup> string)" where
  "deserialize_die_ids m =
     fold (\<lambda>(k, v) die_ids. hm_insert k v die_ids)
       (List.map_filter (\<lambda>(key, v). case parse_u8 key of Inr k \<Rightarrow> Some (k, v) | Inl _ \<Rightarrow> None) m) Map.empty"

definition target_info_from_raw :: "raw_target_info \<Rightarrow> target_info" where
  "target_info_from_raw r = \<lparr>ti_product = raw_product r, ti_product_id = raw_product_id r,
     ti_variant = (case raw_variant r of Some v \<Rightarrow> v | None \<Rightarrow> default_variant),
     ti_die_id = deserialize_die_ids (raw_die_id r)\<rparr>"

definition parse_product_id :: "string \<Rightarrow> int_error + u32" where
  "parse_product_id s =
     (case (if starts_with s ''0x'' then from_str_radix 16 (2 ^ 32) (drop 2 s) else from_str_radix 10 (2 ^ 32) s)
      of Inl e \<Rightarrow> Inl e | Inr n \<Rightarrow> Inr (of_nat n))"

subsection \<open>The manager\<close>

type_synonym item_index = "pvss \<times> item_path"

record collateral_manager =
  cm_tree :: collateral_tree
  cm_items :: "item_index \<rightharpoonup> bytes"
  cm_target_info :: "u32 \<rightharpoonup> target_info"

text \<open>The loop of \<open>update_target_info\<close>; \<open>J\<close> is \<open>serde_json::from_slice::<TargetInfo>\<close> on the raw fields.\<close>
fun load_target_infos :: "(bytes \<Rightarrow> raw_target_info option) \<Rightarrow> item_path \<Rightarrow> pvss list \<Rightarrow> collateral_manager
    \<Rightarrow> error + collateral_manager" where
  "load_target_infos J path [] cm = Inr cm"
| "load_target_infos J path (pvss # hits) cm =
     rbind (tree_get (cm_tree cm) pvss path) (\<lambda>content.
       case J content of
         None \<Rightarrow> load_target_infos J path hits cm
       | Some raw \<Rightarrow>
           (let target_info = target_info_from_raw raw in
            case parse_product_id (ti_product_id target_info) of
              Inr product_id \<Rightarrow> load_target_infos J path hits
                (cm\<lparr>cm_target_info := hm_insert product_id target_info (cm_target_info cm)\<rparr>)
            | Inl _ \<Rightarrow> load_target_infos J path hits cm))"

definition update_target_info ::
  "(bytes \<Rightarrow> raw_target_info option) \<Rightarrow> collateral_manager \<Rightarrow> error + collateral_manager" where
  "update_target_info J cm =
     (let cm = cm\<lparr>cm_target_info := Map.empty\<rparr>; path = ItemPath [''target_info.json''] in
      rbind (tree_search (cm_tree cm) path) (\<lambda>hits. load_target_infos J path hits cm))"

definition collateral_manager_new ::
  "(bytes \<Rightarrow> raw_target_info option) \<Rightarrow> collateral_tree \<Rightarrow> error + collateral_manager" where
  "collateral_manager_new J tree =
     update_target_info J \<lparr>cm_tree = tree, cm_items = Map.empty, cm_target_info = Map.empty\<rparr>"

text \<open>The operations that may fill the cache return the new state of the manager beside their result.\<close>

definition get_item_with_pvss ::
  "collateral_manager \<Rightarrow> pvss \<Rightarrow> item_path \<Rightarrow> (error + bytes) \<times> collateral_manager" where
  "get_item_with_pvss cm pvss path =
     (let index = (pvss, path) in
      if cm_items cm index = None then
        (case tree_get (cm_tree cm) pvss path of
           Inl e \<Rightarrow> (Inl e, cm)
         | Inr item \<Rightarrow>
             (let cm = cm\<lparr>cm_items := hm_insert index item (cm_items cm)\<rparr>
              in (ok_or InternalError (cm_items cm index), cm)))
      else (ok_or InternalError (cm_items cm index), cm))"

definition security_levels :: "string list" where
  "security_levels = [''red'', ''white'', ''green'', ''all'']"

text \<open>The loop of \<open>fetch_item\<close>\<close>
fun fetch_levels :: "collateral_manager \<Rightarrow> item_index \<Rightarrow> string list \<Rightarrow> (error + unit) \<times> collateral_manager" where
  "fetch_levels cm index [] = (Inl (MissingCollateral (fst index) (snd index)), cm)"
| "fetch_levels cm index (security # levels) =
     (case tree_get (cm_tree cm) ((fst index)\<lparr>pvss_security := security\<rparr>) (snd index) of
        Inr item \<Rightarrow> (Inr (), cm\<lparr>cm_items := hm_insert index item (cm_items cm)\<rparr>)
      | Inl _ \<Rightarrow> fetch_levels cm index levels)"

definition fetch_item :: "collateral_manager \<Rightarrow> item_index \<Rightarrow> (error + unit) \<times> collateral_manager" where
  "fetch_item cm index = fetch_levels cm index security_levels"

definition get_item_with_pvs ::
  "collateral_manager \<Rightarrow> pvss \<Rightarrow> item_path \<Rightarrow> (error + bytes) \<times> collateral_manager" where
  "get_item_with_pvs cm pvss path =
     (let index = (pvss, path) in
      if cm_items cm index = None then
        (case fetch_item cm index of
           (Inl e, cm) \<Rightarrow> (Inl e, cm)
         | (Inr _, cm) \<Rightarrow> (ok_or InternalError (cm_items cm index), cm))
      else (ok_or InternalError (cm_items cm index), cm))"

subsection \<open>Headers and the manager\<close>

definition header_product :: "header \<Rightarrow> collateral_manager \<Rightarrow> error + string" where
  "header_product h cm = ok_or (InvalidProductID (header_product_id h))
     (map_option ti_product (cm_target_info cm (header_product_id h)))"

definition header_variant :: "header \<Rightarrow> collateral_manager \<Rightarrow> string option" where
  "header_variant h cm = map_option ti_variant (cm_target_info cm (header_product_id h))"

definition get_die_name :: "header \<Rightarrow> u8 \<Rightarrow> collateral_manager \<Rightarrow> string option" where
  "get_die_name h die_id cm = do {
     target_info \<leftarrow> cm_target_info cm (header_product_id h);
     ti_die_id target_info die_id }"

definition header_die :: "header \<Rightarrow> collateral_manager \<Rightarrow> string option" where
  "header_die h cm = do { die_id \<leftarrow> header_die_id h; get_die_name h die_id cm }"

definition decode_definitions_paths :: "header \<Rightarrow> collateral_manager \<Rightarrow> error + item_path list" where
  "decode_definitions_paths h cm =
     rbind (header_record_type h) (\<lambda>record_type.
       let revision = show_dec (unat (header_revision h)) in
       Inr (case header_die h cm of
          Some die \<Rightarrow>
            (let die_id = trim_end_numeric die in
             [ItemPath [''decode-defs'', record_type, die_id, revision]])
        | None \<Rightarrow>
            [ItemPath [''decode-defs'', record_type, revision],
             ItemPath [''decode-defs'', record_type, ''all'']]))"

definition header_pvss :: "header \<Rightarrow> collateral_manager \<Rightarrow> error + pvss" where
  "header_pvss h cm =
     rbind (case header_product h cm of
         Inl (InvalidProductID n) \<Rightarrow> if n = 0 then Inr ''all'' else Inl (InvalidProductID n)
       | r \<Rightarrow> r) (\<lambda>product.
     let variant = (case header_variant h cm of Some v \<Rightarrow> v | None \<Rightarrow> ''all'') in
     Inr (pvss_default\<lparr>pvss_product := product, pvss_variant := variant\<rparr>))"

definition header_get_root_path_using_cm :: "header \<Rightarrow> collateral_manager \<Rightarrow> string option" where
  "header_get_root_path_using_cm h cm =
     (let path = (\<lambda>socket_id die. ''processors.cpu'' @ show_dec (unat (socket_id :: u8)) @ ''.'' @ die) in
      case hdr_header_type h of
        Type6 _ _ _ _ socket_id _ _ _ \<Rightarrow> map_option (path socket_id) (header_die h cm)
      | Type0LegacyServer _ _ _ _ socket_id _ _ \<Rightarrow> map_option (path socket_id) (header_die h cm)
      | _ \<Rightarrow> None)"

definition get_item_with_header ::
  "collateral_manager \<Rightarrow> header \<Rightarrow> item_path \<Rightarrow> (error + bytes) \<times> collateral_manager" where
  "get_item_with_header cm h path = (case header_pvss h cm of
     Inl e \<Rightarrow> (Inl e, cm) | Inr pvss \<Rightarrow> get_item_with_pvs cm pvss path)"

subsection \<open>The best item\<close>

text \<open>The item of the first security level, in order, that the tree has: what \<open>get_item_with_pvs\<close>
  promises\<close>
fun best_of_levels :: "collateral_tree \<Rightarrow> pvss \<Rightarrow> item_path \<Rightarrow> string list \<Rightarrow> bytes option" where
  "best_of_levels tree pvss path [] = None"
| "best_of_levels tree pvss path (security # levels) =
     (case tree_get tree (pvss\<lparr>pvss_security := security\<rparr>) path of
        Inr item \<Rightarrow> Some item | Inl _ \<Rightarrow> best_of_levels tree pvss path levels)"

definition best_item :: "collateral_tree \<Rightarrow> pvss \<Rightarrow> item_path \<Rightarrow> bytes option" where
  "best_item tree pvss path = best_of_levels tree pvss path [''red'', ''white'', ''green'', ''all'']"

text \<open>Everything in the cache is the best item of its index.\<close>
definition cache_coherent :: "collateral_manager \<Rightarrow> bool" where
  "cache_coherent cm \<longleftrightarrow> (\<forall>pvss path item. cm_items cm (pvss, path) = Some item \<longrightarrow>
     best_item (cm_tree cm) pvss path = Some item)"

lemma fetch_levels_eq:
  "fetch_levels cm (pvss, path) levels = (case best_of_levels (cm_tree cm) pvss path levels of
     None \<Rightarrow> (Inl (MissingCollateral pvss path), cm)
   | Some item \<Rightarrow> (Inr (), cm\<lparr>cm_items := hm_insert (pvss, path) item (cm_items cm)\<rparr>))"
  by (induction levels) (auto split: sum.split)

lemma hm_insert_apply [simp]: "hm_insert k v m k' = (if k' = k then Some v else m k')"
  by (simp add: hashmap.get_insert)

lemma get_item_with_pvs_cases:
  "get_item_with_pvs cm pvss path = (case cm_items cm (pvss, path) of
     Some item \<Rightarrow> (Inr item, cm)
   | None \<Rightarrow> (case best_item (cm_tree cm) pvss path of
       None \<Rightarrow> (Inl (MissingCollateral pvss path), cm)
     | Some item \<Rightarrow> (Inr item, cm\<lparr>cm_items := hm_insert (pvss, path) item (cm_items cm)\<rparr>)))"
  unfolding get_item_with_pvs_def fetch_item_def security_levels_def Let_def fetch_levels_eq
    best_item_def [symmetric]
  by (auto split: option.split)

text \<open>The cache is transparent: the result does not depend on it, and the manager stays coherent.\<close>

lemma get_item_with_pvs_spec:
  assumes "cache_coherent cm"
  shows "fst (get_item_with_pvs cm pvss path) = ok_or (MissingCollateral pvss path) (best_item (cm_tree cm) pvss path)"
    and "cache_coherent (snd (get_item_with_pvs cm pvss path))"
    and "cm_tree (snd (get_item_with_pvs cm pvss path)) = cm_tree cm"
    and "cm_target_info (snd (get_item_with_pvs cm pvss path)) = cm_target_info cm"
  using assms by (auto simp: get_item_with_pvs_cases cache_coherent_def split: option.split)

text \<open>Two managers that decode alike: the same tree and target information, both caches coherent\<close>
definition cm_equiv :: "collateral_manager \<Rightarrow> collateral_manager \<Rightarrow> bool" where
  "cm_equiv a b \<longleftrightarrow> cm_tree a = cm_tree b \<and> cm_target_info a = cm_target_info b
     \<and> cache_coherent a \<and> cache_coherent b"

lemma header_pvss_equiv: "cm_target_info a = cm_target_info b \<Longrightarrow> header_pvss h a = header_pvss h b"
  by (simp add: header_pvss_def header_product_def header_variant_def)

lemma get_item_with_header_equiv:
  assumes "cm_equiv a b"
  shows "fst (get_item_with_header a h path) = fst (get_item_with_header b h path)"
    and "cm_equiv a (snd (get_item_with_header a h path))"
  using assms get_item_with_pvs_spec [of a] get_item_with_pvs_spec [of b] header_pvss_equiv [of a b h]
  by (auto simp: cm_equiv_def get_item_with_header_def split: sum.split)

lemma cm_equiv_sym: "cm_equiv a b \<Longrightarrow> cm_equiv b a"
  by (simp add: cm_equiv_def)

lemma cm_equiv_trans: "cm_equiv a b \<Longrightarrow> cm_equiv b c \<Longrightarrow> cm_equiv a c"
  by (simp add: cm_equiv_def)

subsection \<open>Loading the target information\<close>

context collateral_provider
begin

lemma load_target_infos_ok:
  "\<forall>p \<in> set hits. \<exists>b. tree_get tree p path = Inr b \<Longrightarrow> cm_tree cm = tree \<Longrightarrow>
   \<exists>cm'. load_target_infos J path hits cm = Inr cm' \<and> cm_tree cm' = tree \<and> cm_items cm' = cm_items cm"
proof (induction hits arbitrary: cm)
  case Nil
  then show ?case by simp
next
  case (Cons p hits)
  from Cons.prems obtain b where b: "tree_get (cm_tree cm) p path = Inr b" by auto
  show ?case
  proof (cases "J b")
    case None
    with Cons b show ?thesis by simp
  next
    case (Some raw)
    show ?thesis
    proof (cases "parse_product_id (ti_product_id (target_info_from_raw raw))")
      case (Inl e)
      with Cons b Some show ?thesis by simp
    next
      case (Inr n)
      with Cons.IH [of "cm\<lparr>cm_target_info := hm_insert n (target_info_from_raw raw) (cm_target_info cm)\<rparr>"]
        Cons.prems b Some
      show ?thesis by simp
    qed
  qed
qed

lemma collateral_manager_new_ok:
  "\<exists>cm. collateral_manager_new J tree = Inr cm \<and> cm_tree cm = tree \<and> cache_coherent cm"
proof -
  let ?path = "ItemPath [''target_info.json'']"
  let ?cm = "\<lparr>cm_tree = tree, cm_items = Map.empty, cm_target_info = Map.empty\<rparr>"
  obtain hits where hits: "tree_search tree ?path = Inr hits" using search_ok by blast
  then have "\<forall>p \<in> set hits. \<exists>b. tree_get tree p ?path = Inr b" using search_hit by blast
  from load_target_infos_ok [OF this, of ?cm J] obtain cm where
    "load_target_infos J ?path hits ?cm = Inr cm" "cm_tree cm = tree" "cm_items cm = Map.empty" by auto
  with hits show ?thesis
    by (auto simp: collateral_manager_new_def update_target_info_def Let_def cache_coherent_def)
qed

end

subsection \<open>Properties\<close>

text \<open>C15. \<open>get_item_with_pvs\<close> returns the item with the highest security level the tree has, \<open>red\<close>
  before \<open>white\<close> before \<open>green\<close> before \<open>all\<close>, whatever security the caller gives and whatever was
  asked before: on a manager whose cache is coherent the cache cannot be observed, and it stays
  coherent. When no level has the item, the error names the item that was asked for.\<close>
theorem get_item_with_pvs_best:
  assumes "cache_coherent cm"
  shows "fst (get_item_with_pvs cm pvss path) = ok_or (MissingCollateral pvss path) (best_item (cm_tree cm) pvss path)
    \<and> cache_coherent (snd (get_item_with_pvs cm pvss path))
    \<and> cm_tree (snd (get_item_with_pvs cm pvss path)) = cm_tree cm
    \<and> best_item (cm_tree cm) (pvss\<lparr>pvss_security := s\<rparr>) path = best_item (cm_tree cm) pvss path"
proof -
  have "best_of_levels t (pvss\<lparr>pvss_security := s\<rparr>) path ls = best_of_levels t pvss path ls" for t ls
    by (induction ls) (auto split: sum.split)
  then have "best_item (cm_tree cm) (pvss\<lparr>pvss_security := s\<rparr>) path = best_item (cm_tree cm) pvss path"
    unfolding best_item_def .
  with get_item_with_pvs_spec [OF assms] show ?thesis by simp
qed

definition example_registry :: registry where
  "example_registry = embedded_new
     [(''XYZ'', ''all'', ''all'', ''green'', ''a/b'', [1]), (''XYZ'', ''all'', ''all'', ''red'', ''a/b'', [2]),
      (''XYZ'', ''all'', ''all'', ''all'', ''target_info.json'', [3])]"

definition example_pvss :: pvss where
  "example_pvss = pvss_default\<lparr>pvss_product := ''XYZ''\<rparr>"

definition example_cm :: collateral_manager where
  "example_cm = \<lparr>cm_tree = embedded_tree example_registry, cm_items = Map.empty, cm_target_info = Map.empty\<rparr>"

lemma example_cm_coherent: "cache_coherent example_cm"
  by (simp add: cache_coherent_def example_cm_def)

lemma example_best: "best_item (embedded_tree example_registry) example_pvss (item_from_str ''a/b'') = Some [2]"
  by code_simp

theorem get_item_with_pvs_best_witness:
  "fst (get_item_with_pvs example_cm example_pvss (item_from_str ''a/b'')) = Inr [2]"
  using get_item_with_pvs_best [OF example_cm_coherent, of example_pvss "item_from_str ''a/b''"] example_best
  by (simp add: example_cm_def)

text \<open>The cache is shared with \<open>get_item_with_pvss\<close>, which does look at the security level, under
  the same index: once \<open>get_item_with_pvs\<close> has been asked, \<open>get_item_with_pvss\<close> returns the item of the
  highest level instead of the one it was asked for.\<close>
theorem get_item_with_pvss_after_pvs:
  assumes "cache_coherent cm" and "best_item (cm_tree cm) pvss path = Some best"
  shows "fst (get_item_with_pvss (snd (get_item_with_pvs cm pvss path)) pvss path) = Inr best"
proof (cases "cm_items cm (pvss, path)")
  case None
  with assms show ?thesis by (simp add: get_item_with_pvs_cases get_item_with_pvss_def Let_def)
next
  case (Some item)
  with assms have "item = best" by (auto simp: cache_coherent_def)
  with Some show ?thesis by (simp add: get_item_with_pvs_cases get_item_with_pvss_def Let_def)
qed

theorem get_item_with_pvss_after_pvs_witness:
  "let p = example_pvss\<lparr>pvss_security := ''green''\<rparr>; path = item_from_str ''a/b'' in
   fst (get_item_with_pvss example_cm p path) = Inr [1]
   \<and> fst (get_item_with_pvss (snd (get_item_with_pvs example_cm p path)) p path) = Inr [2]"
proof -
  let ?p = "example_pvss\<lparr>pvss_security := ''green''\<rparr>" and ?path = "item_from_str ''a/b''"
  have best: "best_item (cm_tree example_cm) ?p ?path = Some [2]" by code_simp
  have "tree_get (cm_tree example_cm) ?p ?path = Inr [1]" by code_simp
  then have "fst (get_item_with_pvss example_cm ?p ?path) = Inr [1]"
    by (simp add: get_item_with_pvss_def example_cm_def Let_def)
  with get_item_with_pvss_after_pvs [OF example_cm_coherent best] show ?thesis by (simp add: Let_def)
qed

text \<open>The embedded tree returns exactly what was last registered: the items of all the calls of
  \<open>insert_item\<close> are found, a later call for the same item wins, and nothing else is found.\<close>
theorem embedded_get_last_insert:
  "embedded_get (embedded_new calls) p item =
     (case find (\<lambda>(pr, va, st, se, path, content). item = item_from_str path \<and>
          p = \<lparr>pvss_product = pr, pvss_variant = va, pvss_stepping = st, pvss_security = se\<rparr>) (rev calls) of
        Some (pr, va, st, se, path, content) \<Rightarrow> Inr content
      | None \<Rightarrow> Inl (MissingCollateral p item))"
proof (induction calls rule: rev_induct)
  case Nil
  then show ?case by (simp add: embedded_new_def embedded_get_def)
next
  case (snoc c calls)
  obtain pr va st se path content where c: "c = (pr, va, st, se, path, content)" by (cases c)
  have "embedded_new (calls @ [c]) = insert_item (embedded_new calls) pr va st se path content"
    by (simp add: embedded_new_def c)
  with snoc show ?case by (auto simp: c embedded_get_insert)
qed

text \<open>A manager for the embedded tree is always created: a product found by \<open>search\<close> has the item,
  and an invalid description or product identifier is skipped.\<close>
theorem collateral_manager_new_embedded:
  "\<exists>cm. collateral_manager_new J (embedded_tree (embedded_new calls)) = Inr cm
     \<and> cm_tree cm = embedded_tree (embedded_new calls) \<and> cache_coherent cm"
  by (rule embedded.collateral_manager_new_ok)

end
