(* ===== verification/Decode.thy ===== *)
theory Decode
  imports CrashLog Collateral
begin

text \<open>
  Decoding of records into register trees: \<open>lib/src/record/decode.rs\<close>, \<open>lib/src/record/core.rs\<close> and
  the decoding functions of \<open>lib/src/crashlog.rs\<close>. A decoder returns \<open>None\<close> when the code panics (the
  \<open>expect\<close> in \<open>create_hierarchy\<close>), and otherwise the \<open>Result\<close>. Decoders that take a collateral manager
  return its new state as well.
\<close>

subsection \<open>Decode definitions\<close>

record decode_entry =
  dde_name :: string
  dde_offset :: u64
  dde_size :: u64
  dde_description :: string

definition decode_entry_default :: decode_entry where
  "decode_entry_default = \<lparr>dde_name = [], dde_offset = 0, dde_size = 0, dde_description = []\<rparr>"

text \<open>The \<open>match\<close> on the name of a column\<close>
definition set_column :: "string \<Rightarrow> string \<Rightarrow> decode_entry \<Rightarrow> error + decode_entry" where
  "set_column column field entry =
     (if column = ''name'' then Inr (entry\<lparr>dde_name := field\<rparr>)
      else if column = ''offset'' then
        (case parse_usize field of Inl e \<Rightarrow> Inl (ParseIntError e) | Inr n \<Rightarrow> Inr (entry\<lparr>dde_offset := of_nat n\<rparr>))
      else if column = ''size'' then
        (case parse_usize field of Inl e \<Rightarrow> Inl (ParseIntError e) | Inr n \<Rightarrow> Inr (entry\<lparr>dde_size := of_nat n\<rparr>))
      else if column = ''description'' then Inr (entry\<lparr>dde_description := field\<rparr>)
      else Inr entry)"

text \<open>The loop over the fields of a line; a field without a column is ignored.\<close>
fun set_columns :: "string list \<Rightarrow> string list \<Rightarrow> decode_entry \<Rightarrow> error + decode_entry" where
  "set_columns (column # columns) (cell # cells) entry =
     rbind (set_column column cell entry) (set_columns columns cells)"
| "set_columns _ _ entry = Inr entry"

text \<open>The loop over the segments of a name that follow the first one\<close>
fun walk_path :: "string list \<Rightarrow> string list \<Rightarrow> string list" where
  "walk_path path [] = path"
| "walk_path path (segment # segments) =
     walk_path (if segment = [] then butlast path else path @ [segment]) segments"

text \<open>The update of the node at the end of the path\<close>
definition set_field :: "string \<Rightarrow> u64 option \<Rightarrow> node \<Rightarrow> node" where
  "set_field description val n = Node (node_name n) description
     (case val of Some v \<Rightarrow> NodeField v | None \<Rightarrow> node_kind n) (node_children n)"

text \<open>One line after the header line, from the tree and the current path to the next ones\<close>
definition decode_line :: "crash_record \<Rightarrow> u64 \<Rightarrow> string list \<Rightarrow> string \<Rightarrow> node \<times> string list
    \<Rightarrow> (error + node \<times> string list) option" where
  "decode_line r offset columns line state =
     (let (root, current_path) = state in
      case set_columns columns (split_on CHR '';'' line) decode_entry_default of
        Inl e \<Rightarrow> Some (Inl e)
      | Inr entry \<Rightarrow>
          (if dde_name entry = [] then Some (Inr (root, current_path))
           else case split_on CHR ''.'' (dde_name entry) of
             [] \<Rightarrow> Some (Inr (root, current_path))
           | front # segments \<Rightarrow>
               (let (root, current_path) =
                      (if front \<noteq> [] then
                         (if node_get root front = None then node_add root (node_record front) else root, [front])
                       else (root, current_path));
                    current_path = walk_path current_path segments;
                    val = read_field r (offset * 8 + dde_offset entry) (dde_size entry)
                in case create_hierarchy_from_iter root current_path (set_field (dde_description entry) val) of
                     None \<Rightarrow> None
                   | Some root \<Rightarrow> Some (Inr (root, current_path)))))"

fun decode_lines :: "crash_record \<Rightarrow> u64 \<Rightarrow> string list \<Rightarrow> string list \<Rightarrow> node \<times> string list
    \<Rightarrow> (error + node) option" where
  "decode_lines r offset columns [] state = Some (Inr (fst state))"
| "decode_lines r offset columns (line # ls) state =
     (case decode_line r offset columns line state of
        None \<Rightarrow> None
      | Some (Inl e) \<Rightarrow> Some (Inl e)
      | Some (Inr state) \<Rightarrow> decode_lines r offset columns ls state)"

definition decode_with_csv :: "crash_record \<Rightarrow> bytes \<Rightarrow> u64 \<Rightarrow> (error + node) option" where
  "decode_with_csv r layout offset =
     (case from_utf8 layout of
        Inl n \<Rightarrow> Some (Inl (Utf8Error n))
      | Inr csv \<Rightarrow>
          (case lines csv of
             [] \<Rightarrow> Some (Inr node_root)
           | line # ls \<Rightarrow> decode_lines r offset (split_on CHR '';'' line) ls (node_root, [])))"

subsection \<open>Decoding headers\<close>

definition decode_header :: "crash_record \<Rightarrow> node" where
  "decode_header r = node_add node_root
     (node_add (node_record (unwrap_or (header_record_type (rec_header r)) ''record''))
        (node_from_header (rec_header r)))"

definition record_get_root_path :: "crash_record \<Rightarrow> string option" where
  "record_get_root_path r = (case header_get_root_path (rec_header r) of
     Some custom_root \<Rightarrow> Some custom_root
   | None \<Rightarrow> (case ctx_parent_header (rec_context r) of
       Some parent_header \<Rightarrow> header_get_root_path parent_header
     | None \<Rightarrow> None))"

definition record_decode_without_cm :: "crash_record \<Rightarrow> node option" where
  "record_decode_without_cm r = (case record_get_root_path r of
     Some custom_root \<Rightarrow> create_hierarchy node_root custom_root (\<lambda>n. node_merge n (decode_header r))
   | None \<Rightarrow> Some (node_merge node_root (decode_header r)))"

subsection \<open>Decoding with the manager\<close>

definition record_get_root_path_using_cm :: "crash_record \<Rightarrow> collateral_manager \<Rightarrow> string option" where
  "record_get_root_path_using_cm r cm = (case header_get_root_path_using_cm (rec_header r) cm of
     Some custom_root \<Rightarrow> Some custom_root
   | None \<Rightarrow>
       (case (case ctx_parent_header (rec_context r) of
                Some parent_header \<Rightarrow> header_get_root_path_using_cm parent_header cm
              | None \<Rightarrow> None) of
          Some parent_custom_root \<Rightarrow> Some parent_custom_root
        | None \<Rightarrow> record_get_root_path r))"

text \<open>The loop over the candidate paths\<close>
fun decode_first_path :: "crash_record \<Rightarrow> collateral_manager \<Rightarrow> string \<Rightarrow> u64 \<Rightarrow> item_path list
    \<Rightarrow> ((error + node) \<times> collateral_manager) option" where
  "decode_first_path r cm decode_def offset [] =
     Some (Inl (MissingDecodeDefinitions (hdr_version (rec_header r))), cm)"
| "decode_first_path r cm decode_def offset (path # paths) =
     (case get_item_with_header cm (rec_header r) (item_push path decode_def) of
        (Inl _, cm) \<Rightarrow> decode_first_path r cm decode_def offset paths
      | (Inr layout, cm) \<Rightarrow>
          (case decode_with_csv r layout offset of
             None \<Rightarrow> None
           | Some (Inl e) \<Rightarrow> Some (Inl e, cm)
           | Some (Inr node) \<Rightarrow> Some (Inr (node_merge node_root node), cm)))"

definition decode_with_decode_def :: "crash_record \<Rightarrow> collateral_manager \<Rightarrow> string \<Rightarrow> u64
    \<Rightarrow> ((error + node) \<times> collateral_manager) option" where
  "decode_with_decode_def r cm decode_def offset =
     (case decode_definitions_paths (rec_header r) cm of
        Inl e \<Rightarrow> Some (Inl e, cm)
      | Inr paths \<Rightarrow> decode_first_path r cm decode_def offset paths)"

text \<open>The loop over the layouts of the extended record: the first one that decodes is merged.\<close>
fun merge_extension :: "crash_record \<Rightarrow> collateral_manager \<Rightarrow> u64 \<Rightarrow> string list \<Rightarrow> node
    \<Rightarrow> (node \<times> collateral_manager) option" where
  "merge_extension r cm offset [] root = Some (root, cm)"
| "merge_extension r cm offset (decode_def # defs) root =
     (case decode_with_decode_def r cm decode_def offset of
        None \<Rightarrow> None
      | Some (Inl _, cm) \<Rightarrow> merge_extension r cm offset defs root
      | Some (Inr extension, cm) \<Rightarrow> Some (node_merge root extension, cm))"

text \<open>The names of the levels above the subsection, from its \<open>whoami\<close> fields\<close>
definition core_hierarchy :: "node \<Rightarrow> string list" where
  "core_hierarchy subsection =
     List.map_filter (\<lambda>level. map_option (\<lambda>i. level @ show_dec (unat i))
         (node_get_value_by_path subsection (''hdr.whoami.'' @ level @ ''_id'')))
       [''module'', ''core'', ''thread'']"

text \<open>The loop of \<open>decode_as_core_record\<close> over the names of the subsections\<close>
fun decode_core_subsections :: "crash_record \<Rightarrow> collateral_manager \<Rightarrow> node \<Rightarrow> string list
    \<Rightarrow> ((error + node) \<times> collateral_manager) option" where
  "decode_core_subsections r cm sec [] = Some (Inl (MissingDecodeDefinitions (hdr_version (rec_header r))), cm)"
| "decode_core_subsections r cm sec (subsection_name # names) =
     (case decode_with_decode_def r cm (''layout_'' @ subsection_name @ ''.csv'') 0 of
        None \<Rightarrow> None
      | Some (Inl _, cm) \<Rightarrow> decode_core_subsections r cm sec names
      | Some (Inr root, cm) \<Rightarrow>
          (case (case extended_record_offset (rec_header r) of
                   Some offset \<Rightarrow> merge_extension r cm (of_nat offset) [''layout_sq.csv'', ''layout_module.csv''] root
                 | None \<Rightarrow> Some (root, cm)) of
             None \<Rightarrow> None
           | Some (root, cm) \<Rightarrow>
               (case node_get root subsection_name of
                  None \<Rightarrow> decode_core_subsections r cm sec names
                | Some subsection \<Rightarrow>
                    map_option (\<lambda>sec. (Inr (node_add node_root sec), cm))
                      (create_hierarchy_from_iter sec (core_hierarchy subsection) (\<lambda>n. node_merge n root)))))"

definition decode_as_core_record :: "crash_record \<Rightarrow> collateral_manager
    \<Rightarrow> ((error + node) \<times> collateral_manager) option" where
  "decode_as_core_record r cm = (case header_record_type (rec_header r) of
     Inl e \<Rightarrow> Some (Inl e, cm)
   | Inr record_type \<Rightarrow> decode_core_subsections r cm (node_record record_type) [''thread'', ''core''])"

definition is_core :: "crash_record \<Rightarrow> bool" where
  "is_core r \<longleftrightarrow> (ver_record_type (hdr_version (rec_header r)) = PCORE
       \<or> ver_record_type (hdr_version (rec_header r)) = ECORE)
     \<and> \<not> err_type0_legacy_server_box (errata_from_version (hdr_version (rec_header r)))"

definition record_decode :: "crash_record \<Rightarrow> collateral_manager \<Rightarrow> (node \<times> collateral_manager) option" where
  "record_decode r cm =
     (case (if is_core r then decode_as_core_record r cm else decode_with_decode_def r cm ''layout.csv'' 0) of
        None \<Rightarrow> None
      | Some (res, cm) \<Rightarrow>
          (let record_node = (case res of Inr node \<Rightarrow> node | Inl _ \<Rightarrow> decode_header r) in
           map_option (\<lambda>root. (root, cm))
             (case record_get_root_path_using_cm r cm of
                Some custom_root \<Rightarrow> create_hierarchy node_root custom_root (\<lambda>n. node_merge n record_node)
              | None \<Rightarrow> Some (node_merge node_root record_node))))"

subsection \<open>Decoding crash logs\<close>

text \<open>The records in the order of the two nested loops\<close>
definition crashlog_records :: "'g crashlog \<Rightarrow> crash_record list" where
  "crashlog_records c = concat (map reg_records (cl_regions c))"

fun merge_records_without_cm :: "node \<Rightarrow> crash_record list \<Rightarrow> node option" where
  "merge_records_without_cm root [] = Some root"
| "merge_records_without_cm root (r # rs) =
     (case record_decode_without_cm r of None \<Rightarrow> None
      | Some n \<Rightarrow> merge_records_without_cm (node_merge root n) rs)"

definition crashlog_decode_without_cm :: "'g crashlog \<Rightarrow> node option" where
  "crashlog_decode_without_cm c = merge_records_without_cm node_root (crashlog_records c)"

fun merge_records :: "node \<Rightarrow> collateral_manager \<Rightarrow> crash_record list \<Rightarrow> (node \<times> collateral_manager) option" where
  "merge_records root cm [] = Some (root, cm)"
| "merge_records root cm (r # rs) =
     (case record_decode r cm of None \<Rightarrow> None
      | Some (n, cm) \<Rightarrow> merge_records (node_merge root n) cm rs)"

definition crashlog_decode :: "'g crashlog \<Rightarrow> collateral_manager \<Rightarrow> (node \<times> collateral_manager) option" where
  "crashlog_decode c cm = merge_records node_root cm (crashlog_records c)"

subsection \<open>The values of a decode definition\<close>

text \<open>The value of the register at a path\<close>
definition value_at :: "node \<Rightarrow> string list \<Rightarrow> u64 option" where
  "value_at n path = (case node_get_path n path of Some m \<Rightarrow> node_value m | None \<Rightarrow> None)"

lemma value_at_simps [simp]:
  "value_at n [] = node_value n"
  "value_at n (x # xs) = (case node_get n x of Some c \<Rightarrow> value_at c xs | None \<Rightarrow> None)"
  by (auto simp: value_at_def split: option.split)

lemma value_at_leaf: "node_value n = None \<Longrightarrow> (\<And>x. node_get n x = None) \<Longrightarrow> value_at n path = None"
  by (cases path) auto

lemma value_at_section [simp]: "value_at (node_section s) path = None"
  by (rule value_at_leaf) (simp_all add: node_value_def)

lemma value_at_record [simp]: "value_at (node_record s) path = None"
  by (rule value_at_leaf) (simp_all add: node_value_def)

lemma value_at_root [simp]: "value_at node_root path = None"
  by (rule value_at_leaf) (simp_all add: node_value_def node_root_def node_get_def)

lemma node_value_add [simp]: "node_value (node_add n c) = node_value n"
  by (simp add: node_value_def)

lemma node_value_modify [simp]: "node_value (node_modify n x f) = node_value n"
  by (simp add: node_value_def)

lemma value_at_set_field:
  "value_at (set_field d v n) path
     = (if path = [] then (case v of Some x \<Rightarrow> Some x | None \<Rightarrow> value_at n []) else value_at n path)"
  by (cases path) (auto simp: set_field_def node_value_def node_get_def split: option.split)

text \<open>Setting the field at the end of a path changes the value at that path only.\<close>

lemma create_hierarchy_value_at:
  "create_hierarchy_from_iter n ps (set_field d v) = Some n' \<Longrightarrow>
   value_at n' q = (if q = ps then (case v of Some x \<Rightarrow> Some x | None \<Rightarrow> value_at n q) else value_at n q)"
proof (induction ps arbitrary: n n' q)
  case Nil
  then have "n' = set_field d v n" by simp
  then show ?case using value_at_set_field [of d v n q] by (auto split: option.splits)
next
  case (Cons x xs)
  define m where "m = (if node_get n x = None then node_add n (node_section x) else n)"
  from Cons.prems obtain c c' where c: "node_get m x = Some c"
    and c': "create_hierarchy_from_iter c xs (set_field d v) = Some c'" and n': "n' = node_modify m x (\<lambda>_. c')"
    by (auto simp: create_hierarchy_step m_def split: option.splits if_splits)
  from c have "node_get n x = None \<Longrightarrow> to_lowercase x = x"
    by (simp add: m_def split: if_splits)
  then have m: "value_at m q = value_at n q"
    by (cases q) (auto simp: m_def split: option.split)
  show ?case
  proof (cases q)
    case Nil
    with n' m show ?thesis by simp
  next
    case q: (Cons y ys)
    show ?thesis
    proof (cases "y = x")
      case True
      with q n' c have "value_at n' q = value_at c' ys" and "value_at c ys = value_at n q"
        using m by simp_all
      with Cons.IH [OF c', of ys] show ?thesis unfolding q True by (cases "ys = xs"; cases v) simp_all
    next
      case False
      with q n' have "value_at n' q = value_at m q" by simp
      with m q False show ?thesis by simp
    qed
  qed
qed

text \<open>The entries of a decode definition, in the order of its lines: the name as written, the
  absolute path it stands for and the value of the field in the record\<close>

type_synonym csv_field = "string \<times> string list \<times> u64 option"

definition csv_line :: "crash_record \<Rightarrow> u64 \<Rightarrow> string list \<Rightarrow> string \<Rightarrow> string list
    \<Rightarrow> error + string list \<times> csv_field list" where
  "csv_line r offset columns line path =
     rbind (set_columns columns (split_on CHR '';'' line) decode_entry_default) (\<lambda>entry.
       if dde_name entry = [] then Inr (path, [])
       else let segments = split_on CHR ''.'' (dde_name entry);
                path = walk_path (if hd segments \<noteq> [] then [hd segments] else path) (tl segments)
            in Inr (path, [(dde_name entry, path,
                 read_field r (offset * 8 + dde_offset entry) (dde_size entry))]))"

fun csv_lines :: "crash_record \<Rightarrow> u64 \<Rightarrow> string list \<Rightarrow> string list \<Rightarrow> string list \<Rightarrow> error + csv_field list" where
  "csv_lines r offset columns [] path = Inr []"
| "csv_lines r offset columns (line # ls) path =
     rbind (csv_line r offset columns line path) (\<lambda>(path, fs).
       rbind (csv_lines r offset columns ls path) (\<lambda>rest. Inr (fs @ rest)))"

definition csv_fields :: "crash_record \<Rightarrow> bytes \<Rightarrow> u64 \<Rightarrow> error + csv_field list" where
  "csv_fields r layout offset = (case from_utf8 layout of
     Inl n \<Rightarrow> Inl (Utf8Error n)
   | Inr csv \<Rightarrow> (case lines csv of [] \<Rightarrow> Inr [] | line # ls \<Rightarrow>
       csv_lines r offset (split_on CHR '';'' line) ls []))"

text \<open>The value the last entry that has one for the path leaves there, over an initial value\<close>
fun last_value :: "csv_field list \<Rightarrow> string list \<Rightarrow> u64 option \<Rightarrow> u64 option" where
  "last_value [] q v = v"
| "last_value ((name, p, w) # fs) q v = last_value fs q (if p = q \<and> w \<noteq> None then w else v)"

definition lower_name :: "csv_field \<Rightarrow> bool" where
  "lower_name f \<longleftrightarrow> to_lowercase (fst f) = fst f"

abbreviation lower_path :: "string list \<Rightarrow> bool" where
  "lower_path \<equiv> list_all (\<lambda>s. to_lowercase s = s)"

lemma lower_path_split:
  assumes "to_lowercase s = s"
  shows "lower_path (split_on c s)"
  using assms
proof (induction s)
  case Nil
  then show ?case by (simp add: to_lowercase_def)
next
  case (Cons a s)
  then have a: "char_lower a = a" and s: "to_lowercase s = s" by (simp_all add: to_lowercase_def)
  from Cons.IH [OF s] a show ?case
    by (cases "split_on c s") (auto simp: to_lowercase_def)
qed

lemma list_all_butlast: "list_all P xs \<Longrightarrow> list_all P (butlast xs)"
  by (induction xs) simp_all

lemma lower_path_walk: "lower_path path \<Longrightarrow> lower_path segs \<Longrightarrow> lower_path (walk_path path segs)"
proof (induction path segs rule: walk_path.induct)
  case (2 path s segs)
  then show ?case by (cases "s = []") (simp_all add: list_all_butlast)
qed simp

lemma lower_path_create:
  assumes "lower_path ps"
  obtains n' where "create_hierarchy_from_iter n ps f = Some n'"
proof (cases "create_hierarchy_from_iter n ps f")
  case None
  with assms show ?thesis unfolding create_hierarchy_from_iter_None_iff by (auto simp: list_all_length)
qed (rule that)

text \<open>One line of a decode definition and its entry\<close>

lemma decode_line_error:
  "csv_line r offset columns line path = Inl e \<Longrightarrow>
   decode_line r offset columns line (root, path) = Some (Inl e)"
  by (cases "set_columns columns (split_on CHR '';'' line) decode_entry_default")
    (auto simp: csv_line_def decode_line_def Let_def split: if_splits)

lemma decode_line_path:
  "csv_line r offset columns line path = Inr (path', fs) \<Longrightarrow>
   case decode_line r offset columns line (root, path) of
     None \<Rightarrow> True | Some (Inl e) \<Rightarrow> False | Some (Inr (root', p)) \<Rightarrow> p = path'"
  by (cases "set_columns columns (split_on CHR '';'' line) decode_entry_default";
      cases "split_on CHR ''.'' (dde_name (projr (set_columns columns (split_on CHR '';'' line) decode_entry_default)))")
    (auto simp: csv_line_def decode_line_def Let_def split: if_splits option.splits)

lemma decode_line_values:
  assumes "csv_line r offset columns line path = Inr (path', fs)" "list_all lower_name fs" "lower_path path"
  shows "\<exists>root'. decode_line r offset columns line (root, path) = Some (Inr (root', path')) \<and> lower_path path'
     \<and> (\<forall>q. value_at root' q = last_value fs q (value_at root q))"
proof -
  from assms(1) obtain entry where entry: "set_columns columns (split_on CHR '';'' line) decode_entry_default = Inr entry"
    by (auto simp: csv_line_def rbind_Inr_iff)
  show ?thesis
  proof (cases "dde_name entry = []")
    case True
    with entry assms show ?thesis by (simp add: csv_line_def decode_line_def)
  next
    case False
    obtain front segs where s: "split_on CHR ''.'' (dde_name entry) = front # segs"
      using split_where_not_Nil by (metis neq_Nil_conv)
    define root1 where "root1 = (if front \<noteq> [] \<and> node_get root front = None then node_add root (node_record front) else root)"
    define v where "v = read_field r (offset * 8 + dde_offset entry) (dde_size entry)"
    from assms(1) False s entry have path': "path' = walk_path (if front \<noteq> [] then [front] else path) segs"
      and fs: "fs = [(dde_name entry, path', v)]"
      by (auto simp: csv_line_def v_def Let_def)
    from assms(2) fs have "lower_path (front # segs)"
      unfolding s [symmetric] by (intro lower_path_split) (simp add: lower_name_def)
    then have front: "to_lowercase front = front" and segs: "lower_path segs" by simp_all
    then have lower: "lower_path path'" unfolding path' using assms(3) by (intro lower_path_walk) simp_all
    have impl: "decode_line r offset columns line (root, path)
        = (case create_hierarchy_from_iter root1 path' (set_field (dde_description entry) v) of
             None \<Rightarrow> None | Some root \<Rightarrow> Some (Inr (root, path')))"
      using False s entry by (auto simp: decode_line_def root1_def path' v_def Let_def split: option.split)
    have root1: "value_at root1 q = value_at root q" for q
      using front value_at_record [of front] 
      by (cases q) (auto simp: root1_def split: option.split)
    from lower obtain root2 where
      root2: "create_hierarchy_from_iter root1 path' (set_field (dde_description entry) v) = Some root2"
      by (rule lower_path_create)
    from create_hierarchy_value_at [OF root2] root1
    have "value_at root2 q = last_value fs q (value_at root q)" for q
      by (auto simp: fs split: option.split)
    with impl root2 lower show ?thesis by simp
  qed
qed

lemma last_value_append: "last_value (fs @ gs) q v = last_value gs q (last_value fs q v)"
  by (induction fs q v rule: last_value.induct) auto

lemma decode_lines_error:
  "csv_lines r offset columns ls path = Inl e \<Longrightarrow>
   decode_lines r offset columns ls (root, path) \<in> {None, Some (Inl e)}"
proof (induction ls arbitrary: root path)
  case Nil
  then show ?case by simp
next
  case (Cons line ls)
  show ?case
  proof (cases "csv_line r offset columns line path")
    case (Inl e')
    with Cons.prems decode_line_error [OF Inl] show ?thesis by simp
  next
    case (Inr pf)
    obtain path' fs where pf: "csv_line r offset columns line path = Inr (path', fs)"
      using Inr by (cases pf) simp
    with Cons.prems have rest: "csv_lines r offset columns ls path' = Inl e"
      by (cases "csv_lines r offset columns ls path'") simp_all
    from decode_line_path [OF pf, of root] Cons.IH [OF rest] show ?thesis
      by (auto split: option.splits sum.splits)
  qed
qed

lemma decode_lines_values:
  "csv_lines r offset columns ls path = Inr fs \<Longrightarrow> list_all lower_name fs \<Longrightarrow> lower_path path \<Longrightarrow>
   \<exists>root'. decode_lines r offset columns ls (root, path) = Some (Inr root')
     \<and> (\<forall>q. value_at root' q = last_value fs q (value_at root q))"
proof (induction ls arbitrary: root path fs)
  case Nil
  then show ?case by simp
next
  case (Cons line ls)
  from Cons.prems(1) obtain path' fs1 fs2 where
    line: "csv_line r offset columns line path = Inr (path', fs1)"
    and rest: "csv_lines r offset columns ls path' = Inr fs2" and fs: "fs = fs1 @ fs2"
    by (auto simp: rbind_Inr_iff)
  from Cons.prems(2) fs have low: "list_all lower_name fs1" "list_all lower_name fs2" by simp_all
  from decode_line_values [OF line low(1) Cons.prems(3), of root] obtain root1 where
    r1: "decode_line r offset columns line (root, path) = Some (Inr (root1, path'))" "lower_path path'"
      "\<forall>q. value_at root1 q = last_value fs1 q (value_at root q)" by blast
  from Cons.IH [OF rest low(2) r1(2), of root1] r1 fs show ?case
    by (auto simp: last_value_append)
qed

subsection \<open>Panics\<close>

lemma lower_path_root:
  assumes "record_get_root_path r = Some path"
  shows "lower_path (split_on CHR ''.'' path)"
proof (rule lower_path_split)
  have root: "header_get_root_path h = Some path \<Longrightarrow> to_lowercase path = path" for h
    by (auto simp: header_get_root_path_def Let_def to_lowercase_append to_lowercase_show_dec to_lowercase_def
        split: header_type.splits)
      (simp_all add: char_lower_def flip: to_lowercase_def)
  from assms root show "to_lowercase path = path"
    by (auto simp: record_get_root_path_def split: option.splits)
qed

lemma node_merge_single:
  assumes "node_get n (node_name c) = None" "node_children m = [(k, c)]"
  shows "node_merge n m = node_add n c"
  using assms by simp

definition header_record_node :: "crash_record \<Rightarrow> node" where
  "header_record_node r = node_add (node_record (unwrap_or (header_record_type (rec_header r)) ''record''))
     (node_from_header (rec_header r))"

lemma decode_header_children:
  "node_children (decode_header r) = [(node_name (header_record_node r), header_record_node r)]"
proof -
  have "node_children (node_add node_root c) = [(node_name c, c)]" for c
    by (simp add: node_add_def node_root_def)
  then show ?thesis unfolding decode_header_def header_record_node_def .
qed

lemma node_name_from_header [simp]: "node_name (node_from_header h) = ''hdr''"
proof -
  have "node_name (node_adds n cs) = node_name n" for n cs
    by (induction cs arbitrary: n) (simp_all add: node_adds_def)
  then show ?thesis by (simp add: node_from_header_def to_lowercase_def char_lower_def)
qed

lemma node_get_path_append:
  "node_get_path n (ps @ qs) = (case node_get_path n ps of None \<Rightarrow> None | Some m \<Rightarrow> node_get_path m qs)"
  by (induction ps arbitrary: n) (auto split: Option.bind_splits option.splits)

lemma create_hierarchy_fresh:
  assumes "create_hierarchy_from_iter n ps f = Some n'" "\<And>x. node_get n x = None" "ps \<noteq> []"
  shows "node_get_path n' ps = Some (f (node_section (last ps)))"
  using assms
proof (induction ps arbitrary: n n')
  case Nil
  then show ?case by simp
next
  case (Cons x xs)
  from Cons.prems(1) obtain c' where x: "to_lowercase x = x"
    and c': "create_hierarchy_from_iter (node_section x) xs f = Some c'"
    and n': "n' = node_modify (node_add n (node_section x)) x (\<lambda>_. c')"
    by (auto simp: create_hierarchy_step Cons.prems(2) split: option.splits if_splits)
  have "node_get n' x = Some c'" by (simp add: n' x)
  moreover have "node_get_path c' xs = Some (f (node_section (last (x # xs))))"
    using c' Cons.IH [OF c'] by (cases "xs = []") simp_all
  ultimately show ?case by simp
qed

text \<open>Where a record belongs: the socket and the die that a header of type 6 or of a legacy server names\<close>
fun socket_and_die :: "header_type \<Rightarrow> (u8 \<times> u8) option" where
  "socket_and_die (Type6 timestamp agent reason die socket n status complete) = Some (socket, die)"
| "socket_and_die (Type0LegacyServer timestamp agent reason die socket status complete) = Some (socket, die)"
| "socket_and_die _ = None"

definition place_path :: "u8 \<times> u8 \<Rightarrow> string list" where
  "place_path place = (case place of (socket, die) \<Rightarrow>
     [''processors'', ''cpu'' @ show_dec (unat socket), ''die'' @ show_dec (unat die)])"

definition record_place :: "crash_record \<Rightarrow> string list" where
  "record_place r = (case (socket_and_die (hdr_header_type (rec_header r)), ctx_parent_header (rec_context r)) of
     (Some place, _) \<Rightarrow> place_path place
   | (None, None) \<Rightarrow> []
   | (None, Some parent) \<Rightarrow>
       (case socket_and_die (hdr_header_type parent) of Some place \<Rightarrow> place_path place | None \<Rightarrow> []))"

lemma header_root_place:
  "map_option (split_on CHR ''.'') (header_get_root_path h) = map_option place_path (socket_and_die (hdr_header_type h))"
proof -
  have dec: "\<forall>c \<in> set (show_dec n). c \<noteq> CHR ''.''" for n
    by (auto simp: is_numeric_def dest: show_dec_numeric)
  have "split_on CHR ''.'' (''processors'' @ CHR ''.'' # (''cpu'' @ show_dec m) @ CHR ''.'' # ''die'' @ show_dec n)
      = [''processors'', ''cpu'' @ show_dec m, ''die'' @ show_dec n]" for m n
  proof (subst split_where_sep)
    show "''processors'' # split_on CHR ''.'' ((''cpu'' @ show_dec m) @ CHR ''.'' # ''die'' @ show_dec n)
        = [''processors'', ''cpu'' @ show_dec m, ''die'' @ show_dec n]"
      using dec [of m] dec [of n] by (subst split_where_sep) (auto simp: split_where_none)
  qed auto
  then show ?thesis
    by (cases "hdr_header_type h") (auto simp: header_get_root_path_def Let_def place_path_def)
qed

lemma record_root_place:
  "(case record_get_root_path r of None \<Rightarrow> [] | Some path \<Rightarrow> split_on CHR ''.'' path) = record_place r"
proof -
  have place: "(header_get_root_path h = None \<and> socket_and_die (hdr_header_type h) = None)
      \<or> (\<exists>path place. header_get_root_path h = Some path \<and> socket_and_die (hdr_header_type h) = Some place
           \<and> split_on CHR ''.'' path = place_path place)" for h
    using header_root_place [of h]
    by (cases "header_get_root_path h"; cases "socket_and_die (hdr_header_type h)") auto
  show ?thesis
  proof (cases "ctx_parent_header (rec_context r)")
    case None
    with place [of "rec_header r"] show ?thesis by (auto simp: record_get_root_path_def record_place_def)
  next
    case (Some parent)
    with place [of "rec_header r"] place [of parent] show ?thesis
      by (auto simp: record_get_root_path_def record_place_def)
  qed
qed

lemma record_decode_without_cm_place:
  "\<exists>root. record_decode_without_cm r = Some root
     \<and> node_get_path root
          (record_place r @ [to_lowercase (unwrap_or (header_record_type (rec_header r)) ''record''), ''hdr''])
        = Some (node_from_header (rec_header r))"
  unfolding record_root_place [symmetric]
proof -
  have hdr: "node_get_path (node_add n (header_record_node r))
      [to_lowercase (unwrap_or (header_record_type (rec_header r)) ''record''), ''hdr'']
      = Some (node_from_header (rec_header r))" for n
    by (simp add: header_record_node_def node_name_from_header)
  have add: "node_merge n (decode_header r) = node_add n (header_record_node r)"
    if "\<And>x. node_get n x = None" for n
    using that decode_header_children by (rule node_merge_single)
  show "\<exists>root. record_decode_without_cm r = Some root
     \<and> node_get_path root
          ((case record_get_root_path r of None \<Rightarrow> [] | Some path \<Rightarrow> split_on CHR ''.'' path)
           @ [to_lowercase (unwrap_or (header_record_type (rec_header r)) ''record''), ''hdr''])
        = Some (node_from_header (rec_header r))"
  proof (cases "record_get_root_path r")
    case None
    with hdr add [of node_root] show ?thesis
      by (simp add: record_decode_without_cm_def node_root_def node_get_def)
  next
    case (Some path)
    from lower_path_root [OF Some] obtain root
      where root: "create_hierarchy node_root path (\<lambda>n. node_merge n (decode_header r)) = Some root"
      unfolding create_hierarchy_def by (rule lower_path_create)
    then have "node_get_path root (split_on CHR ''.'' path)
        = Some (node_merge (node_section (last (split_on CHR ''.'' path))) (decode_header r))"
      unfolding create_hierarchy_def
      by (rule create_hierarchy_fresh) (simp_all add: node_root_def node_get_def)
    with root Some hdr add [of "node_section (last (split_on CHR ''.'' path))"] show ?thesis
      by (simp add: record_decode_without_cm_def node_get_path_append)
  qed
qed

text \<open>C28. Decoding without collateral never panics: the header of the record is always decoded. It is
  found under \<open>processors.cpu<socket>.die<die>\<close> with the socket and the die that the header of the
  record names, if it is of type 6 or of a legacy server; otherwise with those that the header of the
  box record names that the record was unpacked from, if there is one of these types; otherwise it is
  found at the root. There its path is the name of the type of the record (\<open>record\<close> if the type has
  none) in lower case, followed by \<open>hdr\<close>.\<close>
theorem record_decode_without_cm_header:
  "\<exists>root. record_decode_without_cm r = Some root
     \<and> node_get_path root
          ((case (socket_and_die (hdr_header_type (rec_header r)),
                  map_option (\<lambda>parent. socket_and_die (hdr_header_type parent)) (ctx_parent_header (rec_context r))) of
              (Some (socket, die), _) \<Rightarrow> [''processors'', ''cpu'' @ show_dec (unat socket), ''die'' @ show_dec (unat die)]
            | (None, Some (Some (socket, die))) \<Rightarrow>
                [''processors'', ''cpu'' @ show_dec (unat socket), ''die'' @ show_dec (unat die)]
            | _ \<Rightarrow> [])
           @ [to_lowercase (unwrap_or (header_record_type (rec_header r)) ''record''), ''hdr''])
        = Some (node_from_header (rec_header r))"
proof -
  have "record_place r = (case (socket_and_die (hdr_header_type (rec_header r)),
                  map_option (\<lambda>parent. socket_and_die (hdr_header_type parent)) (ctx_parent_header (rec_context r))) of
              (Some (socket, die), _) \<Rightarrow> [''processors'', ''cpu'' @ show_dec (unat socket), ''die'' @ show_dec (unat die)]
            | (None, Some (Some (socket, die))) \<Rightarrow>
                [''processors'', ''cpu'' @ show_dec (unat socket), ''die'' @ show_dec (unat die)]
            | _ \<Rightarrow> [])"
    by (auto simp: record_place_def place_path_def split: option.split)
  with record_decode_without_cm_place [of r] show ?thesis by simp
qed

text \<open>A record of type 1 that was unpacked from a box record of die 2 of socket 1\<close>
definition example_child :: crash_record where
  "example_child = example_record\<lparr>rec_context := context_default\<lparr>ctx_parent_header :=
     Some (example_header\<lparr>hdr_header_type := Type6 0 0 0 2 1 0 [] True\<rparr>)\<rparr>\<rparr>"

theorem record_decode_without_cm_header_witness:
  "\<exists>root. record_decode_without_cm example_child = Some root
     \<and> node_get_path root [''processors'', ''cpu1'', ''die2'', to_lowercase (unwrap_or (header_record_type example_header) ''record''), ''hdr'']
        = Some (node_from_header example_header)"
proof -
  have "show_dec 1 = ''1''" "show_dec 2 = ''2''" by code_simp+
  then show ?thesis
    using record_decode_without_cm_header [of example_child]
    by (simp add: example_child_def example_record_def example_header_def)
qed

text \<open>Hence a whole crash log always decodes without collateral.\<close>
theorem crashlog_decode_without_cm_total: "\<exists>root. crashlog_decode_without_cm c = Some root"
proof -
  have "\<exists>root. merge_records_without_cm n rs = Some root" for n rs
  proof (induction rs arbitrary: n)
    case (Cons r rs)
    with record_decode_without_cm_place [of r] show ?case by (auto split: option.split)
  qed simp
  then show ?thesis by (simp add: crashlog_decode_without_cm_def)
qed

subsection \<open>Decoding does not depend on the cache\<close>

text \<open>Two outcomes of a decoder that takes the manager agree when both panic or both give the same
  result and managers that decode alike.\<close>
definition same_outcome :: "collateral_manager \<Rightarrow> ('a \<times> collateral_manager) option
    \<Rightarrow> ('a \<times> collateral_manager) option \<Rightarrow> bool" where
  "same_outcome cm x y \<longleftrightarrow> (x = None \<and> y = None)
     \<or> (\<exists>v a b. x = Some (v, a) \<and> y = Some (v, b) \<and> cm_equiv a b \<and> cm_equiv cm a)"

lemma same_outcome_Some [intro]: "cm_equiv a b \<Longrightarrow> cm_equiv cm a \<Longrightarrow> same_outcome cm (Some (v, a)) (Some (v, b))"
  by (simp add: same_outcome_def)

lemma same_outcome_None [simp]: "same_outcome cm None None"
  by (simp add: same_outcome_def)

lemma same_outcome_trans: "cm_equiv cm a \<Longrightarrow> same_outcome a x y \<Longrightarrow> same_outcome cm x y"
  by (auto simp: same_outcome_def intro: cm_equiv_trans)

lemma same_outcome_cases:
  assumes "same_outcome cm x y"
  obtains "x = None" "y = None"
  | v a b where "x = Some (v, a)" "y = Some (v, b)" "cm_equiv a b" "cm_equiv cm a"
  using assms by (auto simp: same_outcome_def)

lemma same_outcome_map:
  assumes "cm_equiv a b" "cm_equiv cm a"
  shows "same_outcome cm (map_option (\<lambda>v. (f v, a)) x) (map_option (\<lambda>v. (f v, b)) x)"
  using assms by (cases x) auto

lemma decode_first_path_equiv:
  "cm_equiv a b \<Longrightarrow> same_outcome a (decode_first_path r a def offset paths) (decode_first_path r b def offset paths)"
proof (induction paths arbitrary: a b)
  case Nil
  then show ?case by (auto simp: cm_equiv_def)
next
  case (Cons path paths)
  let ?get = "\<lambda>cm. get_item_with_header cm (rec_header r) (item_push path def)"
  obtain v a' b' where get: "?get a = (v, a')" "?get b = (v, b')"
    using get_item_with_header_equiv(1) [OF Cons.prems] by (metis prod.collapse)
  from get_item_with_header_equiv(2) [OF Cons.prems] get_item_with_header_equiv(2) [OF cm_equiv_sym [OF Cons.prems]] get
  have eq: "cm_equiv a a'" "cm_equiv b b'" by (metis snd_conv)+
  then have ab: "cm_equiv a' b'" using Cons.prems by (metis cm_equiv_sym cm_equiv_trans)
  show ?case
  proof (cases v)
    case (Inl e)
    with get same_outcome_trans [OF eq(1) Cons.IH [OF ab]] show ?thesis by simp
  next
    case (Inr layout)
    with get ab eq show ?thesis by (auto split: option.split sum.split)
  qed
qed

lemma decode_definitions_paths_equiv:
  "cm_equiv a b \<Longrightarrow> decode_definitions_paths h a = decode_definitions_paths h b"
  by (simp add: decode_definitions_paths_def header_die_def get_die_name_def header_product_def header_variant_def cm_equiv_def fun_eq_iff)

lemma decode_with_decode_def_equiv:
  assumes "cm_equiv a b"
  shows "same_outcome a (decode_with_decode_def r a def offset) (decode_with_decode_def r b def offset)"
  using assms decode_first_path_equiv [OF assms]
  by (auto simp: decode_with_decode_def_def decode_definitions_paths_equiv [OF assms] cm_equiv_def split: sum.split)

lemma merge_extension_equiv:
  "cm_equiv a b \<Longrightarrow> same_outcome a (merge_extension r a offset defs root) (merge_extension r b offset defs root)"
proof (induction defs arbitrary: a b)
  case Nil
  then show ?case by (auto simp: cm_equiv_def)
next
  case (Cons def defs)
  from decode_with_decode_def_equiv [OF Cons.prems, of r def offset] show ?case
  proof (cases rule: same_outcome_cases)
    case (2 v a' b')
    with same_outcome_trans [OF 2(4) Cons.IH [OF 2(3)]] show ?thesis by (cases v) auto
  qed simp
qed

lemma decode_core_subsections_equiv:
  "cm_equiv a b \<Longrightarrow> same_outcome a (decode_core_subsections r a sec names) (decode_core_subsections r b sec names)"
proof (induction names arbitrary: a b)
  case Nil
  then show ?case by (auto simp: cm_equiv_def)
next
  case (Cons name names)
  let ?ext = "\<lambda>cm root. case extended_record_offset (rec_header r) of
      Some offset \<Rightarrow> merge_extension r cm (of_nat offset) [''layout_sq.csv'', ''layout_module.csv''] root
    | None \<Rightarrow> Some (root, cm)"
  from decode_with_decode_def_equiv [OF Cons.prems, of r "''layout_'' @ name @ ''.csv''" 0] show ?case
  proof (cases rule: same_outcome_cases)
    case 1
    then show ?thesis by simp
  next
    case (2 v a1 b1)
    show ?thesis
    proof (cases v)
      case (Inl e)
      with 2 same_outcome_trans [OF 2(4) Cons.IH [OF 2(3)]] show ?thesis by simp
    next
      case (Inr root)
      have "same_outcome a1 (?ext a1 root) (?ext b1 root)"
        using 2(3) merge_extension_equiv [OF 2(3)]
        by (auto simp: cm_equiv_def simp del: merge_extension.simps split: option.split)
      then show ?thesis
      proof (cases rule: same_outcome_cases)
        case 1
        with 2 Inr show ?thesis by simp
      next
        case ext: (2 root' a2 b2)
        have aa: "cm_equiv a a2" using 2(4) ext(4) by (rule cm_equiv_trans)
        have "same_outcome a (map_option (\<lambda>s. (Inr (node_add node_root s) :: error + node, a2)) t)
            (map_option (\<lambda>s. (Inr (node_add node_root s), b2)) t)" for t
          using aa ext(3) by (intro same_outcome_map)
        with 2 Inr ext same_outcome_trans [OF aa Cons.IH [OF ext(3)]] show ?thesis
          by (simp del: merge_extension.simps split: option.split)
      qed
    qed
  qed
qed

lemma record_get_root_path_using_cm_equiv:
  "cm_equiv a b \<Longrightarrow> record_get_root_path_using_cm r a = record_get_root_path_using_cm r b"
proof -
  assume "cm_equiv a b"
  then have "header_die h a = header_die h b" for h
    by (simp add: header_get_root_path_using_cm_def header_die_def get_die_name_def header_product_def header_variant_def cm_equiv_def fun_eq_iff)
  then have "header_get_root_path_using_cm h a = header_get_root_path_using_cm h b" for h
    by (simp add: header_get_root_path_using_cm_def split: header_type.split)
  then show ?thesis by (simp add: record_get_root_path_using_cm_def split: option.split)
qed

lemma record_decode_equiv:
  assumes "cm_equiv a b"
  shows "same_outcome a (record_decode r a) (record_decode r b)"
proof -
  let ?dec = "\<lambda>cm. if is_core r then decode_as_core_record r cm else decode_with_decode_def r cm ''layout.csv'' 0"
  have "same_outcome a (?dec a) (?dec b)"
    using assms decode_with_decode_def_equiv [OF assms] decode_core_subsections_equiv [OF assms]
    by (auto simp: decode_as_core_record_def cm_equiv_def simp del: decode_core_subsections.simps split: sum.split)
  then show ?thesis
  proof (cases rule: same_outcome_cases)
    case 1
    then show ?thesis by (simp add: record_decode_def)
  next
    case (2 v a' b')
    have "same_outcome a (map_option (\<lambda>root. (root, a')) x) (map_option (\<lambda>root. (root, b')) x)" for x
      using 2 by (intro same_outcome_map)
    with 2 record_get_root_path_using_cm_equiv [OF 2(3)] show ?thesis by (simp add: record_decode_def Let_def)
  qed
qed

lemma merge_records_equiv:
  "cm_equiv a b \<Longrightarrow> same_outcome a (merge_records root a rs) (merge_records root b rs)"
proof (induction rs arbitrary: root a b)
  case Nil
  then show ?case by (auto simp: cm_equiv_def)
next
  case (Cons r rs)
  from record_decode_equiv [OF Cons.prems, of r] show ?case
  proof (cases rule: same_outcome_cases)
    case (2 n a' b')
    with same_outcome_trans [OF 2(4) Cons.IH [OF 2(3)]] show ?thesis by simp
  qed simp
qed

text \<open>C16. The decoded tree does not depend on what the collateral manager has in its cache: two managers
  over the same tree and target information, with coherent caches, give the same outcome (the same tree
  or both a panic), and the managers they leave behind are again interchangeable.\<close>
theorem crashlog_decode_cache_independent:
  assumes "cm_equiv a b"
  shows "map_option fst (crashlog_decode c a) = map_option fst (crashlog_decode c b)
    \<and> rel_option cm_equiv (map_option snd (crashlog_decode c a)) (map_option snd (crashlog_decode c b))"
  using merge_records_equiv [OF assms, of node_root "crashlog_records c"]
  by (auto simp: crashlog_decode_def same_outcome_def)

theorem crashlog_decode_cache_independent_witness:
  "let warm = snd (get_item_with_pvs example_cm example_pvss (item_from_str ''a/b'')) in
   map_option fst (crashlog_decode example_crashlog example_cm) = map_option fst (crashlog_decode example_crashlog warm)"
proof -
  let ?warm = "snd (get_item_with_pvs example_cm example_pvss (item_from_str ''a/b''))"
  have "cm_equiv example_cm ?warm"
    using get_item_with_pvs_spec [OF example_cm_coherent, of example_pvss "item_from_str ''a/b''"]
    by (simp add: cm_equiv_def example_cm_coherent)
  from crashlog_decode_cache_independent [OF this, of example_crashlog] show ?thesis by (simp add: Let_def)
qed

subsection \<open>Decode definitions give the values of their fields\<close>

text \<open>C7. The tree of a decode definition has the value of each field of the record at the path of its
  line, absolute or relative to the line before; a later line for the same path wins, a field that is
  not read (too large, or past the end of the record) leaves the earlier value, and no other path has a
  value. The names of the definition are in lower case.\<close>
theorem decode_with_csv_values:
  assumes "csv_fields r layout offset = Inr fs" and "list_all lower_name fs"
  shows "\<exists>root. decode_with_csv r layout offset = Some (Inr root) \<and> (\<forall>q. value_at root q = last_value fs q None)"
proof -
  from assms(1) obtain csv where csv: "from_utf8 layout = Inr csv"
    by (auto simp: csv_fields_def split: sum.splits)
  show ?thesis
  proof (cases "lines csv")
    case Nil
    with assms(1) csv show ?thesis by (simp add: csv_fields_def decode_with_csv_def)
  next
    case (Cons line ls)
    with assms csv have "csv_lines r offset (split_on CHR '';'' line) ls [] = Inr fs"
      by (simp add: csv_fields_def)
    from decode_lines_values [OF this assms(2), of node_root] Cons csv show ?thesis
      by (simp add: decode_with_csv_def)
  qed
qed

definition example_layout :: bytes where
  "example_layout = map of_char (''name;offset;size;description;bitfield'' @ [CHR 0x0A]
     @ ''foo.bar;0;8;;0'' @ [CHR 0x0A] @ ''..baz;4;4;a note;1'')"

definition example_data_record :: crash_record where
  "example_data_record = example_record\<lparr>rec_data := [0x42]\<rparr>"

lemma example_layout_text:
  "from_utf8 example_layout = Inr (''name;offset;size;description;bitfield'' @ [CHR 0x0A]
     @ ''foo.bar;0;8;;0'' @ [CHR 0x0A] @ ''..baz;4;4;a note;1'')"
proof -
  have ascii: "list_all (\<lambda>b. b < 0x80) example_layout" by code_simp
  have "map (\<lambda>b. char_of (unat b)) example_layout = ''name;offset;size;description;bitfield'' @ [CHR 0x0A]
     @ ''foo.bar;0;8;;0'' @ [CHR 0x0A] @ ''..baz;4;4;a note;1''" by code_simp
  with ascii show ?thesis using from_utf8_ascii [of example_layout] by (simp add: list_all_iff)
qed

lemma example_layout_lines:
  "lines (''name;offset;size;description;bitfield'' @ [CHR 0x0A] @ ''foo.bar;0;8;;0'' @ [CHR 0x0A] @ ''..baz;4;4;a note;1'')
     = [''name;offset;size;description;bitfield'', ''foo.bar;0;8;;0'', ''..baz;4;4;a note;1'']"
  "split_on CHR '';'' ''name;offset;size;description;bitfield'' = [''name'', ''offset'', ''size'', ''description'', ''bitfield'']"
  "split_on CHR '';'' ''foo.bar;0;8;;0'' = [''foo.bar'', ''0'', ''8'', [], ''0'']"
  "split_on CHR '';'' ''..baz;4;4;a note;1'' = [''..baz'', ''4'', ''4'', ''a note'', ''1'']"
  by code_simp+

lemma example_layout_numbers:
  "parse_usize ''0'' = Inr 0" "parse_usize ''4'' = Inr 4" "parse_usize ''8'' = Inr 8"
  by (simp_all add: parse_usize_def from_str_radix_def digit_value_def)

lemma example_layout_columns:
  "set_columns [''name'', ''offset'', ''size'', ''description'', ''bitfield''] [''foo.bar'', ''0'', ''8'', [], ''0''] decode_entry_default
     = Inr \<lparr>dde_name = ''foo.bar'', dde_offset = 0, dde_size = 8, dde_description = []\<rparr>"
  "set_columns [''name'', ''offset'', ''size'', ''description'', ''bitfield''] [''..baz'', ''4'', ''4'', ''a note'', ''1''] decode_entry_default
     = Inr \<lparr>dde_name = ''..baz'', dde_offset = 4, dde_size = 4, dde_description = ''a note''\<rparr>"
  by (simp_all add: set_column_def decode_entry_default_def example_layout_numbers)

lemma example_layout_values:
  "read_field example_data_record 0 8 = Some 0x42" "read_field example_data_record 4 4 = Some 4"
  "split_on CHR ''.'' ''foo.bar'' = [''foo'', ''bar'']" "split_on CHR ''.'' ''..baz'' = [[], [], ''baz'']"
  by code_simp+

lemma example_layout_fields:
  "csv_fields example_data_record example_layout 0
     = Inr [(''foo.bar'', [''foo'', ''bar''], Some 0x42), (''..baz'', [''foo'', ''baz''], Some 4)]"
  unfolding csv_fields_def example_layout_text sum.case example_layout_lines list.case csv_lines.simps csv_line_def
    example_layout_columns
    rbind_simps decode_entry.simps example_layout_values
  by (simp add: example_layout_values Let_def)

theorem decode_with_csv_values_witness:
  "\<exists>root. decode_with_csv example_data_record example_layout 0 = Some (Inr root)
     \<and> value_at root [''foo'', ''bar''] = Some 0x42 \<and> value_at root [''foo'', ''baz''] = Some 4
     \<and> value_at root [''foo''] = None"
proof -
  let ?fs = "[(''foo.bar'', [''foo'', ''bar''], Some 0x42), (''..baz'', [''foo'', ''baz''], Some 4)]"
  have "list_all lower_name ?fs" by (simp add: lower_name_def to_lowercase_def) (simp add: char_lower_def)
  from decode_with_csv_values [OF example_layout_fields this] obtain root where
    root: "decode_with_csv example_data_record example_layout 0 = Some (Inr root)" "\<forall>q. value_at root q = last_value ?fs q None"
    by blast
  then have "value_at root [''foo'', ''bar''] = Some 0x42" "value_at root [''foo'', ''baz''] = Some 4"
    "value_at root [''foo''] = None" unfolding root(2) [rule_format] by (simp_all del: value_at_simps)
  with root(1) show ?thesis by blast
qed
text \<open>A decode definition with an error (invalid UTF-8, a number that does not parse) never yields a
  tree: the decoding reports that error, unless a name in upper case made it panic before.\<close>
theorem decode_with_csv_error:
  assumes "csv_fields r layout offset = Inl e"
  shows "decode_with_csv r layout offset \<in> {None, Some (Inl e)}"
proof (cases "from_utf8 layout")
  case (Inl n)
  with assms show ?thesis by (simp add: csv_fields_def decode_with_csv_def)
next
  case (Inr csv)
  show ?thesis
  proof (cases "lines csv")
    case Nil
    with assms Inr show ?thesis by (simp add: csv_fields_def)
  next
    case (Cons line ls)
    with assms Inr have "csv_lines r offset (split_on CHR '';'' line) ls [] = Inl e"
      by (simp add: csv_fields_def)
    from decode_lines_error [OF this, of node_root] Cons Inr show ?thesis
      by (simp add: decode_with_csv_def)
  qed
qed

theorem decode_with_csv_error_witness:
  "decode_with_csv example_data_record [0xC3, 0x28] 0 \<in> {None, Some (Inl (Utf8Error 0))}"
  by (rule decode_with_csv_error)
    (simp add: csv_fields_def from_utf8_def check_utf8.simps utf8_sequence_def)

subsection \<open>Decoding without collateral\<close>

text \<open>A manager over an empty tree\<close>
definition bare_cm :: collateral_manager where
  "bare_cm = \<lparr>cm_tree = embedded_tree (embedded_new []), cm_items = Map.empty, cm_target_info = Map.empty\<rparr>"

lemma bare_cm_coherent: "cache_coherent bare_cm"
  by (simp add: cache_coherent_def bare_cm_def)

lemma get_item_bare: "\<exists>e. get_item_with_header bare_cm h path = (Inl e, bare_cm)"
proof -
  have "best_of_levels (embedded_tree (embedded_new [])) pvss path levels = None" for pvss levels
    by (induction levels) (simp_all add: embedded_tree_def embedded_get_def embedded_new_def)
  then have "best_item (embedded_tree (embedded_new [])) pvss path = None" for pvss unfolding best_item_def .
  then have "get_item_with_pvs bare_cm pvss path = (Inl (MissingCollateral pvss path), bare_cm)" for pvss
    by (simp add: get_item_with_pvs_cases bare_cm_def)
  then show ?thesis by (auto simp: get_item_with_header_def split: sum.split)
qed

lemma decode_with_decode_def_bare: "\<exists>e. decode_with_decode_def r bare_cm def offset = Some (Inl e, bare_cm)"
proof -
  have "\<exists>e. decode_first_path r bare_cm def offset paths = Some (Inl e, bare_cm)" for paths
  proof (induction paths)
    case (Cons path paths)
    obtain e where "get_item_with_header bare_cm (rec_header r) (item_push path def) = (Inl e, bare_cm)"
      using get_item_bare by blast
    with Cons show ?case by simp
  qed simp
  then show ?thesis by (auto simp: decode_with_decode_def_def split: sum.split)
qed

lemma decode_as_core_record_bare: "\<exists>e. decode_as_core_record r bare_cm = Some (Inl e, bare_cm)"
proof -
  have "\<exists>e. decode_core_subsections r bare_cm sec names = Some (Inl e, bare_cm)" for sec names
  proof (induction names)
    case (Cons name names)
    obtain e where "decode_with_decode_def r bare_cm (''layout_'' @ name @ ''.csv'') 0 = Some (Inl e, bare_cm)"
      using decode_with_decode_def_bare by blast
    with Cons show ?case by simp
  qed simp
  then show ?thesis by (auto simp: decode_as_core_record_def simp del: decode_core_subsections.simps split: sum.split)
qed

lemma record_decode_bare: "record_decode r bare_cm = map_option (\<lambda>root. (root, bare_cm)) (record_decode_without_cm r)"
proof -
  obtain e where dec: "(if is_core r then decode_as_core_record r bare_cm
      else decode_with_decode_def r bare_cm ''layout.csv'' 0) = Some (Inl e, bare_cm)"
    using decode_as_core_record_bare [of r] decode_with_decode_def_bare [of r "''layout.csv''" 0] by metis
  have "header_get_root_path_using_cm h bare_cm = None" for h
    by (simp add: header_get_root_path_using_cm_def header_die_def get_die_name_def bare_cm_def bind_eq_None_conv
        split: header_type.split)
  then have "record_get_root_path_using_cm r bare_cm = record_get_root_path r"
    by (simp add: record_get_root_path_using_cm_def split: option.split)
  with dec show ?thesis
    by (simp add: record_decode_def record_decode_without_cm_def split: option.split)
qed

lemma crashlog_decode_bare:
  "crashlog_decode c bare_cm = map_option (\<lambda>root. (root, bare_cm)) (crashlog_decode_without_cm c)"
proof -
  have "merge_records root bare_cm rs = map_option (\<lambda>root. (root, bare_cm)) (merge_records_without_cm root rs)" for root rs
    by (induction rs arbitrary: root) (simp_all add: record_decode_bare split: option.split)
  then show ?thesis by (simp add: crashlog_decode_def crashlog_decode_without_cm_def)
qed

text \<open>With a collateral manager over an empty tree, decoding is decoding without a manager: every
  record falls back to its header, at the same place of the tree.\<close>
theorem crashlog_decode_empty_tree:
  "crashlog_decode c bare_cm = map_option (\<lambda>root. (root, bare_cm)) (crashlog_decode_without_cm c)"
  by (rule crashlog_decode_bare)

end
