(* ===== verification/FileSystem.thy ===== *)
theory FileSystem
  imports Header "HOL-Library.AList"
begin

text \<open>
  What the program uses of \<open>std::fs\<close> and \<open>std::path\<close> (the library, the command line tool and the
  build script): paths, and a file system as a tree of directories, regular files and symbolic
  links. Paths are resolved the way Linux does it, with at most 40 symbolic links on the way.
  A \<open>Special\<close> is a device, a pipe or a socket, with nothing behind it; a \<open>Fault\<close> is an entry that
  the kernel cannot read. File names are byte strings that need not be
  UTF-8. The tree has no permissions, and a write to a regular file does not fail.
\<close>

subsection \<open>Paths\<close>

text \<open>A \<open>PathBuf\<close>: whether it is absolute, and the names between its slashes, empty ones included. A
  path that ends in a slash keeps its last, empty name when something is pushed to it; nothing that
  looks at a path sees it, and it is not shown when a path is displayed.\<close>
datatype path = Path (path_abs: bool) (path_names: "string list")

text \<open>\<open>Path::new(s)\<close>\<close>
definition path_of_str :: "string \<Rightarrow> path" where
  "path_of_str s = Path (starts_with s ''/'') (if s = [] then [] else split_on CHR ''/'' s)"

text \<open>\<open>path.push(s)\<close> and \<open>path.join(s)\<close>: an absolute \<open>s\<close> replaces the path.\<close>
definition path_push :: "path \<Rightarrow> string \<Rightarrow> path" where
  "path_push p s = (if starts_with s ''/'' then path_of_str s
     else Path (path_abs p) (path_names p @ split_on CHR ''/'' s))"

text \<open>\<open>path.components()\<close>, without the root and the current directory\<close>
definition path_components :: "path \<Rightarrow> string list" where
  "path_components p = filter (\<lambda>c. c \<noteq> [] \<and> c \<noteq> ''.'') (path_names p)"

text \<open>\<open>path.push(q)\<close> for another path\<close>
definition path_push_path :: "path \<Rightarrow> path \<Rightarrow> path" where
  "path_push_path p q = (if path_abs q then q else Path (path_abs p) (path_names p @ path_names q))"

text \<open>\<open>path.extend(&q)\<close>: the components of \<open>q\<close> are pushed one by one.\<close>
definition path_extend :: "path \<Rightarrow> path \<Rightarrow> path" where
  "path_extend p q =
     (if path_abs q then Path True (path_components q)
      else Path (path_abs p) (path_names p @ path_components q))"

text \<open>\<open>strings.collect::<PathBuf>()\<close>\<close>
definition path_collect :: "string list \<Rightarrow> path" where
  "path_collect ss = foldl path_push (Path False []) ss"

subsection \<open>Trees\<close>

datatype fs_node = File bytes | Dir "(string \<times> fs_node) list" | Link path | Special | Fault

text \<open>The kinds of error that the program or its messages tell apart\<close>
datatype io_error = NotFound | NotADirectory | IsADirectory | FilesystemLoop | OtherIo

fun io_error_show :: "io_error \<Rightarrow> string" where
  "io_error_show NotFound = ''No such file or directory (os error 2)''"
| "io_error_show NotADirectory = ''Not a directory (os error 20)''"
| "io_error_show IsADirectory = ''Is a directory (os error 21)''"
| "io_error_show FilesystemLoop = ''Too many levels of symbolic links (os error 40)''"
| "io_error_show OtherIo = ''Input/output error (os error 5)''"

text \<open>\<open>Error::from(err)\<close> and \<open>Error::IOError(err)\<close>\<close>
definition io_error :: "io_error \<Rightarrow> error" where
  "io_error e = IOError (io_error_show e)"

text \<open>\<open>result.map_err(Error::IOError)\<close>, and the \<open>?\<close> operator that converts an I/O error\<close>
definition io_result :: "io_error + 'a \<Rightarrow> error + 'a" where
  "io_result r = (case r of Inl e \<Rightarrow> Inl (io_error e) | Inr v \<Rightarrow> Inr v)"

lemma io_result_simps [simp]: "io_result (Inl e) = Inl (io_error e)" "io_result (Inr v) = Inr v"
  by (simp_all add: io_result_def)

text \<open>The entry at a path of names that are all directory entries\<close>
fun node_at :: "fs_node \<Rightarrow> string list \<Rightarrow> fs_node option" where
  "node_at n [] = Some n"
| "node_at (Dir es) (c # cs) = (case map_of es c of None \<Rightarrow> None | Some m \<Rightarrow> node_at m cs)"
| "node_at (File b) (c # cs) = None"
| "node_at (Link p) (c # cs) = None"
| "node_at Special (c # cs) = None"
| "node_at Fault (c # cs) = None"

text \<open>The tree with another entry at such a path\<close>
fun node_set :: "fs_node \<Rightarrow> string list \<Rightarrow> fs_node \<Rightarrow> fs_node" where
  "node_set n [] new = new"
| "node_set (Dir es) (c # cs) new =
     (case map_of es c of None \<Rightarrow> Dir es | Some m \<Rightarrow> Dir (AList.update c (node_set m cs new) es))"
| "node_set n cs new = n"

text \<open>What name resolution sees of an entry\<close>
definition shape :: "fs_node \<Rightarrow> fs_node" where
  "shape n = (case n of File _ \<Rightarrow> File [] | Dir _ \<Rightarrow> Dir [] | _ \<Rightarrow> n)"

text \<open>Resolution of the names \<open>cs\<close> from the directory \<open>cur\<close>, with at most \<open>k\<close> more symbolic links\<close>
function walk :: "fs_node \<Rightarrow> nat \<Rightarrow> string list \<Rightarrow> string list \<Rightarrow> io_error + string list" where
  "walk root k cur [] = Inr cur"
| "walk root k cur (c # cs) =
     (case map_option shape (node_at root cur) of
        Some (Dir _) \<Rightarrow>
          if c = [] \<or> c = ''.'' then walk root k cur cs
          else if c = ''..'' then walk root k (butlast cur) cs
          else (case map_option shape (node_at root (cur @ [c])) of
              None \<Rightarrow> Inl NotFound
            | Some (Link target) \<Rightarrow>
                if k = 0 then Inl FilesystemLoop
                else walk root (k - 1) (if path_abs target then [] else cur) (path_names target @ cs)
            | Some _ \<Rightarrow> walk root k (cur @ [c]) cs)
      | Some Fault \<Rightarrow> Inl OtherIo
      | _ \<Rightarrow> Inl NotADirectory)"
  by pat_completeness auto
termination by (relation "measures [\<lambda>(root, k, cur, cs). k, \<lambda>(root, k, cur, cs). length cs]") auto

record fs =
  fs_root :: fs_node
  fs_cwd :: "string list"

definition max_symlinks :: nat where "max_symlinks = 40"

text \<open>\<open>path.canonicalize()\<close>, as the names from the root. The empty path does not exist.\<close>
definition canonicalize :: "fs \<Rightarrow> path \<Rightarrow> io_error + string list" where
  "canonicalize fs p =
     (if \<not> path_abs p \<and> set (path_names p) \<subseteq> {[]} then Inl NotFound
      else walk (fs_root fs) max_symlinks (if path_abs p then [] else fs_cwd fs) (path_names p))"

text \<open>The entry that a path names, after all links\<close>
definition fs_entry :: "fs \<Rightarrow> path \<Rightarrow> io_error + fs_node" where
  "fs_entry fs p = rbind (canonicalize fs p) (\<lambda>names.
     case node_at (fs_root fs) names of None \<Rightarrow> Inl NotFound | Some n \<Rightarrow> Inr n)"

text \<open>\<open>path.exists()\<close> and \<open>path.is_dir()\<close>, \<open>path.is_file()\<close>\<close>
definition fs_exists :: "fs \<Rightarrow> path \<Rightarrow> bool" where
  "fs_exists fs p = (case fs_entry fs p of Inl _ \<Rightarrow> False | Inr n \<Rightarrow> n \<noteq> Fault)"

definition fs_is_dir :: "fs \<Rightarrow> path \<Rightarrow> bool" where
  "fs_is_dir fs p = (case fs_entry fs p of Inr (Dir _) \<Rightarrow> True | _ \<Rightarrow> False)"

definition fs_is_file :: "fs \<Rightarrow> path \<Rightarrow> bool" where
  "fs_is_file fs p = (case fs_entry fs p of Inr (File _) \<Rightarrow> True | _ \<Rightarrow> False)"

text \<open>\<open>std::fs::read(path)\<close>, and \<open>File::open(path)?.read_to_end(..)?\<close>\<close>
definition fs_read :: "fs \<Rightarrow> path \<Rightarrow> io_error + bytes" where
  "fs_read fs p = rbind (fs_entry fs p) (\<lambda>n. case n of
     File b \<Rightarrow> Inr b | Dir _ \<Rightarrow> Inl IsADirectory | _ \<Rightarrow> Inl OtherIo)"

text \<open>\<open>std::fs::read_dir(path)\<close>: the names in the order the directory gives them, and an error in the
  place of an entry that cannot be read\<close>
definition fs_read_dir :: "fs \<Rightarrow> path \<Rightarrow> io_error + (io_error + string) list" where
  "fs_read_dir fs p = rbind (fs_entry fs p) (\<lambda>n. case n of
     Dir es \<Rightarrow> Inr (map (\<lambda>(name, m). if m = Fault then Inl OtherIo else Inr name) es)
   | File _ \<Rightarrow> Inl NotADirectory | _ \<Rightarrow> Inl OtherIo)"

text \<open>\<open>entry.path()\<close>\<close>
definition entry_path :: "path \<Rightarrow> string \<Rightarrow> path" where
  "entry_path dir name = Path (path_abs dir) (path_names dir @ [name])"

text \<open>\<open>name.to_str()\<close>: a file name that is not UTF-8 has no text.\<close>
definition os_to_str :: "string \<Rightarrow> string option" where
  "os_to_str name = (if check_utf8 (map of_char name) 0 = None then Some name else None)"

text \<open>\<open>OpenOptions::new().write(true).truncate(true).open(path)\<close>: the file must exist.\<close>
definition fs_open_truncate :: "fs \<Rightarrow> path \<Rightarrow> (io_error + string list) \<times> fs" where
  "fs_open_truncate fs p =
     (case canonicalize fs p of
        Inl e \<Rightarrow> (Inl e, fs)
      | Inr names \<Rightarrow>
          (case node_at (fs_root fs) names of
             Some (File _) \<Rightarrow> (Inr names, fs\<lparr>fs_root := node_set (fs_root fs) names (File [])\<rparr>)
           | Some (Dir _) \<Rightarrow> (Inl IsADirectory, fs)
           | None \<Rightarrow> (Inl NotFound, fs)
           | _ \<Rightarrow> (Inl OtherIo, fs)))"

text \<open>\<open>file.write_all(data)\<close> on the file just opened\<close>
definition fs_write_all :: "fs \<Rightarrow> string list \<Rightarrow> bytes \<Rightarrow> fs" where
  "fs_write_all fs names data =
     (case node_at (fs_root fs) names of
        Some (File b) \<Rightarrow> fs\<lparr>fs_root := node_set (fs_root fs) names (File (b @ data))\<rparr>
      | _ \<Rightarrow> fs)"

text \<open>Resolution for a file that is created: the last name may be missing.\<close>
function walk_new :: "fs_node \<Rightarrow> nat \<Rightarrow> string list \<Rightarrow> string list \<Rightarrow> io_error + string list" where
  "walk_new root k cur [] = Inr cur"
| "walk_new root k cur (c # cs) =
     (case map_option shape (node_at root cur) of
        Some (Dir _) \<Rightarrow>
          if c = [] \<or> c = ''.'' then walk_new root k cur cs
          else if c = ''..'' then walk_new root k (butlast cur) cs
          else (case map_option shape (node_at root (cur @ [c])) of
              None \<Rightarrow> if cs = [] then Inr (cur @ [c]) else Inl NotFound
            | Some (Link target) \<Rightarrow>
                if k = 0 then Inl FilesystemLoop
                else walk_new root (k - 1) (if path_abs target then [] else cur) (path_names target @ cs)
            | Some _ \<Rightarrow> walk_new root k (cur @ [c]) cs)
      | Some Fault \<Rightarrow> Inl OtherIo
      | _ \<Rightarrow> Inl NotADirectory)"
  by pat_completeness auto
termination by (relation "measures [\<lambda>(root, k, cur, cs). k, \<lambda>(root, k, cur, cs). length cs]") auto

text \<open>\<open>std::fs::write(path, data)\<close>: the file is created if it does not exist.\<close>
definition fs_write :: "fs \<Rightarrow> path \<Rightarrow> bytes \<Rightarrow> (io_error + unit) \<times> fs" where
  "fs_write fs p data =
     (if \<not> path_abs p \<and> set (path_names p) \<subseteq> {[]} then (Inl NotFound, fs)
      else case walk_new (fs_root fs) max_symlinks (if path_abs p then [] else fs_cwd fs) (path_names p) of
          Inl e \<Rightarrow> (Inl e, fs)
        | Inr names \<Rightarrow>
            (case node_at (fs_root fs) names of
               Some (File _) \<Rightarrow> (Inr (), fs\<lparr>fs_root := node_set (fs_root fs) names (File data)\<rparr>)
             | Some (Dir _) \<Rightarrow> (Inl IsADirectory, fs)
             | Some _ \<Rightarrow> (Inl OtherIo, fs)
             | None \<Rightarrow>
                 (case node_at (fs_root fs) (butlast names) of
                    Some (Dir es) \<Rightarrow> (Inr (), fs\<lparr>fs_root := node_set (fs_root fs) (butlast names)
                      (Dir (es @ [(last names, File data)]))\<rparr>)
                  | _ \<Rightarrow> (Inl NotFound, fs))))"

subsection \<open>Resolution\<close>

lemma node_at_append:
  "node_at n (xs @ ys) = (case node_at n xs of None \<Rightarrow> None | Some m \<Rightarrow> node_at m ys)"
  by (induction n xs rule: node_at.induct) (auto split: option.splits)

lemma node_at_Dir_prefix: "node_at n (xs @ y # ys) \<noteq> None \<Longrightarrow> \<exists>es. node_at n xs = Some (Dir es)"
  by (auto simp: node_at_append split: option.splits elim: node_at.elims)

text \<open>No name of the tree is one of the three that resolution treats on its own.\<close>
fun fs_wf :: "fs_node \<Rightarrow> bool" where
  "fs_wf (Dir es) = ((\<forall>(name, m) \<in> set es. name \<noteq> [] \<and> name \<noteq> ''.'' \<and> name \<noteq> ''..''
      \<and> CHR ''/'' \<notin> set name \<and> fs_wf m) \<and> distinct (map fst es))"
| "fs_wf n = True"

definition plain_name :: "string \<Rightarrow> bool" where
  "plain_name c \<longleftrightarrow> c \<noteq> [] \<and> c \<noteq> ''.'' \<and> c \<noteq> ''..'' \<and> CHR ''/'' \<notin> set c"

lemma node_at_plain: "fs_wf n \<Longrightarrow> node_at n cs = Some m \<Longrightarrow> (\<forall>c \<in> set cs. plain_name c) \<and> fs_wf m"
  by (induction n cs rule: node_at.induct)
    (auto simp: plain_name_def split: option.splits dest!: map_of_SomeD)

text \<open>What resolution gives is a canonical path: an entry that is not a link.\<close>

definition canonical :: "fs_node \<Rightarrow> string list \<Rightarrow> bool" where
  "canonical root names \<longleftrightarrow> (\<exists>n. node_at root names = Some n \<and> (\<forall>p. n \<noteq> Link p))"

lemma shape_simps [simp]: "shape (File b) = File []" "shape (Dir es) = Dir []" "shape (Link p) = Link p"
  "shape Special = Special" "shape Fault = Fault"
  by (simp_all add: shape_def)

lemma shape_eq_iff: "shape n = Link p \<longleftrightarrow> n = Link p" "shape n = Fault \<longleftrightarrow> n = Fault"
  "shape n = Special \<longleftrightarrow> n = Special"
  "shape n = File b \<longleftrightarrow> b = [] \<and> (\<exists>c. n = File c)" "shape n = Dir es \<longleftrightarrow> es = [] \<and> (\<exists>fs. n = Dir fs)"
  by (cases n; auto)+

lemma canonical_butlast: "canonical root cur \<Longrightarrow> canonical root (butlast cur)"
proof (cases cur rule: rev_cases)
  case (snoc ys y)
  assume "canonical root cur"
  then have "node_at root (ys @ y # []) \<noteq> None" using snoc by (auto simp: canonical_def)
  from node_at_Dir_prefix [OF this] show ?thesis using snoc by (auto simp: canonical_def)
qed simp

lemma walk_canonical:
  "canonical root cur \<Longrightarrow> canonical root [] \<Longrightarrow> walk root k cur cs = Inr names \<Longrightarrow> canonical root names"
proof (induction root k cur cs rule: walk.induct)
  case (1 root k cur)
  then show ?case by simp
next
  case (2 root k cur c cs)
  have dir: "canonical root (cur @ [c])" if "node_at root (cur @ [c]) = Some n" "\<And>p. n \<noteq> Link p" for n
    using that by (auto simp: canonical_def)
  from "2.prems" show ?case
    using "2.IH" canonical_butlast [of root cur]
    by (auto simp: shape_eq_iff split: option.splits fs_node.splits if_splits intro: dir)
qed

text \<open>A path without links and dots resolves to itself.\<close>

lemma walk_direct:
  assumes "\<forall>c \<in> set cs. plain_name c" and "node_at root (cur @ cs) = Some n" and "\<forall>p. n \<noteq> Link p"
  shows "walk root k cur cs = Inr (cur @ cs)"
  using assms
proof (induction cs arbitrary: cur)
  case Nil
  then show ?case by simp
next
  case (Cons c cs)
  have at: "node_at root ((cur @ [c]) @ cs) = Some n" using Cons.prems by simp
  then obtain es where dir: "node_at root cur = Some (Dir es)"
    using node_at_Dir_prefix [of root cur c cs] by auto
  obtain m where m: "node_at root (cur @ [c]) = Some m" and rest: "node_at m cs = Some n"
    using at node_at_append [of root "cur @ [c]" cs] by (auto split: option.splits)
  have not_link: "m \<noteq> Link p" for p using rest Cons.prems(3) by (cases cs) auto
  have "walk root k (cur @ [c]) cs = Inr ((cur @ [c]) @ cs)"
    using Cons.IH [of "cur @ [c]"] Cons.prems at by auto
  then show ?case using dir m not_link Cons.prems(1) by (cases m) (auto simp: plain_name_def)
qed

lemma canonicalize_direct:
  assumes "\<forall>c \<in> set cs. plain_name c" and "node_at (fs_root fs) cs = Some n" and "\<forall>p. n \<noteq> Link p"
  shows "canonicalize fs (Path True cs) = Inr cs"
  using walk_direct [of cs "fs_root fs" "[]" n] assms by (simp add: canonicalize_def)

lemma walk_append:
  "walk root k cur cs = Inr names \<Longrightarrow> \<exists>j. walk root k cur (cs @ ds) = walk root j names ds \<and> j \<le> k"
proof (induction root k cur cs arbitrary: names rule: walk.induct)
  case (1 root k cur)
  then show ?case by auto
next
  case (2 root k cur c cs)
  from "2.prems" obtain es where dir: "node_at root cur = Some (Dir es)"
    by (auto split: option.splits fs_node.splits simp: shape_eq_iff)
  show ?case
  proof (cases "c = [] \<or> c = ''.'' \<or> c = ''..''")
    case True
    then show ?thesis using 2 dir by auto
  next
    case plain: False
    then obtain m where m: "node_at root (cur @ [c]) = Some m"
      using "2.prems" dir by (auto split: option.splits)
    show ?thesis
    proof (cases "\<exists>p. m = Link p")
      case True
      then obtain p where p: "m = Link p" ..
      have k: "k \<noteq> 0" using "2.prems" plain dir m p by (auto split: if_splits)
      have IH: "\<exists>j. walk root (k - 1) (if path_abs p then [] else cur) ((path_names p @ cs) @ ds) = walk root j names ds
          \<and> j \<le> k - 1"
        by (rule "2.IH"(5)) (use "2.prems" plain dir m p k in auto)
      then obtain j where j: "walk root (k - 1) (if path_abs p then [] else cur) (path_names p @ cs @ ds)
          = walk root j names ds" "j \<le> k - 1"
        by auto
      moreover have "walk root k cur ((c # cs) @ ds)
          = walk root (k - 1) (if path_abs p then [] else cur) (path_names p @ cs @ ds)"
        using plain dir m p k by simp
      ultimately show ?thesis using k by (intro exI [of _ j]) auto
    next
      case False
      then show ?thesis using 2 dir plain m by (cases m) auto
    qed
  qed
qed

subsection \<open>Writing\<close>

lemma node_at_node_set: "node_at root p = Some n \<Longrightarrow> node_at (node_set root p new) p = Some new"
  by (induction root p rule: node_at.induct) (auto simp: update_conv split: option.splits)

text \<open>The tree without the contents of its files\<close>
fun skeleton :: "fs_node \<Rightarrow> fs_node" where
  "skeleton (Dir es) = Dir (map (\<lambda>(name, m). (name, skeleton m)) es)"
| "skeleton (File b) = File []"
| "skeleton (Link p) = Link p"
| "skeleton Special = Special"
| "skeleton Fault = Fault"

lemma map_of_skeleton: "map_of (map (\<lambda>(name, m). (name, skeleton m)) es) c = map_option skeleton (map_of es c)"
  by (induction es) auto

lemma node_at_skeleton: "node_at (skeleton n) cs = map_option skeleton (node_at n cs)"
  by (induction n cs rule: node_at.induct) (auto simp: map_of_skeleton split: option.split)

lemma shape_skeleton [simp]: "shape (skeleton n) = shape n"
  by (cases n) auto

lemma skeleton_update:
  "map_of es c = Some m \<Longrightarrow> skeleton m' = skeleton m \<Longrightarrow>
   map (\<lambda>(name, m). (name, skeleton m)) (AList.update c m' es) = map (\<lambda>(name, m). (name, skeleton m)) es"
  by (induction es) (auto split: if_splits)

lemma skeleton_node_set:
  "node_at n p = Some (File b) \<Longrightarrow> skeleton (node_set n p (File b')) = skeleton n"
  by (induction n p rule: node_at.induct) (auto simp: skeleton_update split: option.splits)

lemma node_at_node_set_other:
  "node_at root p = Some (File b) \<Longrightarrow> node_at root q = Some (File b'') \<Longrightarrow> q \<noteq> p
   \<Longrightarrow> node_at (node_set root p (File b')) q = Some (File b'')"
proof (induction root p arbitrary: q rule: node_at.induct)
  case (1 n)
  then show ?case by (cases q) auto
next
  case (2 es c cs)
  then show ?case by (cases q) (auto simp: update_conv split: option.splits)
qed auto

text \<open>Resolution only depends on the shape of the tree.\<close>

lemma walk_shape:
  "(\<And>q. map_option shape (node_at root q) = map_option shape (node_at root' q)) \<Longrightarrow>
   walk root k cur cs = walk root' k cur cs"
proof (induction root' k cur cs rule: walk.induct)
  case (1 root' k cur)
  then show ?case by simp
next
  case (2 root' k cur c cs)
  note eq = "2.prems"
  note IH = "2.IH"(1) [OF _ _ _ eq] "2.IH"(2) [OF _ _ _ _ eq] "2.IH"(3) [OF _ _ _ _ _ _ eq]
    "2.IH"(4) [OF _ _ _ _ _ _ eq] "2.IH"(5) [OF _ _ _ _ _ _ _ eq] "2.IH"(6) [OF _ _ _ _ _ _ eq]
    "2.IH"(7) [OF _ _ _ _ _ _ eq]
  show ?case
    unfolding walk.simps(2) eq
    by (intro option.case_cong fs_node.case_cong if_cong refl) (use IH in simp_all)
qed

text \<open>Same tree but for the contents of regular files: the invariant of every operation of the program\<close>
definition same_shape :: "fs \<Rightarrow> fs \<Rightarrow> bool" where
  "same_shape fs fs' \<longleftrightarrow> fs_cwd fs' = fs_cwd fs
     \<and> skeleton (fs_root fs') = skeleton (fs_root fs)"

lemma same_shape_refl [simp]: "same_shape fs fs"
  by (simp add: same_shape_def)

lemma same_shape_trans: "same_shape a b \<Longrightarrow> same_shape b c \<Longrightarrow> same_shape a c"
  by (simp add: same_shape_def)

lemma node_at_same_shape:
  "same_shape fs fs' \<Longrightarrow> map_option skeleton (node_at (fs_root fs') q) = map_option skeleton (node_at (fs_root fs) q)"
  by (simp add: same_shape_def flip: node_at_skeleton)

lemma shape_same_shape:
  "same_shape fs fs' \<Longrightarrow> map_option shape (node_at (fs_root fs') q) = map_option shape (node_at (fs_root fs) q)"
  by (drule node_at_same_shape [of fs fs' q])
    (cases "node_at (fs_root fs) q"; cases "node_at (fs_root fs') q"; auto; metis shape_skeleton)

lemma canonicalize_shape: "same_shape fs fs' \<Longrightarrow> canonicalize fs' p = canonicalize fs p"
  using walk_shape [of "fs_root fs'" "fs_root fs"] shape_same_shape [of fs fs']
  by (simp add: same_shape_def canonicalize_def)

definition entry_skeleton :: "io_error + fs_node \<Rightarrow> io_error + fs_node" where
  "entry_skeleton r = (case r of Inl e \<Rightarrow> Inl e | Inr n \<Rightarrow> Inr (skeleton n))"

lemma entry_skeleton_simps [simp]: "entry_skeleton (Inl e) = Inl e" "entry_skeleton (Inr n) = Inr (skeleton n)"
  by (simp_all add: entry_skeleton_def)

lemma fs_entry_shape: "same_shape fs fs' \<Longrightarrow> entry_skeleton (fs_entry fs' p) = entry_skeleton (fs_entry fs p)"
proof (cases "canonicalize fs p")
  case (Inr names)
  assume same: "same_shape fs fs'"
  from node_at_same_shape [OF same, of names] canonicalize_shape [OF same, of p] Inr show ?thesis
    by (cases "node_at (fs_root fs) names"; cases "node_at (fs_root fs') names") (auto simp: fs_entry_def)
qed (auto simp: fs_entry_def canonicalize_shape)

text \<open>What does not look at the contents of files does not see a write.\<close>

lemma fs_entry_view:
  assumes "same_shape fs fs'" and view: "\<And>n. g (skeleton n) = g n"
  shows "rbind (fs_entry fs' p) g = rbind (fs_entry fs p) g"
proof -
  have "rbind r g = rbind (entry_skeleton r) g" for r by (cases r) (simp_all add: view)
  then show ?thesis using fs_entry_shape [OF assms(1), of p] by metis
qed

lemma skeleton_Fault_iff: "skeleton n = Fault \<longleftrightarrow> n = Fault"
  by (cases n) auto

lemma fs_read_dir_shape: "same_shape fs fs' \<Longrightarrow> fs_read_dir fs' p = fs_read_dir fs p"
  unfolding fs_read_dir_def
proof (erule fs_entry_view)
  fix n
  have "map (\<lambda>(name, m). if m = Fault then Inl OtherIo else Inr name) (map (\<lambda>(name, m). (name, skeleton m)) es)
      = map (\<lambda>(name, m). if m = Fault then Inl OtherIo else Inr name) es" for es :: "(string \<times> fs_node) list"
    by (induction es) (auto simp: skeleton_Fault_iff)
  then show "(case skeleton n of File b \<Rightarrow> Inl NotADirectory
      | Dir es \<Rightarrow> Inr (map (\<lambda>(name, m). if m = Fault then Inl OtherIo else Inr name) es) | _ \<Rightarrow> Inl OtherIo)
    = (case n of File b \<Rightarrow> Inl NotADirectory
      | Dir es \<Rightarrow> Inr (map (\<lambda>(name, m). if m = Fault then Inl OtherIo else Inr name) es) | _ \<Rightarrow> Inl OtherIo)"
    by (cases n) simp_all
qed

lemma fs_is_dir_shape: "same_shape fs fs' \<Longrightarrow> fs_is_dir fs' p = fs_is_dir fs p"
  using fs_entry_shape [of fs fs' p]
  by (cases "fs_entry fs p"; cases "fs_entry fs' p"; cases "projr (fs_entry fs p)"; cases "projr (fs_entry fs' p)")
    (auto simp: fs_is_dir_def)

lemma fs_is_file_shape: "same_shape fs fs' \<Longrightarrow> fs_is_file fs' p = fs_is_file fs p"
  using fs_entry_shape [of fs fs' p]
  by (cases "fs_entry fs p"; cases "fs_entry fs' p"; cases "projr (fs_entry fs p)"; cases "projr (fs_entry fs' p)")
    (auto simp: fs_is_file_def)

lemma fs_exists_shape: "same_shape fs fs' \<Longrightarrow> fs_exists fs' p = fs_exists fs p"
  using fs_entry_shape [of fs fs' p]
  by (cases "fs_entry fs p"; cases "fs_entry fs' p"; cases "projr (fs_entry fs p)"; cases "projr (fs_entry fs' p)")
    (auto simp: fs_exists_def)

lemma write_same_shape:
  "node_at (fs_root fs) names = Some (File b) \<Longrightarrow>
   same_shape fs (fs\<lparr>fs_root := node_set (fs_root fs) names (File b')\<rparr>)"
  by (simp add: same_shape_def skeleton_node_set)

text \<open>Truncating and writing\<close>

lemma open_truncate_Ok:
  assumes "fs_open_truncate fs p = (Inr names, fs')"
  shows "canonicalize fs p = Inr names" "node_at (fs_root fs') names = Some (File [])" "same_shape fs fs'"
    "\<And>q b. node_at (fs_root fs) q = Some (File b) \<Longrightarrow> q \<noteq> names \<Longrightarrow> node_at (fs_root fs') q = Some (File b)"
  using assms
  by (auto simp: fs_open_truncate_def node_at_node_set node_at_node_set_other write_same_shape
      split: sum.splits option.splits fs_node.splits)

lemma open_truncate_Err: "fs_open_truncate fs p = (Inl e, fs') \<Longrightarrow> fs' = fs"
  by (auto simp: fs_open_truncate_def split: sum.splits option.splits fs_node.splits)

lemma open_truncate_iff:
  "(\<exists>names fs'. fs_open_truncate fs p = (Inr names, fs')) \<longleftrightarrow> fs_is_file fs p"
  by (auto simp: fs_open_truncate_def fs_is_file_def fs_entry_def split: sum.splits option.splits fs_node.splits)

lemma write_all_file:
  assumes "node_at (fs_root fs) names = Some (File b)"
  shows "node_at (fs_root (fs_write_all fs names data)) names = Some (File (b @ data))"
    "same_shape fs (fs_write_all fs names data)"
    "\<And>q c. node_at (fs_root fs) q = Some (File c) \<Longrightarrow> q \<noteq> names
       \<Longrightarrow> node_at (fs_root (fs_write_all fs names data)) q = Some (File c)"
  using assms by (auto simp: fs_write_all_def node_at_node_set node_at_node_set_other write_same_shape)

lemma fs_read_canonical:
  "canonicalize fs p = Inr names \<Longrightarrow> node_at (fs_root fs) names = Some (File b) \<Longrightarrow> fs_read fs p = Inr b"
  by (simp add: fs_read_def fs_entry_def)

end
