(* ===== verification/Pmt.thy ===== *)
theory Pmt
  imports FileSystem CrashLog "HOL-Library.List_Lexorder" "HOL-Library.Product_Lexorder" "HOL-Library.Char_ord"
begin

text \<open>
  Intel PMT devices: \<open>lib/src/source/pmt/sysfs.rs\<close> (discovery, extraction and control commands
  through the Linux sysfs) and the type \<open>Pmt\<close> of \<open>lib/src/source/pmt.rs\<close>. Log messages are left
  out. The control commands share a contract, the locale \<open>endpoint_command\<close>.
\<close>

subsection \<open>Order of the device identifiers\<close>

definition bdf_key :: "'a pci_bdf_scheme \<Rightarrow> u16 \<times> u8 \<times> u8 \<times> u8 \<times> 'a" where
  "bdf_key b = (bdf_segment b, bdf_bus b, bdf_device b, bdf_function b, pci_bdf.more b)"

lemma bdf_key_inj: "bdf_key a = bdf_key b \<longleftrightarrow> a = b"
  by (auto simp: bdf_key_def intro: pci_bdf.equality)

instantiation pci_bdf_ext :: (linorder) linorder
begin

definition less_eq_pci_bdf_ext :: "'a pci_bdf_ext \<Rightarrow> 'a pci_bdf_ext \<Rightarrow> bool" where
  "a \<le> b \<longleftrightarrow> bdf_key a \<le> bdf_key b"

definition less_pci_bdf_ext :: "'a pci_bdf_ext \<Rightarrow> 'a pci_bdf_ext \<Rightarrow> bool" where
  "a < b \<longleftrightarrow> bdf_key a < bdf_key b"

instance
  by standard (auto simp: less_eq_pci_bdf_ext_def less_pci_bdf_ext_def bdf_key_inj simp flip: bdf_key_inj)

end

fun pmt_device_id_le :: "pmt_device_id \<Rightarrow> pmt_device_id \<Rightarrow> bool" where
  "pmt_device_id_le (PmtName a) (PmtName b) = (a \<le> b)"
| "pmt_device_id_le (PmtName a) (PmtBdf b) = True"
| "pmt_device_id_le (PmtBdf a) (PmtName b) = False"
| "pmt_device_id_le (PmtBdf a) (PmtBdf b) = (a \<le> b)"

instantiation pmt_device_id :: linorder
begin

definition less_eq_pmt_device_id :: "pmt_device_id \<Rightarrow> pmt_device_id \<Rightarrow> bool" where
  "a \<le> b \<longleftrightarrow> pmt_device_id_le a b"

definition less_pmt_device_id :: "pmt_device_id \<Rightarrow> pmt_device_id \<Rightarrow> bool" where
  "a < b \<longleftrightarrow> \<not> pmt_device_id_le b a"

instance
proof
  fix x y z :: pmt_device_id
  show "x < y \<longleftrightarrow> x \<le> y \<and> \<not> y \<le> x" and "x \<le> x" and "x \<le> y \<or> y \<le> x"
    by (cases x; cases y; auto simp: less_eq_pmt_device_id_def less_pmt_device_id_def)+
  show "x \<le> y \<Longrightarrow> y \<le> x \<Longrightarrow> x = y"
    by (cases x; cases y) (auto simp: less_eq_pmt_device_id_def)
  show "x \<le> y \<Longrightarrow> y \<le> z \<Longrightarrow> x \<le> z"
    by (cases x; cases y; cases z) (auto simp: less_eq_pmt_device_id_def)
qed

end

subsection \<open>Discovery\<close>

record pmt_sysfs =
  pmt_root :: path

text \<open>\<open>PmtSysFsEndpoint\<close>\<close>
record endpoint =
  ep_path :: path

definition pmt_sysfs_default :: pmt_sysfs where
  "pmt_sysfs_default = \<lparr>pmt_root = path_of_str ''/''\<rparr>"

definition class_path :: "pmt_sysfs \<Rightarrow> path" where
  "class_path self = path_push (path_push (path_push (pmt_root self) ''sys'') ''class'') ''intel_pmt''"

definition pci_dev_path :: "pmt_sysfs \<Rightarrow> path" where
  "pci_dev_path self =
     path_push (path_push (path_push (path_push (pmt_root self) ''sys'') ''bus'') ''pci'') ''devices''"

text \<open>The entries of a directory that the loops look at: those that can be read\<close>
definition ok_names :: "(io_error + string) list \<Rightarrow> string list" where
  "ok_names entries = List.map_filter (\<lambda>e. case e of Inl _ \<Rightarrow> None | Inr name \<Rightarrow> Some name) entries"

definition discover_from_class :: "fs \<Rightarrow> pmt_sysfs \<Rightarrow> pmt_device_id list" where
  "discover_from_class fs self =
     (case fs_read_dir fs (class_path self) of
        Inl _ \<Rightarrow> []
      | Inr entries \<Rightarrow> List.map_filter (\<lambda>name.
          let entry_name = option_or (os_to_str name) [] in
          if trim_end_numeric entry_name = ''crashlog'' then Some (PmtName entry_name) else None)
          (ok_names entries))"

fun has_vsec_name :: "string list \<Rightarrow> bool" where
  "has_vsec_name [] = False"
| "has_vsec_name (name # names) =
     (case os_to_str name of
        None \<Rightarrow> has_vsec_name names
      | Some filename \<Rightarrow>
          if trim_end_numeric filename = ''intel_vsec.crashlog.'' then True else has_vsec_name names)"

definition has_crashlog_vsec :: "fs \<Rightarrow> path \<Rightarrow> bool" where
  "has_crashlog_vsec fs p =
     (case fs_read_dir fs p of Inl _ \<Rightarrow> False | Inr entries \<Rightarrow> has_vsec_name (ok_names entries))"

text \<open>The body of the loop of \<open>discover_from_pci\<close>; the ordered set is the sorted list of its elements.\<close>
definition pci_device_id :: "fs \<Rightarrow> path \<Rightarrow> string \<Rightarrow> pmt_device_id option" where
  "pci_device_id fs p name = do {
     filename \<leftarrow> os_to_str name;
     bdf \<leftarrow> pci_bdf_from_str filename;
     if has_crashlog_vsec fs (entry_path p name) then Some (PmtBdf bdf) else None }"

definition discover_from_pci :: "fs \<Rightarrow> pmt_sysfs \<Rightarrow> pmt_device_id list" where
  "discover_from_pci fs self =
     (let p = pci_dev_path self in
      case fs_read_dir fs p of
        Inl _ \<Rightarrow> []
      | Inr entries \<Rightarrow> fold (\<lambda>name devices.
          case pci_device_id fs p name of
            None \<Rightarrow> devices
          | Some dev \<Rightarrow> List.insort_insert dev devices) (ok_names entries) [])"

definition pmt_sysfs_discover :: "fs \<Rightarrow> pmt_sysfs \<Rightarrow> pmt_device_id list" where
  "pmt_sysfs_discover fs self = discover_from_class fs self @ discover_from_pci fs self"

subsection \<open>Endpoints\<close>

definition endpoint_new :: "fs \<Rightarrow> path \<Rightarrow> endpoint option" where
  "endpoint_new fs p = (if fs_is_dir fs p then Some \<lparr>ep_path = p\<rparr> else None)"

definition get_endpoints_from_vsec :: "fs \<Rightarrow> path \<Rightarrow> endpoint list" where
  "get_endpoints_from_vsec fs p =
     (let pmt_path = path_push p ''intel_pmt'' in
      case fs_read_dir fs pmt_path of
        Inl _ \<Rightarrow> []
      | Inr entries \<Rightarrow> List.map_filter (\<lambda>name. do {
          filename \<leftarrow> os_to_str name;
          if trim_end_numeric filename = ''crashlog'' then endpoint_new fs (entry_path pmt_path name)
          else None }) (ok_names entries))"

definition get_endpoints_from_bdf :: "fs \<Rightarrow> pmt_sysfs \<Rightarrow> pci_bdf \<Rightarrow> endpoint list" where
  "get_endpoints_from_bdf fs self bdf =
     (let p = path_push (pci_dev_path self) (pci_bdf_show bdf) in
      case fs_read_dir fs p of
        Inl _ \<Rightarrow> []
      | Inr entries \<Rightarrow> concat (map (\<lambda>name.
          case os_to_str name of
            None \<Rightarrow> []
          | Some filename \<Rightarrow>
              if trim_end_numeric filename = ''intel_vsec.crashlog.''
              then get_endpoints_from_vsec fs (entry_path p name) else []) (ok_names entries)))"

definition get_endpoints :: "fs \<Rightarrow> pmt_sysfs \<Rightarrow> pmt_device_id \<Rightarrow> endpoint list" where
  "get_endpoints fs self dev = (case dev of
     PmtName name \<Rightarrow>
       (case endpoint_new fs (path_push (class_path self) name) of Some ep \<Rightarrow> [ep] | None \<Rightarrow> [])
   | PmtBdf bdf \<Rightarrow> get_endpoints_from_bdf fs self bdf)"

definition get_all_endpoints :: "fs \<Rightarrow> pmt_sysfs \<Rightarrow> endpoint list" where
  "get_all_endpoints fs self = concat (map (get_endpoints fs self) (pmt_sysfs_discover fs self))"

definition endpoint_capabilities :: "fs \<Rightarrow> endpoint \<Rightarrow> capabilities" where
  "endpoint_capabilities fs ep =
     (let caps = {};
          caps = (if fs_exists fs (path_push (ep_path ep) ''crashlog'') then insert Extract caps else caps);
          caps = (if fs_exists fs (path_push (ep_path ep) ''trigger'') then insert Trigger caps else caps);
          caps = (if fs_exists fs (path_push (ep_path ep) ''enable'') then insert EnableDisable caps else caps)
      in if fs_exists fs (path_push (ep_path ep) ''clear'') then insert Clear caps else caps)"

definition pmt_sysfs_capabilities :: "fs \<Rightarrow> pmt_sysfs \<Rightarrow> pmt_device_id \<Rightarrow> capabilities" where
  "pmt_sysfs_capabilities fs self dev =
     fold (\<lambda>ep caps. caps \<union> endpoint_capabilities fs ep) (get_endpoints fs self dev) {}"

subsection \<open>Extraction\<close>

definition endpoint_extract :: "fs \<Rightarrow> endpoint \<Rightarrow> error + 'g crashlog" where
  "endpoint_extract fs ep =
     rbind (rbind (io_result (fs_read fs (path_push (ep_path ep) ''crashlog''))) region_from_slice)
       (\<lambda>region. from_regions [region])"

fun extract_endpoints :: "fs \<Rightarrow> endpoint list \<Rightarrow> 'g crashlog list \<Rightarrow> error + 'g crashlog list" where
  "extract_endpoints fs [] crashlogs = Inr crashlogs"
| "extract_endpoints fs (ep # eps) crashlogs =
     (case endpoint_extract fs ep of
        Inr crashlog \<Rightarrow> extract_endpoints fs eps (crashlogs @ [crashlog])
      | Inl err \<Rightarrow>
          if err = EmptyRegion then extract_endpoints fs eps crashlogs else Inl err)"

definition pmt_sysfs_extract :: "fs \<Rightarrow> pmt_sysfs \<Rightarrow> pmt_device_id \<Rightarrow> error + 'g crashlog list" where
  "pmt_sysfs_extract fs self dev = extract_endpoints fs (get_endpoints fs self dev) []"

text \<open>\<open>CrashLog::from_pmt_sysfs\<close>\<close>
definition from_pmt_sysfs :: "fs \<Rightarrow> error + 'g crashlog" where
  "from_pmt_sysfs fs = from_regions (concat (map cl_regions
     (List.map_filter (\<lambda>ep. case (endpoint_extract fs ep :: error + 'g crashlog) of Inr c \<Rightarrow> Some c | Inl _ \<Rightarrow> None)
       (get_all_endpoints fs pmt_sysfs_default))))"

subsection \<open>Control commands\<close>

definition write_command :: "endpoint \<Rightarrow> string \<Rightarrow> bytes \<Rightarrow> fs \<Rightarrow> (error + unit) \<times> fs" where
  "write_command ep entry val fs =
     (case fs_open_truncate fs (path_push (ep_path ep) entry) of
        (Inl e, fs) \<Rightarrow> (Inl (io_error e), fs)
      | (Inr file, fs) \<Rightarrow> (Inr (), fs_write_all fs file val))"

definition endpoint_trigger :: "endpoint \<Rightarrow> fs \<Rightarrow> (error + unit) \<times> fs" where
  "endpoint_trigger ep = write_command ep ''trigger'' [0x31]"

definition endpoint_clear :: "endpoint \<Rightarrow> fs \<Rightarrow> (error + unit) \<times> fs" where
  "endpoint_clear ep = write_command ep ''clear'' [0x31]"

definition endpoint_enable_disable :: "bool \<Rightarrow> endpoint \<Rightarrow> fs \<Rightarrow> (error + unit) \<times> fs" where
  "endpoint_enable_disable enable ep = write_command ep ''enable'' (if enable then [0x31] else [0x30])"

text \<open>The loops of \<open>Pmt\<close>: a command on every endpoint, until one fails\<close>
fun for_endpoints :: "(endpoint \<Rightarrow> fs \<Rightarrow> (error + unit) \<times> fs) \<Rightarrow> endpoint list \<Rightarrow> fs
    \<Rightarrow> (error + unit) \<times> fs" where
  "for_endpoints command [] fs = (Inr (), fs)"
| "for_endpoints command (ep # eps) fs =
     (case command ep fs of
        (Inl e, fs) \<Rightarrow> (Inl e, fs)
      | (Inr _, fs) \<Rightarrow> for_endpoints command eps fs)"

subsection \<open>PMT on each platform\<close>

text \<open>\<open>cfg(target_os = ..)\<close>\<close>
datatype target_os = Linux | Windows | Uefi

definition pmt_discover :: "target_os \<Rightarrow> fs \<Rightarrow> pmt_device_id list" where
  "pmt_discover os fs = (if os = Linux then pmt_sysfs_discover fs pmt_sysfs_default else [])"

definition pmt_extract :: "target_os \<Rightarrow> fs \<Rightarrow> pmt_device_id \<Rightarrow> error + 'g crashlog list" where
  "pmt_extract os fs dev = (if os = Linux then pmt_sysfs_extract fs pmt_sysfs_default dev else Inl Unsupported)"

definition pmt_capabilities :: "target_os \<Rightarrow> fs \<Rightarrow> pmt_device_id \<Rightarrow> capabilities" where
  "pmt_capabilities os fs dev = (if os = Linux then pmt_sysfs_capabilities fs pmt_sysfs_default dev else {})"

definition pmt_enable_disable :: "target_os \<Rightarrow> pmt_device_id \<Rightarrow> bool \<Rightarrow> fs \<Rightarrow> (error + unit) \<times> fs" where
  "pmt_enable_disable os dev enable fs =
     (if os = Linux then for_endpoints (endpoint_enable_disable enable) (get_endpoints fs pmt_sysfs_default dev) fs
      else (Inl Unsupported, fs))"

definition pmt_clear :: "target_os \<Rightarrow> pmt_device_id \<Rightarrow> fs \<Rightarrow> (error + unit) \<times> fs" where
  "pmt_clear os dev fs =
     (if os = Linux then for_endpoints endpoint_clear (get_endpoints fs pmt_sysfs_default dev) fs
      else (Inl Unsupported, fs))"

definition pmt_trigger :: "target_os \<Rightarrow> pmt_device_id \<Rightarrow> fs \<Rightarrow> (error + unit) \<times> fs" where
  "pmt_trigger os dev fs =
     (if os = Linux then for_endpoints endpoint_trigger (get_endpoints fs pmt_sysfs_default dev) fs
      else (Inl Unsupported, fs))"

subsection \<open>The contract of the control commands\<close>

locale endpoint_command =
  fixes command :: "endpoint \<Rightarrow> fs \<Rightarrow> (error + unit) \<times> fs" and entry :: string and val :: bytes
  assumes command_ok_iff: "fst (command ep fs) = Inr () \<longleftrightarrow> fs_is_file fs (path_push (ep_path ep) entry)"
    and command_writes: "command ep fs = (Inr (), fs') \<Longrightarrow>
      \<exists>names. canonicalize fs (path_push (ep_path ep) entry) = Inr names
        \<and> node_at (fs_root fs') names = Some (File val)
        \<and> (\<forall>q b. q \<noteq> names \<longrightarrow> node_at (fs_root fs) q = Some (File b) \<longrightarrow> node_at (fs_root fs') q = Some (File b))"
    and command_shape: "same_shape fs (snd (command ep fs))"
    and command_error: "command ep fs = (Inl e, fs') \<Longrightarrow> fs' = fs \<and> (\<exists>io. e = io_error io)"
begin

lemma for_shape: "same_shape fs (snd (for_endpoints command eps fs))"
proof (induction eps arbitrary: fs)
  case (Cons ep eps)
  obtain r fs1 where c: "command ep fs = (r, fs1)" by (cases "command ep fs")
  then have "same_shape fs fs1" using command_shape [of fs ep] by simp
  then show ?case using c Cons.IH [of fs1] by (cases r) (auto intro: same_shape_trans)
qed simp

lemma for_ok_iff:
  "fst (for_endpoints command eps fs) = Inr () \<longleftrightarrow> (\<forall>ep \<in> set eps. fs_is_file fs (path_push (ep_path ep) entry))"
proof (induction eps arbitrary: fs)
  case (Cons ep eps)
  obtain r fs1 where c: "command ep fs = (r, fs1)" by (cases "command ep fs")
  then have "same_shape fs fs1" using command_shape [of fs ep] by simp
  with c show ?case using Cons.IH [of fs1] command_ok_iff [of ep fs] by (cases r) (auto simp: fs_is_file_shape)
qed simp

text \<open>A file that holds the value keeps it.\<close>

lemma for_keeps:
  "node_at (fs_root fs) q = Some (File val) \<Longrightarrow>
   node_at (fs_root (snd (for_endpoints command eps fs))) q = Some (File val)"
proof (induction eps arbitrary: fs)
  case (Cons ep eps)
  obtain r fs1 where c: "command ep fs = (r, fs1)" by (cases "command ep fs")
  show ?case
  proof (cases r)
    case (Inr u)
    with c Cons.prems have "node_at (fs_root fs1) q = Some (File val)"
      using command_writes [of ep fs fs1] by (cases u) metis
    with c Inr Cons.IH [of fs1] show ?thesis by simp
  qed (use c command_error [of ep fs] Cons.prems in auto)
qed simp

lemma for_writes:
  "for_endpoints command eps fs = (Inr (), fs') \<Longrightarrow> ep \<in> set eps \<Longrightarrow>
   fs_read fs' (path_push (ep_path ep) entry) = Inr val"
proof (induction eps arbitrary: fs)
  case (Cons ep' eps)
  then obtain fs1 where c: "command ep' fs = (Inr (), fs1)" and rest: "for_endpoints command eps fs1 = (Inr (), fs')"
    by (auto split: prod.splits sum.splits)
  show ?case
  proof (cases "ep \<in> set eps")
    case True
    with Cons.IH rest show ?thesis by blast
  next
    case False
    with Cons.prems have ep: "ep = ep'" by simp
    obtain names where names: "canonicalize fs (path_push (ep_path ep) entry) = Inr names"
      and at: "node_at (fs_root fs1) names = Some (File val)"
      using command_writes [OF c] ep by auto
    have "node_at (fs_root fs') names = Some (File val)" using for_keeps [OF at, of eps] rest by simp
    moreover have "same_shape fs fs'" using for_shape [of fs "ep' # eps"] Cons.prems by simp
    then have "canonicalize fs' (path_push (ep_path ep) entry) = Inr names"
      using canonicalize_shape names by simp
    ultimately show ?thesis by (simp add: fs_read_canonical)
  qed
qed simp

text \<open>No other file is written.\<close>

lemma for_frame:
  "node_at (fs_root fs) q = Some (File b) \<Longrightarrow>
   \<forall>ep \<in> set eps. canonicalize fs (path_push (ep_path ep) entry) \<noteq> Inr q \<Longrightarrow>
   node_at (fs_root (snd (for_endpoints command eps fs))) q = Some (File b)"
proof (induction eps arbitrary: fs)
  case (Cons ep eps)
  obtain r fs1 where c: "command ep fs = (r, fs1)" by (cases "command ep fs")
  then have same: "same_shape fs fs1" using command_shape [of fs ep] by simp
  show ?case
  proof (cases r)
    case (Inr u)
    with c Cons.prems have "node_at (fs_root fs1) q = Some (File b)"
      using command_writes [of ep fs fs1] by (cases u) auto
    with c Inr Cons show ?thesis by (simp add: canonicalize_shape [OF same])
  qed (use c command_error [of ep fs] Cons.prems in auto)
qed simp

text \<open>The error of the loop is an I/O error, and leaves the later endpoints alone.\<close>

lemma for_error:
  "for_endpoints command eps fs = (Inl e, fs') \<Longrightarrow>
   \<exists>done ep rest. eps = done @ ep # rest \<and> for_endpoints command done fs = (Inr (), fs')
     \<and> \<not> fs_is_file fs (path_push (ep_path ep) entry) \<and> (\<exists>io. e = io_error io)"
proof (induction eps arbitrary: fs)
  case (Cons ep eps)
  obtain r fs1 where c: "command ep fs = (r, fs1)" by (cases "command ep fs")
  then have same: "same_shape fs fs1" using command_shape [of fs ep] by simp
  show ?case
  proof (cases r)
    case (Inl e')
    with c Cons.prems have "fs' = fs" "\<exists>io. e = io_error io" using command_error [of ep fs] by auto
    moreover have "\<not> fs_is_file fs (path_push (ep_path ep) entry)" using command_ok_iff [of ep fs] c Inl by simp
    ultimately show ?thesis by (intro exI [of _ "[]"] exI [of _ ep] exI [of _ eps]) simp
  next
    case (Inr u)
    with c Cons.prems have "for_endpoints command eps fs1 = (Inl e, fs')" by simp
    from Cons.IH [OF this] obtain dn ep' rest where eps: "eps = dn @ ep' # rest"
      and "for_endpoints command dn fs1 = (Inr (), fs')" "\<exists>io. e = io_error io"
      and "\<not> fs_is_file fs1 (path_push (ep_path ep') entry)" by blast
    with c Inr fs_is_file_shape [OF same] show ?thesis
      by (intro exI [of _ "ep # dn"] exI [of _ ep'] exI [of _ rest]) simp
  qed
qed simp

end

lemma write_command_contract: "endpoint_command (\<lambda>ep. write_command ep entry val) entry val"
proof
  fix ep :: endpoint and fs fs' e
  let ?p = "path_push (ep_path ep) entry"
  show "fst (write_command ep entry val fs) = Inr () \<longleftrightarrow> fs_is_file fs ?p"
    using open_truncate_iff [of fs ?p] by (auto simp: write_command_def split: prod.splits sum.splits)
  show "same_shape fs (snd (write_command ep entry val fs))"
    using open_truncate_Ok(2,3) [of fs ?p] write_all_file(2)
    by (auto simp: write_command_def dest: open_truncate_Err intro: same_shape_trans split: prod.split sum.split)
  show "fs' = fs \<and> (\<exists>io. e = io_error io)" if "write_command ep entry val fs = (Inl e, fs')"
    using that by (auto simp: write_command_def dest: open_truncate_Err split: prod.splits sum.splits)
  assume ok: "write_command ep entry val fs = (Inr (), fs')"
  then obtain names fs1 where o: "fs_open_truncate fs ?p = (Inr names, fs1)" and fs': "fs' = fs_write_all fs1 names val"
    by (auto simp: write_command_def split: prod.splits sum.splits)
  note at = open_truncate_Ok(2) [OF o]
  show "\<exists>names. canonicalize fs ?p = Inr names \<and> node_at (fs_root fs') names = Some (File val)
      \<and> (\<forall>q b. q \<noteq> names \<longrightarrow> node_at (fs_root fs) q = Some (File b) \<longrightarrow> node_at (fs_root fs') q = Some (File b))"
    unfolding fs' using open_truncate_Ok(1,4) [OF o] write_all_file(1) [OF at] write_all_file(3) [OF at] by auto
qed

interpretation trigger: endpoint_command endpoint_trigger "''trigger''" "[0x31]"
  unfolding endpoint_trigger_def by (rule write_command_contract)

interpretation clear: endpoint_command endpoint_clear "''clear''" "[0x31]"
  unfolding endpoint_clear_def by (rule write_command_contract)

interpretation enable_disable: endpoint_command "endpoint_enable_disable enable" "''enable''"
    "if enable then [0x31] else [0x30]" for enable
  unfolding endpoint_enable_disable_def by (rule write_command_contract)

text \<open>A command does not change what is discovered.\<close>

lemma discover_shape:
  assumes "same_shape fs fs'"
  shows "pmt_sysfs_discover fs' self = pmt_sysfs_discover fs self"
  unfolding pmt_sysfs_discover_def discover_from_class_def discover_from_pci_def pci_device_id_def
    has_crashlog_vsec_def fs_read_dir_shape [OF assms] ..

lemma get_endpoints_shape:
  assumes "same_shape fs fs'"
  shows "get_endpoints fs' self dev = get_endpoints fs self dev"
  unfolding get_endpoints_def get_endpoints_from_bdf_def get_endpoints_from_vsec_def endpoint_new_def
    fs_read_dir_shape [OF assms] fs_is_dir_shape [OF assms] ..

lemma capabilities_shape:
  assumes "same_shape fs fs'"
  shows "pmt_sysfs_capabilities fs' self dev = pmt_sysfs_capabilities fs self dev"
proof -
  have "endpoint_capabilities fs' ep = endpoint_capabilities fs ep" for ep
    by (simp add: endpoint_capabilities_def fs_exists_shape [OF assms])
  then show ?thesis by (simp add: pmt_sysfs_capabilities_def get_endpoints_shape [OF assms])
qed

subsection \<open>What discovery and extraction give\<close>

lemma fold_insort_insert:
  "sorted xs \<Longrightarrow> distinct xs \<Longrightarrow>
   sorted (fold (\<lambda>n ds. case f n of None \<Rightarrow> ds | Some d \<Rightarrow> List.insort_insert d ds) ns xs)
   \<and> distinct (fold (\<lambda>n ds. case f n of None \<Rightarrow> ds | Some d \<Rightarrow> List.insort_insert d ds) ns xs)
   \<and> set (fold (\<lambda>n ds. case f n of None \<Rightarrow> ds | Some d \<Rightarrow> List.insort_insert d ds) ns xs)
     = set xs \<union> set (List.map_filter f ns)"
proof (induction ns arbitrary: xs)
  case (Cons n ns)
  show ?case
  proof (cases "f n")
    case (Some d)
    have "sorted (List.insort_insert d xs)" "distinct (List.insort_insert d xs)"
      using Cons.prems by (simp_all add: sorted_insort_insert distinct_insort_insert)
    from Cons.IH [OF this] Some show ?thesis
      by (simp add: List.map_filter_simps set_insort_insert)
  qed (use Cons in \<open>simp add: List.map_filter_simps\<close>)
qed (simp add: List.map_filter_simps)

lemma discover_from_pci_spec:
  "sorted (discover_from_pci fs self) \<and> distinct (discover_from_pci fs self)
   \<and> set (discover_from_pci fs self) = (case fs_read_dir fs (pci_dev_path self) of Inl _ \<Rightarrow> {}
      | Inr entries \<Rightarrow> set (List.map_filter (pci_device_id fs (pci_dev_path self)) (ok_names entries)))"
  using fold_insort_insert [of "[]" "pci_device_id fs (pci_dev_path self)"]
  by (auto simp: discover_from_pci_def Let_def split: sum.split)

lemma in_ok_names [simp]: "name \<in> set (ok_names entries) \<longleftrightarrow> Inr name \<in> set entries"
  by (induction entries) (auto simp: ok_names_def List.map_filter_simps split: sum.split)

lemma in_map_filter: "y \<in> set (List.map_filter f xs) \<longleftrightarrow> (\<exists>x \<in> set xs. f x = Some y)"
  by (force simp: List.map_filter_def)

lemma os_to_str_Some: "os_to_str name = Some s \<Longrightarrow> s = name"
  by (simp add: os_to_str_def split: if_splits)

lemma discover_from_class_iff:
  "dev \<in> set (discover_from_class fs self) \<longleftrightarrow>
   (\<exists>entries name. fs_read_dir fs (class_path self) = Inr entries \<and> Inr name \<in> set entries
      \<and> os_to_str name = Some name \<and> trim_end_numeric name = ''crashlog'' \<and> dev = PmtName name)"
proof -
  have "(let s = option_or (os_to_str name) [] in if trim_end_numeric s = ''crashlog'' then Some (PmtName s) else None)
      = Some dev \<longleftrightarrow> os_to_str name = Some name \<and> trim_end_numeric name = ''crashlog'' \<and> dev = PmtName name" for name
    by (cases "os_to_str name") (auto simp: option_or_def trim_end_numeric_def dest: os_to_str_Some)
  then show ?thesis
    by (cases "fs_read_dir fs (class_path self)") (auto simp: discover_from_class_def in_map_filter)
qed

lemma pci_device_id_ok: "pci_device_id fs p name = Some dev \<Longrightarrow> \<exists>bdf. dev = PmtBdf bdf"
  by (auto simp: pci_device_id_def split: bind_splits if_splits)

lemma discover_source_ok: "dev \<in> set (pmt_sysfs_discover fs self) \<Longrightarrow> source_ok (SourcePmtDevice dev)"
  using discover_from_pci_spec [of fs self]
  by (auto simp: pmt_sysfs_discover_def discover_from_class_iff source_ok_def in_map_filter
      split: sum.splits dest!: pci_device_id_ok)

text \<open>An endpoint whose file holds a region\<close>

lemma endpoint_extract_region:
  assumes "fs_read fs (path_push (ep_path ep) ''crashlog'') = Inr bytes" and "region_image region bytes"
  shows "endpoint_extract fs ep = Inr \<lparr>cl_regions = unpack_region (region_bare region), cl_metadata = metadata_default\<rparr>"
  using assms by (simp add: endpoint_extract_def region_image_reads from_regions_unpack)

lemma extract_endpoints_append:
  fixes acc :: "'g crashlog list"
  shows "extract_endpoints fs eps acc = (case extract_endpoints fs eps [] of
    Inl e \<Rightarrow> Inl e | Inr cs \<Rightarrow> Inr (acc @ cs))"
proof (induction eps arbitrary: acc)
  case (Cons ep eps)
  show ?case
  proof (cases "endpoint_extract fs ep :: error + 'g crashlog")
    case (Inr c)
    then show ?thesis
      using Cons.IH [of "[c]"] Cons.IH [of "acc @ [c]"] by (simp split: sum.split)
  qed (use Cons.IH [of acc] in simp)
qed simp

text \<open>The endpoints that report an empty region are skipped; the first other error ends the loop.\<close>

definition first_failure :: "(error + 'a) list \<Rightarrow> error option" where
  "first_failure rs = (case List.map_filter (\<lambda>r. case r of Inl e \<Rightarrow> if e = EmptyRegion then None else Some e
     | Inr _ \<Rightarrow> None) rs of [] \<Rightarrow> None | e # _ \<Rightarrow> Some e)"

definition oks :: "(error + 'a) list \<Rightarrow> 'a list" where
  "oks rs = List.map_filter (\<lambda>r. case r of Inr c \<Rightarrow> Some c | Inl _ \<Rightarrow> None) rs"

lemma first_failure_simps [simp]:
  "first_failure [] = None"
  "first_failure (Inl e # rs) = (if e = EmptyRegion then first_failure rs else Some e)"
  "first_failure (Inr c # rs) = first_failure rs"
  by (simp_all add: first_failure_def List.map_filter_simps)

lemma oks_simps [simp]: "oks [] = []" "oks (Inl e # rs) = oks rs" "oks (Inr c # rs) = c # oks rs"
  by (simp_all add: oks_def List.map_filter_simps)

lemma extract_endpoints_cases:
  "extract_endpoints fs eps [] =
     (case first_failure (map (endpoint_extract fs) eps :: (error + 'g crashlog) list) of
        Some e \<Rightarrow> Inl e
      | None \<Rightarrow> Inr (oks (map (endpoint_extract fs) eps :: (error + 'g crashlog) list)))"
proof (induction eps)
  case (Cons ep eps)
  show ?case
  proof (cases "endpoint_extract fs ep :: error + 'g crashlog")
    case (Inr c)
    with Cons show ?thesis
      by (simp add: extract_endpoints_append [of fs eps "[c]"] split: option.split)
  qed (use Cons in \<open>simp split: option.split\<close>)
qed simp

subsection \<open>Properties\<close>

text \<open>A PMT device in sysfs, as in the test of the module: the endpoint \<open>crashlog0\<close> holds a region
  and its controls, \<open>crashlog7\<close> is a link to a directory that has no control, and a PCI device
  announces an endpoint of its own.\<close>
definition example_sysfs :: fs where
  "example_sysfs = \<lparr>fs_root = Dir [(''sys'', Dir [
      (''class'', Dir [(''intel_pmt'', Dir [
        (''telem1'', Dir []),
        (''crashlog0'', Dir [(''crashlog'', File (region_to_bytes example_region)), (''enable'', File [0x30]),
           (''trigger'', File [0x30])]),
        (''crashlog7'', Link (Path True [[], ''pmt7'']))])]),
      (''bus'', Dir [(''pci'', Dir [(''devices'', Dir [
        (''0000:00:1f.5'', Dir [(''intel_vsec.crashlog.3'', Dir [(''intel_pmt'', Dir [
           (''crashlog2'', Dir [(''crashlog'', File (region_to_bytes example_box_region @ [0, 0, 0, 0, 7]))]),
           (''crashlog3'', Dir [(''crashlog'', File [])])])])]),
        (''0000:00:0e.0'', Dir [(''vendor'', File [])])])])])]),
      (''pmt7'', Dir [(''crashlog'', File [])])],
     fs_cwd = []\<rparr>"

text \<open>C34. Enabling or disabling a device succeeds exactly if every endpoint of it has the control
  file. Then all those files hold the value, \<open>1\<close> or \<open>0\<close>; no other file has changed; and
  the devices, their endpoints and their capabilities are discovered as before.\<close>
theorem pmt_enable_disable_effect:
  assumes "pmt_enable_disable Linux dev enable fs = (r, fs')"
  shows "(r = Inr () \<longleftrightarrow>
        (\<forall>ep \<in> set (get_endpoints fs pmt_sysfs_default dev). fs_is_file fs (path_push (ep_path ep) ''enable'')))
    \<and> (r = Inr () \<longrightarrow> (\<forall>ep \<in> set (get_endpoints fs pmt_sysfs_default dev).
        fs_read fs' (path_push (ep_path ep) ''enable'') = Inr (if enable then [0x31] else [0x30])))
    \<and> (\<forall>names b. node_at (fs_root fs) names = Some (File b)
        \<and> (\<forall>ep \<in> set (get_endpoints fs pmt_sysfs_default dev).
             canonicalize fs (path_push (ep_path ep) ''enable'') \<noteq> Inr names)
        \<longrightarrow> node_at (fs_root fs') names = Some (File b))
    \<and> pmt_discover Linux fs' = pmt_discover Linux fs
    \<and> get_endpoints fs' pmt_sysfs_default dev' = get_endpoints fs pmt_sysfs_default dev'
    \<and> pmt_capabilities Linux fs' dev' = pmt_capabilities Linux fs dev'"
proof -
  let ?eps = "get_endpoints fs pmt_sysfs_default dev"
  have run: "for_endpoints (endpoint_enable_disable enable) ?eps fs = (r, fs')"
    using assms by (simp add: pmt_enable_disable_def)
  then have same: "same_shape fs fs'" using enable_disable.for_shape [of fs enable ?eps] by simp
  show ?thesis
    using enable_disable.for_ok_iff [of enable ?eps fs] enable_disable.for_writes [of enable ?eps fs fs']
      enable_disable.for_frame [of fs _ _ ?eps enable] run
    by (auto simp: pmt_discover_def pmt_capabilities_def discover_shape [OF same] capabilities_shape [OF same]
        get_endpoints_shape [OF same])
qed

lemma example_sysfs_endpoints:
  "get_endpoints example_sysfs pmt_sysfs_default (PmtName ''crashlog0'')
     = [\<lparr>ep_path = Path True [[], [], ''sys'', ''class'', ''intel_pmt'', ''crashlog0'']\<rparr>]"
  by code_simp

theorem pmt_enable_disable_effect_witness:
  "fs_read (snd (pmt_enable_disable Linux (PmtName ''crashlog0'') True example_sysfs))
     (Path True [[], [], ''sys'', ''class'', ''intel_pmt'', ''crashlog0'', ''enable'']) = Inr [0x31]"
proof -
  obtain r fs' where run: "pmt_enable_disable Linux (PmtName ''crashlog0'') True example_sysfs = (r, fs')"
    by (cases "pmt_enable_disable Linux (PmtName ''crashlog0'') True example_sysfs")
  have "fs_is_file example_sysfs (Path True [[], [], ''sys'', ''class'', ''intel_pmt'', ''crashlog0'', ''enable''])"
    by code_simp
  moreover have "path_push (Path True [[], [], ''sys'', ''class'', ''intel_pmt'', ''crashlog0'']) ''enable''
      = Path True [[], [], ''sys'', ''class'', ''intel_pmt'', ''crashlog0'', ''enable'']" by code_simp
  ultimately show ?thesis
    using pmt_enable_disable_effect [OF run] unfolding run example_sysfs_endpoints by simp
qed

text \<open>C35. What a device reports is extracted, in the order of its endpoints. Every endpoint must have a
  file that either has no record (it is empty, or starts with a termination marker or a record of
  size 0) or holds a region: records whose data starts with their header and is as long as the
  header says, of which only the last may be truncated, and after them nothing or, when the last
  record is complete, a termination marker and anything else. An endpoint of the first kind gives
  nothing; one of the second kind gives a crash log of its own, with its region first and after it
  the regions that are nested in its box records.\<close>
theorem pmt_extract_endpoints:
  assumes "list_all2 (\<lambda>ep content.
      \<exists>bytes. fs_read fs (path_push (ep_path ep) ''crashlog'') = Inr bytes \<and>
        (case content of Some region \<Rightarrow> region_image region bytes | None \<Rightarrow> region_from_slice bytes = Inl EmptyRegion))
    (get_endpoints fs pmt_sysfs_default dev) contents"
  shows "pmt_extract Linux fs dev
    = Inr (map (\<lambda>region. \<lparr>cl_regions = unpack_region (region_bare region), cl_metadata = metadata_default\<rparr>)
        (List.map_filter id contents))"
proof -
  let ?P = "\<lambda>ep content. \<exists>bytes. fs_read fs (path_push (ep_path ep) ''crashlog'') = Inr bytes \<and>
        (case content of Some region \<Rightarrow> region_image region bytes | None \<Rightarrow> region_from_slice bytes = Inl EmptyRegion)"
  let ?cl = "\<lambda>region. \<lparr>cl_regions = unpack_region (region_bare region), cl_metadata = metadata_default\<rparr> :: 'a crashlog"
  have "list_all2 ?P eps contents \<Longrightarrow> extract_endpoints fs eps [] = Inr (map ?cl (List.map_filter id contents))" for eps
  proof (induction eps contents rule: list_all2_induct)
    case (Cons ep eps content contents)
    show ?case
    proof (cases content)
      case None
      with Cons.hyps have "endpoint_extract fs ep = (Inl EmptyRegion :: error + 'a crashlog)"
        by (auto simp: endpoint_extract_def)
      with None Cons.IH show ?thesis by (simp add: List.map_filter_simps)
    next
      case (Some region)
      with Cons.hyps have "endpoint_extract fs ep = Inr (?cl region)" by (auto intro: endpoint_extract_region)
      with Some Cons.IH show ?thesis
        by (simp add: List.map_filter_simps extract_endpoints_append [of fs eps "[?cl region]"])
    qed
  qed (simp add: List.map_filter_simps)
  from this [OF assms] show ?thesis by (simp add: pmt_extract_def pmt_sysfs_extract_def)
qed

text \<open>The file of the first endpoint has a box record and is padded; that of the second one is empty.\<close>
theorem pmt_extract_endpoints_witness:
  "pmt_extract Linux example_sysfs (PmtBdf (pci_bdf_new 0 0 0x1f 5))
     = Inr [\<lparr>cl_regions = [example_box_region, set_child_context example_region (rec_header example_box)],
             cl_metadata = metadata_default\<rparr>]"
proof -
  have eps: "get_endpoints example_sysfs pmt_sysfs_default (PmtBdf (pci_bdf_new 0 0 0x1f 5))
      = (let vsec = [[], [], ''sys'', ''bus'', ''pci'', ''devices'', ''0000:00:1f.5'', ''intel_vsec.crashlog.3'', ''intel_pmt''] in
         [\<lparr>ep_path = Path True (vsec @ [''crashlog2''])\<rparr>, \<lparr>ep_path = Path True (vsec @ [''crashlog3''])\<rparr>])"
    by code_simp
  have "fs_read example_sysfs (path_push (Path True [[], [], ''sys'', ''bus'', ''pci'', ''devices'', ''0000:00:1f.5'',
      ''intel_vsec.crashlog.3'', ''intel_pmt'', ''crashlog2'']) ''crashlog'') = Inr (region_to_bytes example_box_region @ [0, 0, 0, 0, 7])"
    and "fs_read example_sysfs (path_push (Path True [[], [], ''sys'', ''bus'', ''pci'', ''devices'', ''0000:00:1f.5'',
      ''intel_vsec.crashlog.3'', ''intel_pmt'', ''crashlog3'']) ''crashlog'') = Inr []"
    and "region_from_slice [] = Inl EmptyRegion"
    and "region_image example_box_region (region_to_bytes example_box_region @ [0, 0, 0, 0, 7])"
    and "unpack_region (region_bare example_box_region)
      = [example_box_region, set_child_context example_region (rec_header example_box)]"
    by code_simp+
  then show ?thesis
    using pmt_extract_endpoints [of example_sysfs "PmtBdf (pci_bdf_new 0 0 0x1f 5)" "[Some example_box_region, None]"]
    unfolding eps by (simp add: List.map_filter_simps)
qed

text \<open>Gathering the endpoints unpacks the boxes once more: of an endpoint whose crash log has two regions, a
  box and the one nested in it, three are gathered.\<close>
theorem pmt_gathers_box_regions_twice:
  "let fs = \<lparr>fs_root = Dir [(''sys'', Dir [(''class'', Dir [(''intel_pmt'', Dir [(''crashlog0'',
        Dir [(''crashlog'', File (region_to_bytes example_box_region))])])])])], fs_cwd = []\<rparr> in
   case (map (endpoint_extract fs) (get_all_endpoints fs pmt_sysfs_default), from_pmt_sysfs fs) of
     ([Inr c], Inr c') \<Rightarrow> length (cl_regions (c :: 128 word crashlog)) = 2 \<and> length (cl_regions (c' :: 128 word crashlog)) = 3
   | _ \<Rightarrow> False"
  by code_simp

text \<open>The names in a directory that can be read, in the order of the directory\<close>
definition dir_names :: "fs \<Rightarrow> path \<Rightarrow> string list" where
  "dir_names fs p = (case fs_read_dir fs p of Inl _ \<Rightarrow> []
     | Inr entries \<Rightarrow> concat (map (\<lambda>e. case e of Inr name \<Rightarrow> [name] | Inl _ \<Rightarrow> []) entries))"

text \<open>A name in UTF-8 that is a prefix followed by numeric characters only\<close>
definition numbered :: "string \<Rightarrow> string \<Rightarrow> bool" where
  "numbered pre name \<longleftrightarrow> os_to_str name = Some name \<and> take (length pre) name = pre
     \<and> list_all is_numeric (drop (length pre) name)"

lemma trim_numbered:
  assumes "pre \<noteq> []" and "\<not> is_numeric (last pre)"
  shows "os_to_str name = Some name \<and> trim_end_numeric name = pre \<longleftrightarrow> numbered pre name"
proof
  assume "os_to_str name = Some name \<and> trim_end_numeric name = pre"
  moreover obtain d where "name = trim_end_numeric name @ d" "\<forall>c \<in> set d. is_numeric c"
    using trim_end_numeric_decomp by blast
  ultimately show "numbered pre name"
    by (metis (no_types, lifting) append_eq_conv_conj list_all_iff numbered_def)
next
  assume "numbered pre name"
  then show "os_to_str name = Some name \<and> trim_end_numeric name = pre"
    using append_take_drop_id [of "length pre" name] trim_end_numeric_append [of "drop (length pre) name" pre]
      trim_end_numeric_id [of pre] assms by (auto simp: numbered_def list_all_iff)
qed

lemma ok_names_concat:
  "ok_names entries = concat (map (\<lambda>e. case e of Inr name \<Rightarrow> [name] | Inl _ \<Rightarrow> []) entries)"
  by (induction entries) (auto simp: ok_names_def List.map_filter_simps split: sum.split)

lemma in_dir_names:
  "name \<in> set (dir_names fs p) \<longleftrightarrow> (\<exists>entries. fs_read_dir fs p = Inr entries \<and> Inr name \<in> set entries)"
  by (cases "fs_read_dir fs p") (simp_all add: dir_names_def flip: ok_names_concat)

lemma discover_from_class_names:
  "discover_from_class fs self = map PmtName (filter (numbered ''crashlog'') (dir_names fs (class_path self)))"
proof -
  have "(let s = option_or (os_to_str name) [] in if trim_end_numeric s = ''crashlog'' then Some (PmtName s) else None)
      = (if numbered ''crashlog'' name then Some (PmtName name) else None)" for name
    using trim_numbered [of "''crashlog''" name]
    by (cases "os_to_str name") (auto simp: option_or_def trim_end_numeric_def is_numeric_def dest: os_to_str_Some)
  moreover have "List.map_filter (\<lambda>name. if P name then Some (f name) else None) ns = map f (filter P ns)"
    for P :: "string \<Rightarrow> bool" and f :: "string \<Rightarrow> pmt_device_id" and ns
    by (induction ns) (simp_all add: List.map_filter_simps)
  ultimately show ?thesis
    by (simp add: discover_from_class_def dir_names_def ok_names_concat split: sum.split)
qed

lemma has_vsec_name_iff:
  "has_vsec_name names \<longleftrightarrow> (\<exists>name \<in> set names. numbered ''intel_vsec.crashlog.'' name)"
proof (induction names)
  case (Cons name names)
  then show ?case
    using trim_numbered [of "''intel_vsec.crashlog.''" name]
    by (cases "os_to_str name") (auto simp: is_numeric_def numbered_def dest: os_to_str_Some)
qed simp

lemma has_crashlog_vsec_iff:
  "has_crashlog_vsec fs p \<longleftrightarrow> (\<exists>name \<in> set (dir_names fs p). numbered ''intel_vsec.crashlog.'' name)"
  by (cases "fs_read_dir fs p") (simp_all add: has_crashlog_vsec_def dir_names_def has_vsec_name_iff flip: ok_names_concat)

lemma pci_device_id_iff:
  "pci_device_id fs p name = Some dev \<longleftrightarrow> os_to_str name = Some name
     \<and> (\<exists>bdf. dev = PmtBdf bdf \<and> pci_bdf_from_str name = Some bdf) \<and> has_crashlog_vsec fs (entry_path p name)"
  by (cases "os_to_str name") (auto simp: pci_device_id_def dest!: os_to_str_Some split: bind_splits if_splits)

lemma sorted_map_PmtBdf [simp]: "sorted (map PmtBdf bdfs) \<longleftrightarrow> sorted bdfs"
  by (induction bdfs) (auto simp: less_eq_pmt_device_id_def)

lemma discover_from_pci_bdfs:
  "\<exists>bdfs. discover_from_pci fs self = map PmtBdf bdfs \<and> sorted bdfs \<and> distinct bdfs \<and>
     set bdfs = {bdf. \<exists>name \<in> set (dir_names fs (pci_dev_path self)). os_to_str name = Some name
       \<and> pci_bdf_from_str name = Some bdf \<and> has_crashlog_vsec fs (entry_path (pci_dev_path self) name)}"
proof -
  note pci = discover_from_pci_spec [of fs self]
  have iff: "dev \<in> set (discover_from_pci fs self) \<longleftrightarrow> (\<exists>name \<in> set (dir_names fs (pci_dev_path self)).
      pci_device_id fs (pci_dev_path self) name = Some dev)" for dev
    using pci by (cases "fs_read_dir fs (pci_dev_path self)") (auto simp: in_map_filter in_dir_names)
  then have "\<exists>bdfs. discover_from_pci fs self = map PmtBdf bdfs"
    unfolding ex_map_conv by (auto simp: pci_device_id_iff)
  then obtain bdfs where bdfs: "discover_from_pci fs self = map PmtBdf bdfs" by blast
  have "bdf \<in> set bdfs \<longleftrightarrow> PmtBdf bdf \<in> set (discover_from_pci fs self)" for bdf by (auto simp: bdfs)
  then have "set bdfs = {bdf. \<exists>name \<in> set (dir_names fs (pci_dev_path self)). os_to_str name = Some name
       \<and> pci_bdf_from_str name = Some bdf \<and> has_crashlog_vsec fs (entry_path (pci_dev_path self) name)}"
    unfolding iff by (auto simp: pci_device_id_iff)
  then show ?thesis using pci unfolding bdfs by (auto simp: distinct_map)
qed

text \<open>C36. Discovery is complete and exact. The endpoints come first: the names \<open>crashlog<number>\<close> of the
  class directory, each entry once, in the order of the directory. The PCI devices follow in increasing
  order of their addresses, each address once: exactly the addresses that are the name of an entry
  of the directory of PCI devices which itself has an entry \<open>intel_vsec.crashlog.<number>\<close>.
  Directories that cannot be read count as empty, names that are not UTF-8 are skipped, and a number
  may be empty.\<close>
theorem pmt_discover_complete:
  "pmt_discover Linux fs =
     map PmtName (filter (numbered ''crashlog'') (dir_names fs (class_path pmt_sysfs_default)))
     @ map PmtBdf (sorted_list_of_set {bdf. \<exists>name \<in> set (dir_names fs (pci_dev_path pmt_sysfs_default)).
         os_to_str name = Some name \<and> pci_bdf_from_str name = Some bdf
         \<and> (\<exists>vsec \<in> set (dir_names fs (entry_path (pci_dev_path pmt_sysfs_default) name)).
              numbered ''intel_vsec.crashlog.'' vsec)})"
proof -
  obtain bdfs where bdfs: "discover_from_pci fs pmt_sysfs_default = map PmtBdf bdfs" "sorted bdfs" "distinct bdfs"
    and set: "set bdfs = {bdf. \<exists>name \<in> set (dir_names fs (pci_dev_path pmt_sysfs_default)). os_to_str name = Some name
       \<and> pci_bdf_from_str name = Some bdf \<and> has_crashlog_vsec fs (entry_path (pci_dev_path pmt_sysfs_default) name)}"
    using discover_from_pci_bdfs by blast
  have "sorted_list_of_set (set bdfs) = bdfs" using bdfs(2,3) by (rule sorted_list_of_set.idem_if_sorted_distinct)
  then show ?thesis
    unfolding set has_crashlog_vsec_iff
    by (simp add: pmt_discover_def pmt_sysfs_discover_def discover_from_class_names bdfs(1))
qed

theorem pmt_discover_complete_witness:
  "pmt_discover Linux example_sysfs = [PmtName ''crashlog0'', PmtName ''crashlog7'', PmtBdf (pci_bdf_new 0 0 0x1f 5)]"
proof -
  have "filter (numbered ''crashlog'') (dir_names example_sysfs (class_path pmt_sysfs_default)) = [''crashlog0'', ''crashlog7'']"
    and pci: "dir_names example_sysfs (pci_dev_path pmt_sysfs_default) = [''0000:00:1f.5'', ''0000:00:0e.0'']"
    and "dir_names example_sysfs (entry_path (pci_dev_path pmt_sysfs_default) ''0000:00:1f.5'') = [''intel_vsec.crashlog.3'']"
    and "dir_names example_sysfs (entry_path (pci_dev_path pmt_sysfs_default) ''0000:00:0e.0'') = [''vendor'']"
    and "numbered ''intel_vsec.crashlog.'' ''intel_vsec.crashlog.3''" "\<not> numbered ''intel_vsec.crashlog.'' ''vendor''"
    and "os_to_str ''0000:00:1f.5'' = Some ''0000:00:1f.5''"
    and addr: "pci_bdf_show (pci_bdf_new 0 0 0x1f 5) = ''0000:00:1f.5''"
    by code_simp+
  note this(1,3-7) pci_bdf_roundtrip [of "pci_bdf_new 0 0 0x1f 5", unfolded addr]
  then have "{bdf. \<exists>name \<in> set (dir_names example_sysfs (pci_dev_path pmt_sysfs_default)).
         os_to_str name = Some name \<and> pci_bdf_from_str name = Some bdf
         \<and> (\<exists>vsec \<in> set (dir_names example_sysfs (entry_path (pci_dev_path pmt_sysfs_default) name)).
              numbered ''intel_vsec.crashlog.'' vsec)} = {pci_bdf_new 0 0 0x1f 5}"
    by (simp only: pci list.set bex_simps) (auto simp only: option.inject)
  with \<open>filter _ _ = _\<close> show ?thesis by (simp only: pmt_discover_complete) simp
qed

end
