(* ===== verification/Sources.thy ===== *)
theory Sources
  imports Pmt
begin

text \<open>
  The sources of crash logs: the ACPI boot error record through the Linux sysfs
  (\<open>lib/src/source/acpi/sysfs.rs\<close>) or the EFI system table (\<open>lib/src/source/acpi/efi.rs\<close>,
  \<open>Bert::berr_from_phys_mem\<close> of \<open>lib/src/bert.rs\<close>), the Windows event log
  (\<open>lib/src/source/event_log.rs\<close>, \<open>event_log/win.rs\<close>), and the operations of \<open>CrashLogSource\<close>
  (\<open>lib/src/source.rs\<close>) that dispatch on them. The platform a program is built for is an argument of
  type \<open>target_os\<close>. The parts of a platform that are not a file system are parameters: the record
  \<open>efi_env\<close> for the firmware and its memory, the record \<open>win_api\<close> for the event log functions.
\<close>

subsection \<open>ACPI tables in sysfs\<close>

record acpi_sysfs =
  acpi_root :: path

definition acpi_sysfs_default :: acpi_sysfs where
  "acpi_sysfs_default = \<lparr>acpi_root = path_of_str ''/''\<rparr>"

definition tables_path :: "acpi_sysfs \<Rightarrow> path" where
  "tables_path self =
     path_push (path_push (path_push (path_push (acpi_root self) ''sys'') ''firmware'') ''acpi'') ''tables''"

definition berr_path :: "acpi_sysfs \<Rightarrow> path" where
  "berr_path self = path_push (path_push (tables_path self) ''data'') ''BERT''"

definition acpi_sysfs_extract :: "'g uguid \<Rightarrow> fs \<Rightarrow> acpi_sysfs \<Rightarrow> error + 'g crashlog" where
  "acpi_sysfs_extract G fs self =
     rbind (case fs_read fs (berr_path self) of
         Inl err \<Rightarrow> Inl (if err = NotFound then NoCrashLogFound else io_error err)
       | Inr berr \<Rightarrow> ok_or InvalidBootErrorRecordRegion (berr_from_slice G berr))
       (from_berr G)"

text \<open>\<open>CrashLog::from_acpi_sysfs\<close>\<close>
definition from_acpi_sysfs :: "'g uguid \<Rightarrow> fs \<Rightarrow> error + 'g crashlog" where
  "from_acpi_sysfs G fs = acpi_sysfs_extract G fs acpi_sysfs_default"

subsection \<open>ACPI tables under EFI\<close>

text \<open>What the firmware gives: the configuration tables, the ACPI tables found from a root pointer
  (the crate \<open>acpi\<close>), the physical memory, and the clock\<close>
record ('g, 't) efi_env =
  efi_config_tables :: "('g \<times> u64) list"
  efi_acpi2_guid :: 'g
  efi_tables_from_rsdp :: "u64 \<Rightarrow> 't option"
  efi_find_table_bert :: "'t \<Rightarrow> bert option"
  efi_memory :: "u64 \<Rightarrow> u8"
  efi_get_time :: "time option"

fun find_acpi_tables_in :: "('g, 't) efi_env \<Rightarrow> ('g \<times> u64) list \<Rightarrow> 't option" where
  "find_acpi_tables_in efi [] = None"
| "find_acpi_tables_in efi ((guid, address) # config_tables) =
     (if guid \<noteq> efi_acpi2_guid efi then find_acpi_tables_in efi config_tables
      else case efi_tables_from_rsdp efi address of
          Some acpi_tables \<Rightarrow> Some acpi_tables
        | None \<Rightarrow> find_acpi_tables_in efi config_tables)"

definition find_acpi_tables :: "('g, 't) efi_env \<Rightarrow> 't option" where
  "find_acpi_tables efi = find_acpi_tables_in efi (efi_config_tables efi)"

definition find_bert :: "('g, 't) efi_env \<Rightarrow> error + bert" where
  "find_bert efi = rbind (ok_or NoCrashLogFound (find_acpi_tables efi)) (\<lambda>tables.
     ok_or NoCrashLogFound (efi_find_table_bert efi tables))"

definition raw_berr_from_phys_mem :: "(u64 \<Rightarrow> u8) \<Rightarrow> bert \<Rightarrow> bytes" where
  "raw_berr_from_phys_mem memory bert =
     map (\<lambda>i. memory (bert_region bert + of_nat i)) [0..<unat (bert_region_length bert)]"

definition berr_from_phys_mem :: "'g uguid \<Rightarrow> (u64 \<Rightarrow> u8) \<Rightarrow> bert \<Rightarrow> 'g berr option" where
  "berr_from_phys_mem G memory bert = berr_from_slice G (raw_berr_from_phys_mem memory bert)"

definition efi_extract_crashlog :: "'g uguid \<Rightarrow> ('g, 't) efi_env \<Rightarrow> error + 'g crashlog" where
  "efi_extract_crashlog G efi =
     rbind (rbind (rbind (find_bert efi) (\<lambda>bert.
         ok_or InvalidBootErrorRecordRegion (berr_from_phys_mem G (efi_memory efi) bert))) (from_berr G))
       (\<lambda>crashlog. Inr (crashlog\<lparr>cl_metadata :=
          metadata_default\<lparr>md_computer := Some ''efi'', md_time := efi_get_time efi\<rparr>\<rparr>))"

text \<open>\<open>CrashLog::from_system_table\<close>: a system table that is given becomes the current one; \<open>efi_of\<close> is what
  the firmware gives through a table. The result has the table that is current afterwards.\<close>
definition from_system_table :: "'g uguid \<Rightarrow> ('s \<Rightarrow> ('g, 't) efi_env) \<Rightarrow> 's option \<Rightarrow> 's
    \<Rightarrow> (error + 'g crashlog) \<times> 's" where
  "from_system_table G efi_of system_table current =
     (let current = (case system_table of None \<Rightarrow> current | Some table \<Rightarrow> table) in
      (efi_extract_crashlog G (efi_of current), current))"

subsection \<open>The ACPI source\<close>

definition acpi_is_available :: "target_os \<Rightarrow> bool" where
  "acpi_is_available os \<longleftrightarrow> os = Linux \<or> os = Uefi"

definition acpi_extract :: "'g uguid \<Rightarrow> target_os \<Rightarrow> fs \<Rightarrow> ('g, 't) efi_env \<Rightarrow> error + 'g crashlog" where
  "acpi_extract G os fs efi =
     (let result = (if os = Linux then acpi_sysfs_extract G fs acpi_sysfs_default
                    else if os = Uefi then efi_extract_crashlog G efi else Inl NoCrashLogFound)
      in case result of Inr crashlog \<Rightarrow> Inr crashlog | Inl _ \<Rightarrow> Inl NoCrashLogFound)"

subsection \<open>The Windows event log\<close>

definition ERROR_NO_MORE_ITEMS :: u32 where "ERROR_NO_MORE_ITEMS = 259"
definition ERROR_INSUFFICIENT_BUFFER :: u32 where "ERROR_INSUFFICIENT_BUFFER = 122"
definition EvtQueryChannelPath :: u32 where "EvtQueryChannelPath = 1"
definition EvtQueryFilePath :: u32 where "EvtQueryFilePath = 2"

text \<open>An \<open>EVT_VARIANT\<close>: what each field of the union reads as. The text is the result of
  \<open>StringVal.to_string().ok()\<close>.\<close>
record evt_variant =
  var_binary :: bytes
  var_filetime :: u64
  var_string :: "string option"

record systemtime =
  wYear :: u16
  wMonth :: u16
  wDay :: u16
  wHour :: u16
  wMinute :: u16

text \<open>The event log functions of the Windows API. A query gives a result set, the list of the outcomes
  of the calls of \<open>EvtNext\<close> on it, until it is exhausted and \<open>EvtNext\<close> fails with
  \<open>ERROR_NO_MORE_ITEMS\<close>. Rendering an event without a buffer gives the error that asks
  for one, rendering it into a buffer gives its values.\<close>
record 'e win_api =
  EvtQuery :: "string \<Rightarrow> string \<Rightarrow> u32 \<Rightarrow> u32 + (u32 + 'e list) list"
  EvtCreateRenderContext :: "u32 + unit"
  EvtRenderSize :: "'e \<Rightarrow> u32 + unit"
  EvtRenderValues :: "'e \<Rightarrow> u32 + evt_variant list"
  FileTimeToSystemTime :: "u32 \<Rightarrow> u32 \<Rightarrow> u32 + systemtime"

fun EvtNext :: "(u32 + 'e list) list \<Rightarrow> (u32 + 'e list) \<times> (u32 + 'e list) list" where
  "EvtNext [] = (Inl ERROR_NO_MORE_ITEMS, [])"
| "EvtNext (result # result_set) = (result, result_set)"

definition evt_next :: "(u32 + 'e list) list \<Rightarrow> (u32 + 'e list) \<times> (u32 + 'e list) list" where
  "evt_next result_set = (case EvtNext result_set of
     (Inl error, result_set) \<Rightarrow> (if error = ERROR_NO_MORE_ITEMS then Inr [] else Inl error, result_set)
   | (Inr events, result_set) \<Rightarrow> (Inr events, result_set))"

lemma evt_next_shorter: "evt_next result_set = (Inr (event # events), rest) \<Longrightarrow> length rest < length result_set"
  by (cases result_set) (auto simp: evt_next_def split: sum.splits if_splits)

definition evt_render_values :: "'e win_api \<Rightarrow> 'e \<Rightarrow> u32 + evt_variant list option" where
  "evt_render_values api event =
     (case EvtRenderSize api event of
        Inl error \<Rightarrow>
          if error \<noteq> ERROR_INSUFFICIENT_BUFFER then Inl error
          else rbind (EvtRenderValues api event) (\<lambda>values. Inr (Some values))
      | Inr _ \<Rightarrow> Inr None)"

definition metadata_from_evt_values :: "'e win_api \<Rightarrow> evt_variant \<Rightarrow> evt_variant \<Rightarrow> u32 + 'g metadata" where
  "metadata_from_evt_values api filetime computer =
     (let high = ucast (drop_bit 32 (var_filetime filetime));
          low = ucast (var_filetime filetime AND 0xFFFFFFFF) in
      rbind (FileTimeToSystemTime api high low) (\<lambda>time.
        Inr (metadata_default
          \<lparr>md_time := Some \<lparr>tm_year = wYear time, tm_month = ucast (wMonth time), tm_day = ucast (wDay time),
             tm_hour = ucast (wHour time), tm_minute = ucast (wMinute time)\<rparr>,
           md_computer := var_string computer\<rparr>)))"

text \<open>The loop of \<open>query_crashlogs\<close>. Indexing the values panics when there are less than three; the
  result is then \<open>None\<close>.\<close>
function query_loop :: "'g uguid \<Rightarrow> 'e win_api \<Rightarrow> (u32 + 'e list) list \<Rightarrow> 'g crashlog list
    \<Rightarrow> (u32 + 'g crashlog list) option" where
  "query_loop G api result_set crashlogs =
     (case evt_next result_set of
        (Inl error, _) \<Rightarrow> Some (Inl error)
      | (Inr [], _) \<Rightarrow> Some (Inr crashlogs)
      | (Inr (event # _), result_set) \<Rightarrow>
          (case evt_render_values api event of
             Inl error \<Rightarrow> Some (Inl error)
           | Inr None \<Rightarrow> query_loop G api result_set crashlogs
           | Inr (Some values) \<Rightarrow>
               if length values < 1 then None
               else (case crashlog_from_slice G (var_binary (values ! 0)) of
                   Inl _ \<Rightarrow> query_loop G api result_set crashlogs
                 | Inr crashlog \<Rightarrow>
                     if length values < 3 then None
                     else (case metadata_from_evt_values api (values ! 1) (values ! 2) of
                         Inl error \<Rightarrow> Some (Inl error)
                       | Inr md \<Rightarrow> query_loop G api result_set (crashlogs @ [crashlog\<lparr>cl_metadata := md\<rparr>])))))"
  by pat_completeness auto
termination
  by (relation "measure (\<lambda>(G, api, result_set, crashlogs). length result_set)")
    (auto dest: evt_next_shorter [OF sym])

declare query_loop.simps [simp del]

definition query_crashlogs :: "'g uguid \<Rightarrow> 'e win_api \<Rightarrow> string \<Rightarrow> string \<Rightarrow> u32
    \<Rightarrow> (u32 + 'g crashlog list) option" where
  "query_crashlogs G api p query query_flags =
     (case EvtQuery api p query query_flags of
        Inl error \<Rightarrow> Some (Inl error)
      | Inr result_set \<Rightarrow>
          (case EvtCreateRenderContext api of
             Inl error \<Rightarrow> Some (Inl error)
           | Inr _ \<Rightarrow> query_loop G api result_set []))"

definition win_extract_crashlogs :: "'g uguid \<Rightarrow> 'e win_api \<Rightarrow> string option
    \<Rightarrow> (u32 + 'g crashlog list) option" where
  "win_extract_crashlogs G api evtx_path =
     (let query_flags = (if evtx_path \<noteq> None then EvtQueryFilePath else EvtQueryChannelPath) in
      do {
        crashlogs \<leftarrow> query_crashlogs G api (option_or evtx_path ''Microsoft-Windows-Kernel-WHEA/Errors'')
          ''*[System[Provider[@Name=\"Microsoft-Windows-Kernel-WHEA\"]]]'' query_flags;
        case crashlogs of
          Inl error \<Rightarrow> Some (Inl error)
        | Inr crashlogs \<Rightarrow> do {
            system_crashlogs \<leftarrow> query_crashlogs G api (option_or evtx_path ''System'')
              ''*[System[Provider[@Name=\"Microsoft-Windows-WHEA-Logger\"]]]'' query_flags;
            case system_crashlogs of
              Inl error \<Rightarrow> Some (Inl error)
            | Inr system_crashlogs \<Rightarrow> Some (Inr (crashlogs @ system_crashlogs)) } })"

definition event_log_is_available :: "target_os \<Rightarrow> bool" where
  "event_log_is_available os \<longleftrightarrow> os = Windows"

text \<open>\<open>EventLog::extract\<close>, where the event log has an optional path\<close>
definition event_log_extract :: "'g uguid \<Rightarrow> target_os \<Rightarrow> 'e win_api \<Rightarrow> string option
    \<Rightarrow> (error + 'g crashlog list) option" where
  "event_log_extract G os api evtx_path =
     (if os = Windows then do {
        result \<leftarrow> win_extract_crashlogs G api evtx_path;
        Some (case result of Inr crashlogs \<Rightarrow> Inr crashlogs | Inl _ \<Rightarrow> Inl NoCrashLogFound) }
      else Some (Inl NoCrashLogFound))"

text \<open>\<open>CrashLog::from_event_logs\<close>\<close>
definition from_event_logs :: "'g uguid \<Rightarrow> 'e win_api \<Rightarrow> string option
    \<Rightarrow> (error + 'g crashlog list) option" where
  "from_event_logs G api evtx_path = event_log_extract G Windows api evtx_path"

definition from_windows_event_logs :: "'g uguid \<Rightarrow> 'e win_api \<Rightarrow> string option
    \<Rightarrow> (error + 'g crashlog list) option" where
  "from_windows_event_logs G api evtx_path = do {
     result \<leftarrow> from_event_logs G api evtx_path;
     Some (case result of Inr crashlogs \<Rightarrow> Inr crashlogs | Inl _ \<Rightarrow> Inl InternalError) }"

subsection \<open>Operations of a source\<close>

definition source_discover :: "target_os \<Rightarrow> fs \<Rightarrow> crash_log_source list" where
  "source_discover os fs =
     (let sources = [];
          sources = (if acpi_is_available os then sources @ [SourceAcpi] else sources);
          sources = (if event_log_is_available os then sources @ [SourceEventLog] else sources)
      in sources @ map SourcePmtDevice (pmt_discover os fs))"

definition source_extract :: "'g uguid \<Rightarrow> target_os \<Rightarrow> fs \<Rightarrow> ('g, 't) efi_env \<Rightarrow> 'e win_api
    \<Rightarrow> crash_log_source \<Rightarrow> (error + 'g crashlog list) option" where
  "source_extract G os fs efi api self = do {
     crashlogs \<leftarrow> (case self of
         SourceAcpi \<Rightarrow> Some (rbind (acpi_extract G os fs efi) (\<lambda>crashlog. Inr [crashlog]))
       | SourcePmtDevice dev \<Rightarrow> Some (pmt_extract os fs dev)
       | SourceEventLog \<Rightarrow> event_log_extract G os api None);
     Some (case crashlogs of
         Inl e \<Rightarrow> Inl e
       | Inr crashlogs \<Rightarrow> Inr (map (\<lambda>crashlog. crashlog\<lparr>cl_metadata :=
           (cl_metadata crashlog)\<lparr>md_source := Some self\<rparr>\<rparr>) crashlogs)) }"

definition source_trigger :: "target_os \<Rightarrow> crash_log_source \<Rightarrow> fs \<Rightarrow> (error + unit) \<times> fs" where
  "source_trigger os self fs = (case self of
     SourcePmtDevice dev \<Rightarrow> pmt_trigger os dev fs | _ \<Rightarrow> (Inl Unsupported, fs))"

definition source_clear :: "target_os \<Rightarrow> crash_log_source \<Rightarrow> fs \<Rightarrow> (error + unit) \<times> fs" where
  "source_clear os self fs = (case self of
     SourcePmtDevice dev \<Rightarrow> pmt_clear os dev fs | _ \<Rightarrow> (Inl Unsupported, fs))"

definition source_enable :: "target_os \<Rightarrow> crash_log_source \<Rightarrow> fs \<Rightarrow> (error + unit) \<times> fs" where
  "source_enable os self fs = (case self of
     SourcePmtDevice dev \<Rightarrow> pmt_enable_disable os dev True fs | _ \<Rightarrow> (Inl Unsupported, fs))"

definition source_disable :: "target_os \<Rightarrow> crash_log_source \<Rightarrow> fs \<Rightarrow> (error + unit) \<times> fs" where
  "source_disable os self fs = (case self of
     SourcePmtDevice dev \<Rightarrow> pmt_enable_disable os dev False fs | _ \<Rightarrow> (Inl Unsupported, fs))"

definition source_capabilities :: "target_os \<Rightarrow> fs \<Rightarrow> crash_log_source \<Rightarrow> capabilities" where
  "source_capabilities os fs self = (case self of
     SourceAcpi \<Rightarrow> {Extract} | SourceEventLog \<Rightarrow> {Extract}
   | SourcePmtDevice dev \<Rightarrow> pmt_capabilities os fs dev)"

subsection \<open>The loop over the events\<close>

text \<open>The crash log of an event that renders to its data, its time and its computer\<close>
definition event_crashlog :: "'g uguid \<Rightarrow> 'e win_api \<Rightarrow> 'e \<Rightarrow> 'g crashlog option" where
  "event_crashlog G api event =
     (case EvtRenderValues api event of
        Inr [b, t, c] \<Rightarrow>
          (case (crashlog_from_slice G (var_binary b), metadata_from_evt_values api t c) of
             (Inr crashlog, Inr md) \<Rightarrow> Some (crashlog\<lparr>cl_metadata := md\<rparr>) | _ \<Rightarrow> None)
      | _ \<Rightarrow> None)"

text \<open>An event as the log of the firmware errors has them\<close>
definition event_ok :: "'e win_api \<Rightarrow> 'e \<Rightarrow> bool" where
  "event_ok api event \<longleftrightarrow> EvtRenderSize api event = Inl ERROR_INSUFFICIENT_BUFFER
     \<and> (case EvtRenderValues api event of Inr [b, t, c] \<Rightarrow>
          (case FileTimeToSystemTime api (ucast (drop_bit 32 (var_filetime t))) (ucast (var_filetime t AND 0xFFFFFFFF))
           of Inr _ \<Rightarrow> True | Inl _ \<Rightarrow> False)
        | _ \<Rightarrow> False)"

lemma event_ok_values:
  assumes "event_ok api event"
  obtains b t c md where "EvtRenderValues api event = Inr [b, t, c]"
    and "metadata_from_evt_values api t c = Inr md"
proof -
  from assms obtain vs where vs: "EvtRenderValues api event = Inr vs"
    by (cases "EvtRenderValues api event") (auto simp: event_ok_def)
  with assms obtain b t c where "vs = [b, t, c]" by (auto simp: event_ok_def split: list.splits)
  with vs assms that show thesis
    by (auto simp: event_ok_def metadata_from_evt_values_def Let_def split: sum.splits)
qed

lemma query_loop_events:
  fixes G :: "'g uguid"
  assumes "\<forall>event \<in> set events. event_ok api event"
  shows "query_loop G api (map (\<lambda>event. Inr [event]) events) crashlogs
    = Some (Inr (crashlogs @ List.map_filter (event_crashlog G api) events))"
  using assms
proof (induction events arbitrary: crashlogs)
  case Nil
  then show ?case by (subst query_loop.simps) (simp add: evt_next_def List.map_filter_simps)
next
  case (Cons event events)
  then have ok: "event_ok api event" by simp
  obtain b t c md where v: "EvtRenderValues api event = Inr [b, t, c]"
    and md: "metadata_from_evt_values api t c = (Inr md :: u32 + 'g metadata)"
    using event_ok_values [OF ok] .
  have e: "event_crashlog G api event = (case crashlog_from_slice G (var_binary b) of
      Inr crashlog \<Rightarrow> Some (crashlog\<lparr>cl_metadata := md\<rparr>) | Inl _ \<Rightarrow> None)"
    by (simp add: event_crashlog_def v md split: sum.split)
  have r: "evt_render_values api event = Inr (Some [b, t, c])"
    using ok v by (simp add: evt_render_values_def event_ok_def)
  show ?case
    using Cons.IH Cons.prems
    by (subst query_loop.simps)
      (auto simp: evt_next_def r md e List.map_filter_simps split: sum.split)
qed

lemma map_filter_append: "List.map_filter f (xs @ ys) = List.map_filter f xs @ List.map_filter f ys"
  by (simp add: List.map_filter_def)

lemma set_source_discover:
  "s \<in> set (source_discover os fs) \<longleftrightarrow> (s = SourceAcpi \<and> os \<noteq> Windows) \<or> (s = SourceEventLog \<and> os = Windows)
     \<or> (\<exists>dev \<in> set (pmt_discover os fs). s = SourcePmtDevice dev)"
  by (cases os) (auto simp: source_discover_def acpi_is_available_def event_log_is_available_def)

lemma discover_source_ok': "s \<in> set (source_discover os fs) \<Longrightarrow> source_ok s"
  unfolding set_source_discover using discover_source_ok [of _ fs pmt_sysfs_default]
  by (auto simp: pmt_discover_def split: if_splits) (simp_all add: source_ok_def)

subsection \<open>Properties\<close>

text \<open>The sources that are discovered on a platform can be named on the command line: the text form
  of each of them parses back to it.\<close>
theorem discovered_source_parses:
  assumes "s \<in> set (source_discover os fs)"
  shows "source_from_str (source_show s) = Inr s"
  using discover_source_ok' [OF assms] by (rule source_roundtrip)

theorem discovered_source_parses_witness:
  "source_from_str (source_show (SourcePmtDevice (PmtName ''crashlog0''))) = Inr (SourcePmtDevice (PmtName ''crashlog0''))"
proof (rule discovered_source_parses [of _ Linux example_sysfs])
  have "discover_from_class example_sysfs pmt_sysfs_default = [PmtName ''crashlog0'', PmtName ''crashlog7'']"
    by code_simp
  then show "SourcePmtDevice (PmtName ''crashlog0'') \<in> set (source_discover Linux example_sysfs)"
    by (simp add: set_source_discover pmt_discover_def pmt_sysfs_discover_def)
qed

text \<open>C37. The ACPI source recovers the regions that the firmware reported, be it through the BERT file of
  the Linux sysfs or through the physical memory that the BERT table of the firmware points to under
  EFI. The reported boot error record must be one that this library can have written for some crash
  log with at least one region and less than \<open>2^32\<close> bytes, where the data of every record starts with
  its header and is as long as the header says and only the last record of a region may be truncated. The regions come in
  the order of the record, without parent headers, each followed by the regions nested in its box
  records; they are the reported ones when these have no boxes and no parents. The crash log is
  tagged with its source, and under EFI with the computer and the time.\<close>
theorem acpi_source_extracts:
  assumes G: "guid_codec G" "cl_regions c \<noteq> []" "\<forall>r \<in> set (cl_regions c). region_ok r"
      "crashlog_berr_size c < 2 ^ 32"
    and linux: "os = Linux \<Longrightarrow> fs_read fs (berr_path acpi_sysfs_default) = Inr (berr_to_bytes G (berr_from_crashlog G c))"
    and uefi: "os = Uefi \<Longrightarrow> find_bert efi = Inr bert
        \<and> raw_berr_from_phys_mem (efi_memory efi) bert = berr_to_bytes G (berr_from_crashlog G c)"
    and os: "os \<noteq> Windows"
  shows "source_extract G os fs efi api SourceAcpi = Some (Inr
      [\<lparr>cl_regions = regions_reread (cl_regions c), cl_metadata = (if os = Linux then metadata_default
          else metadata_default\<lparr>md_computer := Some ''efi'', md_time := efi_get_time efi\<rparr>)
        \<lparr>md_source := Some SourceAcpi\<rparr>\<rparr>])
    \<and> ((\<forall>region \<in> set (cl_regions c). region_flat region) \<longrightarrow> regions_reread (cl_regions c) = cl_regions c)"
proof (intro conjI impI regions_reread_flat)
  obtain b where b: "berr_from_slice G (berr_to_bytes G (berr_from_crashlog G c)) = Some b"
    and c: "from_berr G b = Inr \<lparr>cl_regions = regions_reread (cl_regions c), cl_metadata = metadata_default\<rparr>"
    using crashlog_berr_extract [OF G] by blast
  show "source_extract G os fs efi api SourceAcpi = Some (Inr
      [\<lparr>cl_regions = regions_reread (cl_regions c), cl_metadata = (if os = Linux then metadata_default
          else metadata_default\<lparr>md_computer := Some ''efi'', md_time := efi_get_time efi\<rparr>)
        \<lparr>md_source := Some SourceAcpi\<rparr>\<rparr>])"
  proof (cases os)
    case Linux
    with linux b c show ?thesis by (simp add: source_extract_def acpi_extract_def acpi_sysfs_extract_def)
  next
    case Uefi
    with uefi b c show ?thesis
      by (simp add: source_extract_def acpi_extract_def efi_extract_crashlog_def berr_from_phys_mem_def)
  qed (use os in simp)
qed

definition example_berr :: bytes where
  "example_berr = berr_to_bytes uguid_word (berr_from_crashlog uguid_word example_crashlog)"

definition example_acpi :: fs where
  "example_acpi = \<lparr>fs_root = Dir [(''sys'', Dir [(''firmware'', Dir [(''acpi'', Dir [(''tables'', Dir [(''data'',
      Dir [(''BERT'', File example_berr)])])])])])], fs_cwd = []\<rparr>"

text \<open>Firmware whose second configuration table leads to a BERT table, which points to the boot error
  record at the address \<open>0x1000\<close>\<close>
definition example_firmware :: "(128 word, bert) efi_env" where
  "example_firmware = \<lparr>efi_config_tables = [(1, 0x10), (7, 0x20)], efi_acpi2_guid = 7,
     efi_tables_from_rsdp = (\<lambda>address. if address = 0x20
       then Some (bert_dummy\<lparr>bert_region := 0x1000, bert_region_length := of_nat (length example_berr)\<rparr>) else None),
     efi_find_table_bert = Some, efi_memory = (\<lambda>a. example_berr ! unat (a - 0x1000)),
     efi_get_time = Some \<lparr>tm_year = 2026, tm_month = 1, tm_day = 2, tm_hour = 3, tm_minute = 4\<rparr>\<rparr>"

lemma raw_berr_from_phys_mem_at:
  assumes "length bytes < 2 ^ 32" and "bert_region_length bert = of_nat (length bytes)"
  shows "raw_berr_from_phys_mem (\<lambda>a. bytes ! unat (a - bert_region bert)) bert = bytes"
proof -
  have "unat (of_nat i :: u64) = i" if "i < length bytes" for i
    using that assms(1) by (simp add: unat_of_nat_u64)
  then show ?thesis
    using assms unfolding raw_berr_from_phys_mem_def
    by (intro nth_equalityI) (simp_all add: unat_of_nat_u32)
qed

lemma example_firmware_facts:
  "find_bert example_firmware = Inr (bert_dummy\<lparr>bert_region := 0x1000, bert_region_length := of_nat (length example_berr)\<rparr>)"
  "raw_berr_from_phys_mem (efi_memory example_firmware)
     (bert_dummy\<lparr>bert_region := 0x1000, bert_region_length := of_nat (length example_berr)\<rparr>) = example_berr"
proof -
  have "length example_berr = 244" by code_simp
  then show "raw_berr_from_phys_mem (efi_memory example_firmware)
     (bert_dummy\<lparr>bert_region := 0x1000, bert_region_length := of_nat (length example_berr)\<rparr>) = example_berr"
    using raw_berr_from_phys_mem_at [of example_berr
        "bert_dummy\<lparr>bert_region := 0x1000, bert_region_length := of_nat (length example_berr)\<rparr>"]
    by (simp add: example_firmware_def)
qed (simp add: find_bert_def find_acpi_tables_def example_firmware_def)

lemma example_acpi_read: "fs_read example_acpi (berr_path acpi_sysfs_default) = Inr example_berr"
proof -
  have p: "berr_path acpi_sysfs_default
      = Path True [[], [], ''sys'', ''firmware'', ''acpi'', ''tables'', ''data'', ''BERT'']" by code_simp
  have "walk (fs_root example_acpi) 40 [] [[], [], ''sys'', ''firmware'', ''acpi'', ''tables'', ''data'', ''BERT'']
      = Inr [''sys'', ''firmware'', ''acpi'', ''tables'', ''data'', ''BERT'']"
    by (simp add: example_acpi_def)
  then show ?thesis
    unfolding p by (simp add: fs_read_def fs_entry_def canonicalize_def max_symlinks_def)
      (simp add: example_acpi_def)
qed

text \<open>A Windows interface that always fails\<close>
definition example_api :: "unit win_api" where
  "example_api = \<lparr>EvtQuery = (\<lambda>_ _ _. Inl 1), EvtCreateRenderContext = Inl 1, EvtRenderSize = (\<lambda>_. Inl 1),
     EvtRenderValues = (\<lambda>_. Inl 1), FileTimeToSystemTime = (\<lambda>_ _. Inl 1)\<rparr>"

text \<open>The boot error record of the example, read through the sysfs of Linux and through the memory
  under EFI\<close>
theorem acpi_source_extracts_witness:
  "source_extract uguid_word Linux example_acpi example_firmware example_api SourceAcpi
    = Some (Inr [\<lparr>cl_regions = cl_regions example_crashlog,
        cl_metadata = metadata_default\<lparr>md_source := Some SourceAcpi\<rparr>\<rparr>])
   \<and> source_extract uguid_word Uefi example_sysfs example_firmware example_api SourceAcpi
    = Some (Inr [\<lparr>cl_regions = cl_regions example_crashlog,
        cl_metadata = metadata_default\<lparr>md_computer := Some ''efi'', md_source := Some SourceAcpi,
          md_time := Some \<lparr>tm_year = 2026, tm_month = 1, tm_day = 2, tm_hour = 3, tm_minute = 4\<rparr>\<rparr>\<rparr>])"
proof -
  have c: "cl_regions example_crashlog \<noteq> []" "\<forall>r \<in> set (cl_regions example_crashlog). region_ok r"
    by (simp_all add: example_crashlog_def example_region_ok)
  note run = acpi_source_extracts [OF guid_word.guid_codec_axioms c example_crashlog_berr(1)]
  have time: "efi_get_time example_firmware = Some \<lparr>tm_year = 2026, tm_month = 1, tm_day = 2, tm_hour = 3, tm_minute = 4\<rparr>"
    by (simp add: example_firmware_def)
  show ?thesis
  proof
    show "source_extract uguid_word Linux example_acpi example_firmware example_api SourceAcpi
      = Some (Inr [\<lparr>cl_regions = cl_regions example_crashlog,
          cl_metadata = metadata_default\<lparr>md_source := Some SourceAcpi\<rparr>\<rparr>])"
      using run [where os = Linux, OF example_acpi_read [unfolded example_berr_def]]
      by (simp add: example_crashlog_reread)
    show "source_extract uguid_word Uefi example_sysfs example_firmware example_api SourceAcpi
      = Some (Inr [\<lparr>cl_regions = cl_regions example_crashlog,
          cl_metadata = metadata_default\<lparr>md_computer := Some ''efi'', md_source := Some SourceAcpi,
            md_time := Some \<lparr>tm_year = 2026, tm_month = 1, tm_day = 2, tm_hour = 3, tm_minute = 4\<rparr>\<rparr>\<rparr>])"
      using run [where os = Uefi and efi = example_firmware and fs = example_sysfs,
          OF _ conjI [OF example_firmware_facts [unfolded example_berr_def]]]
      by (simp add: example_crashlog_reread time metadata_default_def)
  qed
qed

text \<open>C38. Under Windows every event of the two logs that decodes gives a crash log, in the order of the
  log and with the time and the computer of the event; the events that do not decode are left out,
  and the second log follows the first. The queries must succeed and give the events one by one until
  \<open>EvtNext\<close> reports that there are no more items, which is not an error; the context must be created;
  and every event must ask for a buffer and render into it as three values, of which the second is a
  time that Windows can convert.\<close>
theorem event_log_extracts:
  assumes "EvtQuery api ''Microsoft-Windows-Kernel-WHEA/Errors''
        ''*[System[Provider[@Name=\"Microsoft-Windows-Kernel-WHEA\"]]]'' EvtQueryChannelPath
      = Inr (map (\<lambda>event. Inr [event]) errors)"
    and "EvtQuery api ''System'' ''*[System[Provider[@Name=\"Microsoft-Windows-WHEA-Logger\"]]]'' EvtQueryChannelPath
      = Inr (map (\<lambda>event. Inr [event]) system)"
    and "EvtCreateRenderContext api = Inr ()" and "\<forall>event \<in> set errors \<union> set system. event_ok api event"
  shows "event_log_extract G Windows api None
    = Some (Inr (List.map_filter (event_crashlog G api) (errors @ system)))"
  using assms by (simp add: event_log_extract_def win_extract_crashlogs_def option_or_def query_crashlogs_def
      query_loop_events map_filter_append)

text \<open>A log with an event that holds a region, and one that does not decode\<close>
definition example_win :: "bool win_api" where
  "example_win = \<lparr>EvtQuery = (\<lambda>p query flags. if p = ''System'' then Inr [Inr [True]] else Inr [Inr [False], Inr [True]]),
     EvtCreateRenderContext = Inr (), EvtRenderSize = (\<lambda>_. Inl ERROR_INSUFFICIENT_BUFFER),
     EvtRenderValues = (\<lambda>e. Inr [\<lparr>var_binary = (if e then region_to_bytes example_region else [1, 2]),
         var_filetime = 0, var_string = None\<rparr>,
       \<lparr>var_binary = [], var_filetime = 0x1000000020, var_string = None\<rparr>,
       \<lparr>var_binary = [], var_filetime = 0, var_string = Some ''host''\<rparr>]),
     FileTimeToSystemTime = (\<lambda>high low. Inr \<lparr>wYear = 2026, wMonth = ucast high, wDay = ucast low, wHour = 1, wMinute = 2\<rparr>)\<rparr>"

theorem event_log_extracts_witness:
  "event_log_extract uguid_word Windows example_win None
    = Some (Inr (List.map_filter (event_crashlog uguid_word example_win) ([False, True] @ [True])))
   \<and> event_crashlog uguid_word example_win False = None
   \<and> event_crashlog uguid_word example_win True = Some \<lparr>cl_regions = [example_region], cl_metadata =
       \<lparr>md_computer = Some ''host'', md_source = None,
        md_time = Some \<lparr>tm_year = 2026, tm_month = 0x10, tm_day = 0x20, tm_hour = 1, tm_minute = 2\<rparr>,
        md_extra_cper_sections = []\<rparr>\<rparr>"
proof (intro conjI)
  show "event_log_extract uguid_word Windows example_win None
      = Some (Inr (List.map_filter (event_crashlog uguid_word example_win) ([False, True] @ [True])))"
    by (rule event_log_extracts) (simp_all add: example_win_def event_ok_def)
  show "event_crashlog uguid_word example_win False = None"
    "event_crashlog uguid_word example_win True = Some \<lparr>cl_regions = [example_region], cl_metadata =
       \<lparr>md_computer = Some ''host'', md_source = None,
        md_time = Some \<lparr>tm_year = 2026, tm_month = 0x10, tm_day = 0x20, tm_hour = 1, tm_minute = 2\<rparr>,
        md_extra_cper_sections = []\<rparr>\<rparr>"
    by code_simp+
qed

end
