(* ===== verification/Ffi.thy ===== *)
theory Ffi
  imports Decode Sources
begin

text \<open>
  The C interface: \<open>lib/src/ffi.rs\<close>. The objects behind the raw pointers are in a store; \<open>alloc\<close> puts a
  new one at a fresh address and \<open>free\<close> takes it away. A call ends with a result and the new store, or
  with a panic, or it is undefined behaviour: a pointer that is neither null nor the address of a live
  object of the type the function expects. The parameter \<open>context\<close> of a function that does not use it
  is left out. A buffer of the caller is the list of its bytes, as long as its size says.
\<close>

subsection \<open>The store\<close>

type_synonym addr = nat

text \<open>An iterator over the children of a node borrows them from a tree: it has the address of the tree,
  the path of the node and the names that are still to come.\<close>
datatype 'g obj =
    ContextObj collateral_manager
  | CrashLogObj "'g crashlog"
  | CrashLogsObj "'g crashlog list"
  | ExportObj bytes
  | NodeObj node
  | ChildrenObj addr "string list" "string list"

record 'g store =
  st_objs :: "addr \<rightharpoonup> 'g obj"
  st_next :: addr

datatype ('r, 'g) outcome = UB | Panic | Done 'r "'g store"

definition store_empty :: "'g store" where
  "store_empty = \<lparr>st_objs = Map.empty, st_next = 1\<rparr>"

text \<open>Addresses that have not been handed out are free, and none is null.\<close>
definition store_ok :: "'g store \<Rightarrow> bool" where
  "store_ok st \<longleftrightarrow> 0 < st_next st \<and> st_objs st 0 = None \<and> (\<forall>p \<ge> st_next st. st_objs st p = None)"

definition store_set :: "addr \<Rightarrow> 'g obj \<Rightarrow> 'g store \<Rightarrow> 'g store" where
  "store_set p obj st = st\<lparr>st_objs := (st_objs st)(p \<mapsto> obj)\<rparr>"

definition alloc :: "'g obj \<Rightarrow> 'g store \<Rightarrow> (addr, 'g) outcome" where
  "alloc obj st = Done (st_next st) (st\<lparr>st_objs := (st_objs st)(st_next st \<mapsto> obj), st_next := Suc (st_next st)\<rparr>)"

text \<open>\<open>free::<T>\<close>: \<open>is_t\<close> tells the objects of type \<open>T\<close>.\<close>
definition free :: "('g obj \<Rightarrow> bool) \<Rightarrow> addr \<Rightarrow> 'g store \<Rightarrow> (unit, 'g) outcome" where
  "free is_t p st =
     (if p = 0 then Done () st
      else case st_objs st p of
        Some obj \<Rightarrow> if is_t obj then Done () (st\<lparr>st_objs := (st_objs st)(p := None)\<rparr>) else UB
      | None \<Rightarrow> UB)"

definition is_context :: "'g obj \<Rightarrow> bool" where "is_context obj \<longleftrightarrow> (case obj of ContextObj _ \<Rightarrow> True | _ \<Rightarrow> False)"
definition is_crashlog :: "'g obj \<Rightarrow> bool" where "is_crashlog obj \<longleftrightarrow> (case obj of CrashLogObj _ \<Rightarrow> True | _ \<Rightarrow> False)"
definition is_crashlogs :: "'g obj \<Rightarrow> bool" where "is_crashlogs obj \<longleftrightarrow> (case obj of CrashLogsObj _ \<Rightarrow> True | _ \<Rightarrow> False)"
definition is_export :: "'g obj \<Rightarrow> bool" where "is_export obj \<longleftrightarrow> (case obj of ExportObj _ \<Rightarrow> True | _ \<Rightarrow> False)"
definition is_node :: "'g obj \<Rightarrow> bool" where "is_node obj \<longleftrightarrow> (case obj of NodeObj _ \<Rightarrow> True | _ \<Rightarrow> False)"
definition is_children :: "'g obj \<Rightarrow> bool" where "is_children obj \<longleftrightarrow> (case obj of ChildrenObj _ _ _ \<Rightarrow> True | _ \<Rightarrow> False)"

text \<open>A pointer to a node points into a tree: the address of the tree and a path from its root. The null
  pointer has the address 0.\<close>
type_synonym node_ptr = "addr \<times> string list"

definition null_node :: node_ptr where "null_node = (0, [])"

definition deref_node :: "'g store \<Rightarrow> node_ptr \<Rightarrow> node option" where
  "deref_node st p = (case st_objs st (fst p) of Some (NodeObj root) \<Rightarrow> node_get_path root (snd p) | _ \<Rightarrow> None)"

subsection \<open>Contexts and crash logs\<close>

definition crashlog_init :: "(bytes \<Rightarrow> raw_target_info option) \<Rightarrow> registry \<Rightarrow> 'g store \<Rightarrow> (addr, 'g) outcome" where
  "crashlog_init J registry st = (case collateral_manager_new J (embedded_tree registry) of
     Inr cm \<Rightarrow> alloc (ContextObj cm) st | Inl _ \<Rightarrow> Done 0 st)"

definition crashlog_deinit :: "addr \<Rightarrow> 'g store \<Rightarrow> (unit, 'g) outcome" where
  "crashlog_deinit p st = free is_context p st"

definition crashlog_read_from_buffer :: "'g uguid \<Rightarrow> bytes \<Rightarrow> 'g store \<Rightarrow> (addr, 'g) outcome" where
  "crashlog_read_from_buffer G data st = (case crashlog_from_slice G data of
     Inr c \<Rightarrow> alloc (CrashLogObj c) st | Inl _ \<Rightarrow> Done 0 st)"

text \<open>\<open>result.map(alloc).unwrap_or(ptr::null_mut())\<close>\<close>
definition alloc_or_null :: "('a \<Rightarrow> 'g obj) \<Rightarrow> error + 'a \<Rightarrow> 'g store \<Rightarrow> (addr, 'g) outcome" where
  "alloc_or_null obj res st = (case res of Inr x \<Rightarrow> alloc (obj x) st | Inl _ \<Rightarrow> Done 0 st)"

definition crashlog_read_from_acpi_sysfs :: "'g uguid \<Rightarrow> fs \<Rightarrow> 'g store \<Rightarrow> (addr, 'g) outcome" where
  "crashlog_read_from_acpi_sysfs G fs st = alloc_or_null CrashLogObj (from_acpi_sysfs G fs) st"

definition crashlog_read_from_pmt_sysfs :: "fs \<Rightarrow> 'g store \<Rightarrow> (addr, 'g) outcome" where
  "crashlog_read_from_pmt_sysfs fs st = alloc_or_null CrashLogObj (from_pmt_sysfs fs) st"

text \<open>A null pointer for the table leaves the current one.\<close>
definition crashlog_read_from_system_table :: "'g uguid \<Rightarrow> (addr \<Rightarrow> ('g, 't) efi_env) \<Rightarrow> addr \<Rightarrow> addr
    \<Rightarrow> 'g store \<Rightarrow> (addr, 'g) outcome \<times> addr" where
  "crashlog_read_from_system_table G efi_of system_table current st =
     (case from_system_table G efi_of (if system_table = 0 then None else Some system_table) current of
        (res, current) \<Rightarrow> (alloc_or_null CrashLogObj res st, current))"

definition crashlog_read_from_windows_event_logs :: "'g uguid \<Rightarrow> 'e win_api \<Rightarrow> 'g store \<Rightarrow> (addr, 'g) outcome" where
  "crashlog_read_from_windows_event_logs G api st = (case from_windows_event_logs G api None of
     None \<Rightarrow> Panic | Some res \<Rightarrow> alloc_or_null CrashLogsObj res st)"

definition crashlog_next :: "addr \<Rightarrow> 'g store \<Rightarrow> (addr, 'g) outcome" where
  "crashlog_next p st =
     (if p = 0 then Done 0 st
      else case st_objs st p of
        Some (CrashLogsObj (c # cs)) \<Rightarrow> alloc (CrashLogObj c) (store_set p (CrashLogsObj cs) st)
      | Some (CrashLogsObj []) \<Rightarrow>
          (case free is_crashlogs p st of Done _ st \<Rightarrow> Done 0 st | UB \<Rightarrow> UB | Panic \<Rightarrow> Panic)
      | _ \<Rightarrow> UB)"

definition crashlog_release :: "addr \<Rightarrow> 'g store \<Rightarrow> (unit, 'g) outcome" where
  "crashlog_release p st = free is_crashlog p st"

definition ffi_crashlog_decode :: "addr \<Rightarrow> addr \<Rightarrow> 'g store \<Rightarrow> (node_ptr, 'g) outcome" where
  "ffi_crashlog_decode ctx p st =
     (if p = 0 \<or> ctx = 0 then Done null_node st
      else case (st_objs st ctx, st_objs st p) of
        (Some (ContextObj cm), Some (CrashLogObj c)) \<Rightarrow>
          (case crashlog_decode c cm of
             None \<Rightarrow> Panic
           | Some (root, cm) \<Rightarrow>
               (case alloc (NodeObj root) (store_set ctx (ContextObj cm) st) of
                  Done a st \<Rightarrow> Done (a, []) st | UB \<Rightarrow> UB | Panic \<Rightarrow> Panic))
      | _ \<Rightarrow> UB)"

subsection \<open>Exports\<close>

definition crashlog_export_to_cper :: "'g uguid \<Rightarrow> addr \<Rightarrow> 'g store \<Rightarrow> (addr, 'g) outcome" where
  "crashlog_export_to_cper G p st =
     (if p = 0 then Done 0 st
      else case st_objs st p of
        Some (CrashLogObj c) \<Rightarrow> alloc (ExportObj (crashlog_to_bytes G c)) st
      | _ \<Rightarrow> UB)"

text \<open>\<open>to_string\<close> is \<open>serde_json::to_string\<close> on the value that \<open>serialize\<close> builds.\<close>
definition crashlog_export_to_json :: "(json \<Rightarrow> bytes option) \<Rightarrow> node_ptr \<Rightarrow> 'g store \<Rightarrow> (addr, 'g) outcome" where
  "crashlog_export_to_json to_string p st =
     (if fst p = 0 then Done 0 st
      else case deref_node st p of
        None \<Rightarrow> UB
      | Some n \<Rightarrow> (case to_string (node_serialize n) of Some json \<Rightarrow> alloc (ExportObj json) st | None \<Rightarrow> Done 0 st))"

text \<open>The loop over the buffer: the bytes written so far, those still in place and the data.\<close>
fun read_export_loop :: "nat \<Rightarrow> bytes \<Rightarrow> bytes \<Rightarrow> bytes \<Rightarrow> nat \<times> bytes \<times> bytes" where
  "read_export_loop i done [] data = (i, done, data)"
| "read_export_loop i done (dst # rest) data =
     (case data of
        byte # data \<Rightarrow> read_export_loop (Suc i) (done @ [byte]) rest data
      | [] \<Rightarrow> (i, done @ dst # rest, []))"

definition crashlog_read_export :: "addr \<Rightarrow> bytes \<Rightarrow> 'g store \<Rightarrow> (nat \<times> bytes, 'g) outcome" where
  "crashlog_read_export p buffer st =
     (if p = 0 then Done (0, buffer) st
      else case st_objs st p of
        Some (ExportObj data) \<Rightarrow>
          (case read_export_loop 0 [] buffer data of
             (n, buffer, data) \<Rightarrow> Done (n, buffer) (store_set p (ExportObj data) st))
      | _ \<Rightarrow> UB)"

definition crashlog_release_export :: "addr \<Rightarrow> 'g store \<Rightarrow> (unit, 'g) outcome" where
  "crashlog_release_export p st = free is_export p st"

subsection \<open>Nodes\<close>

text \<open>\<open>CString::new\<close> fails if there is a nul byte. \<open>buffer_size - 1\<close> underflows for an empty buffer and
  wraps in a release build; either way the writes to the buffer panic.\<close>
definition crashlog_get_node_name :: "node_ptr \<Rightarrow> bytes \<Rightarrow> 'g store \<Rightarrow> (nat \<times> bytes, 'g) outcome" where
  "crashlog_get_node_name p buffer st =
     (if fst p = 0 then Done (0, buffer) st
      else case deref_node st p of
        None \<Rightarrow> UB
      | Some n \<Rightarrow>
          (let src = map of_char (node_name n) in
           if 0 \<in> set src then Done (0, buffer) st
           else if buffer = [] then Panic
           else let size_end = min (length src) (length buffer - 1);
                    buffer = take size_end src @ drop size_end buffer
                in Done (length src + 1, buffer[size_end := 0]) st))"

text \<open>The pointer \<open>value\<close> is null or points to a qword.\<close>
definition crashlog_get_node_value :: "node_ptr \<Rightarrow> u64 option \<Rightarrow> 'g store \<Rightarrow> (bool \<times> u64 option, 'g) outcome" where
  "crashlog_get_node_value p dst st =
     (if fst p = 0 \<or> dst = None then Done (False, dst) st
      else case deref_node st p of
        None \<Rightarrow> UB
      | Some n \<Rightarrow> (case node_kind n of NodeField v \<Rightarrow> Done (True, Some v) st | _ \<Rightarrow> Done (False, dst) st))"

definition crashlog_get_node_children :: "node_ptr \<Rightarrow> 'g store \<Rightarrow> (addr, 'g) outcome" where
  "crashlog_get_node_children p st =
     (if fst p = 0 then Done 0 st
      else case deref_node st p of
        None \<Rightarrow> UB
      | Some n \<Rightarrow> alloc (ChildrenObj (fst p) (snd p) (map fst (node_children n))) st)"

definition crashlog_get_next_node_child :: "addr \<Rightarrow> 'g store \<Rightarrow> (node_ptr, 'g) outcome" where
  "crashlog_get_next_node_child p st =
     (if p = 0 then Done null_node st
      else case st_objs st p of
        Some (ChildrenObj root path names) \<Rightarrow>
          (if deref_node st (root, path) = None then UB
           else case names of
             name # names \<Rightarrow> Done (root, path @ [name]) (store_set p (ChildrenObj root path names) st)
           | [] \<Rightarrow> (case free is_children p st of Done _ st \<Rightarrow> Done null_node st | UB \<Rightarrow> UB | Panic \<Rightarrow> Panic))
      | _ \<Rightarrow> UB)"

definition crashlog_get_node_by_path :: "node_ptr \<Rightarrow> bytes \<Rightarrow> 'g store \<Rightarrow> (node_ptr, 'g) outcome" where
  "crashlog_get_node_by_path p path st =
     (if fst p = 0 then Done null_node st
      else case deref_node st p of
        None \<Rightarrow> UB
      | Some n \<Rightarrow>
          (let path = from_utf8_lossy (takeWhile (\<lambda>b. b \<noteq> 0) path) in
           Done (if node_get_by_path n path = None then null_node else (fst p, snd p @ split_on CHR ''.'' path)) st))"

definition crashlog_release_nodes :: "node_ptr \<Rightarrow> 'g store \<Rightarrow> (unit, 'g) outcome" where
  "crashlog_release_nodes p st = (if fst p \<noteq> 0 \<and> snd p \<noteq> [] then UB else free is_node (fst p) st)"

subsection \<open>The life of an object\<close>

lemmas kind_defs = is_context_def is_crashlog_def is_crashlogs_def is_export_def is_node_def is_children_def

lemma store_ok_empty: "store_ok store_empty"
  by (simp add: store_ok_def store_empty_def)

text \<open>A new object is at an address that was not in use, and no other object has changed.\<close>

lemma alloc_spec:
  assumes "store_ok st" and "alloc obj st = Done p st'"
  shows "store_ok st'" and "p \<noteq> 0" and "st_objs st p = None" and "st_objs st' = (st_objs st)(p \<mapsto> obj)"
  using assms by (auto simp: alloc_def store_ok_def)

lemma store_ok_set: "store_ok st \<Longrightarrow> st_objs st p \<noteq> None \<Longrightarrow> store_ok (store_set p obj st)"
  by (cases "p = 0") (auto simp: store_ok_def store_set_def)

lemma st_objs_set [simp]: "st_objs (store_set p obj st) = (st_objs st)(p \<mapsto> obj)"
  by (simp add: store_set_def)

lemma free_live:
  assumes "st_objs st p = Some obj" "is_t obj" "p \<noteq> 0"
  shows "free is_t p st = Done () (st\<lparr>st_objs := (st_objs st)(p := None)\<rparr>)"
  using assms by (simp add: free_def)

lemma store_ok_free: "store_ok st \<Longrightarrow> free is_t p st = Done () st' \<Longrightarrow> store_ok st'"
  by (auto simp: free_def store_ok_def split: if_splits option.splits)

text \<open>Freeing twice, or freeing an object as another type, is undefined.\<close>

lemma free_twice: "p \<noteq> 0 \<Longrightarrow> free is_t p st = Done () st' \<Longrightarrow> free is_u p st' = UB"
  by (auto simp: free_def split: if_splits option.splits)

subsection \<open>Reading an export\<close>

lemma read_export_loop_eq:
  "read_export_loop i done buffer data =
     (i + min (length buffer) (length data),
      done @ take (length buffer) data @ drop (length data) buffer, drop (length buffer) data)"
proof (induction i "done" buffer data rule: read_export_loop.induct)
  case (1 i d data)
  then show ?case by simp
next
  case (2 i d dst rest data)
  then show ?case by (cases data) simp_all
qed

lemma crashlog_read_export_eq:
  assumes "p \<noteq> 0" and "st_objs st p = Some (ExportObj data)"
  shows "crashlog_read_export p buffer st =
    Done (min (length buffer) (length data), take (length buffer) data @ drop (length data) buffer)
      (store_set p (ExportObj (drop (length buffer) data)) st)"
  using assms by (simp add: crashlog_read_export_def read_export_loop_eq)

text \<open>The client's loop: one call for each buffer, keeping the bytes that the call says it wrote.\<close>
fun read_chunks :: "addr \<Rightarrow> bytes list \<Rightarrow> 'g store \<Rightarrow> (bytes, 'g) outcome" where
  "read_chunks p [] st = Done [] st"
| "read_chunks p (buffer # buffers) st =
     (case crashlog_read_export p buffer st of
        Done (n, buffer) st \<Rightarrow>
          (case read_chunks p buffers st of
             Done rest st \<Rightarrow> Done (take n buffer @ rest) st | UB \<Rightarrow> UB | Panic \<Rightarrow> Panic)
      | UB \<Rightarrow> UB | Panic \<Rightarrow> Panic)"

lemma read_chunks_eq:
  assumes "p \<noteq> 0" and "st_objs st p = Some (ExportObj data)"
  shows "\<exists>st'. read_chunks p buffers st = Done (take (sum_list (map length buffers)) data) st'
     \<and> st_objs st' = (st_objs st)(p \<mapsto> ExportObj (drop (sum_list (map length buffers)) data))"
  using assms(2)
proof (induction buffers arbitrary: st data)
  case Nil
  then show ?case by (auto simp: fun_upd_idem)
next
  case (Cons buffer buffers)
  let ?st = "store_set p (ExportObj (drop (length buffer) data)) st"
  have "take (min (length buffer) (length data)) (take (length buffer) data @ drop (length data) buffer)
      = take (length buffer) data" by (simp add: min_def)
  with Cons.IH [of ?st "drop (length buffer) data"] crashlog_read_export_eq [OF assms(1) Cons.prems, of buffer]
  show ?case by (auto simp: take_add add.commute fun_eq_iff)
qed

subsection \<open>Iterators\<close>

text \<open>The client's loop over an iterator: it calls until it gets the null pointer, at most \<open>n\<close> times.\<close>
fun collect :: "(addr \<Rightarrow> 'g store \<Rightarrow> ('r, 'g) outcome) \<Rightarrow> ('r \<Rightarrow> bool) \<Rightarrow> nat \<Rightarrow> addr \<Rightarrow> 'g store \<Rightarrow> ('r list, 'g) outcome" where
  "collect step is_null 0 p st = Done [] st"
| "collect step is_null (Suc n) p st =
     (case step p st of
        Done r st \<Rightarrow>
          (if is_null r then Done [] st
           else case collect step is_null n p st of Done rs st \<Rightarrow> Done (r # rs) st | UB \<Rightarrow> UB | Panic \<Rightarrow> Panic)
      | UB \<Rightarrow> UB | Panic \<Rightarrow> Panic)"

text \<open>
  The contract of the iterators of the interface: as long as there are elements, a call returns a result
  that stands for the next one and stays valid during later calls; then a call frees the iterator
  and returns null.
\<close>
locale c_iterator =
  fixes step :: "addr \<Rightarrow> 'g store \<Rightarrow> ('r, 'g) outcome"
    and is_null :: "'r \<Rightarrow> bool"
    and left :: "addr \<Rightarrow> 'e list \<Rightarrow> 'g store \<Rightarrow> bool"
    and stands :: "addr \<Rightarrow> 'e \<Rightarrow> 'r \<Rightarrow> 'g store \<Rightarrow> bool"
  assumes step_Cons: "left p (e # es) st \<Longrightarrow>
      \<exists>r st'. step p st = Done r st' \<and> \<not> is_null r \<and> stands p e r st' \<and> left p es st'"
    and step_Nil: "left p [] st \<Longrightarrow> \<exists>r st'. step p st = Done r st' \<and> is_null r \<and> st_objs st' p = None"
    and stands_step: "left p es st \<Longrightarrow> stands p e r st \<Longrightarrow> step p st = Done r' st' \<Longrightarrow> stands p e r st'"
begin

lemma collect_all:
  assumes "left p es st"
  shows "\<exists>rs st'. collect step is_null (Suc (length es)) p st = Done rs st'
    \<and> list_all2 (\<lambda>e r. stands p e r st') es rs \<and> st_objs st' p = None
    \<and> (\<forall>e r. stands p e r st \<longrightarrow> stands p e r st')"
  using assms
proof (induction es arbitrary: st)
  case Nil
  from step_Nil [OF Nil.prems] obtain r st' where "step p st = Done r st'" "is_null r" "st_objs st' p = None" by blast
  with stands_step [OF Nil.prems] show ?case by auto
next
  case (Cons e es)
  from step_Cons [OF Cons.prems] obtain r st1 where
    r: "step p st = Done r st1" "\<not> is_null r" "stands p e r st1" "left p es st1" by blast
  from Cons.IH [OF r(4)] obtain rs st' where
    rs: "collect step is_null (Suc (length es)) p st1 = Done rs st'" "list_all2 (\<lambda>e r. stands p e r st') es rs"
      "st_objs st' p = None" "\<forall>e r. stands p e r st1 \<longrightarrow> stands p e r st'" by blast
  have "collect step is_null (Suc (length (e # es))) p st = Done (r # rs) st'"
    using r rs(1) by simp
  moreover have "stands p e r st'" using rs(4) r(3) by blast
  moreover have "\<forall>e r. stands p e r st \<longrightarrow> stands p e r st'"
    using stands_step [OF Cons.prems _ r(1)] rs(4) by blast
  ultimately show ?case using rs by (intro exI [of _ "r # rs"] exI [of _ st']) simp
qed

end

text \<open>The crash logs of an iterator: each is handed out at an address of its own.\<close>

definition crashlogs_left :: "addr \<Rightarrow> 'g crashlog list \<Rightarrow> 'g store \<Rightarrow> bool" where
  "crashlogs_left p cs st \<longleftrightarrow> store_ok st \<and> p \<noteq> 0 \<and> st_objs st p = Some (CrashLogsObj cs)"

definition crashlog_at :: "addr \<Rightarrow> 'g crashlog \<Rightarrow> addr \<Rightarrow> 'g store \<Rightarrow> bool" where
  "crashlog_at p c r st \<longleftrightarrow> r \<noteq> p \<and> st_objs st r = Some (CrashLogObj c)"

lemma crashlog_next_Cons:
  assumes "crashlogs_left p (c # cs) st"
  shows "\<exists>r st'. crashlog_next p st = Done r st' \<and> r \<noteq> 0 \<and> crashlog_at p c r st' \<and> crashlogs_left p cs st'"
proof -
  let ?st = "store_set p (CrashLogsObj cs) st"
  have ok: "store_ok ?st" using assms by (intro store_ok_set) (simp_all add: crashlogs_left_def)
  obtain r st' where a: "alloc (CrashLogObj c) ?st = Done r st'" by (simp add: alloc_def)
  from alloc_spec [OF ok a] assms have "r \<noteq> p" "crashlog_at p c r st'" "crashlogs_left p cs st'"
    by (auto simp: crashlog_at_def crashlogs_left_def)
  with alloc_spec(2) [OF ok a] a assms show ?thesis by (auto simp: crashlog_next_def crashlogs_left_def)
qed

lemma crashlog_next_Nil:
  assumes "crashlogs_left p [] st"
  shows "crashlog_next p st = Done 0 (st\<lparr>st_objs := (st_objs st)(p := None)\<rparr>)"
  using assms by (simp add: crashlog_next_def crashlogs_left_def free_live kind_defs)

lemma crashlog_at_next:
  assumes "crashlogs_left p cs st" "crashlog_at p c r st" "crashlog_next p st = Done r' st'"
  shows "crashlog_at p c r st'"
proof (cases cs)
  case Nil
  with assms crashlog_next_Nil [of p st] show ?thesis by (auto simp: crashlog_at_def)
next
  case (Cons d ds)
  let ?st = "store_set p (CrashLogsObj ds) st"
  have "store_ok ?st" using assms by (intro store_ok_set) (simp_all add: crashlogs_left_def)
  moreover have "alloc (CrashLogObj d) ?st = Done r' st'"
    using assms Cons by (simp add: crashlog_next_def crashlogs_left_def)
  ultimately have "st_objs ?st r' = None" "st_objs st' = (st_objs ?st)(r' \<mapsto> CrashLogObj d)"
    by (rule alloc_spec)+
  with assms(2) show ?thesis by (auto simp: crashlog_at_def)
qed

interpretation crashlogs_iterator: c_iterator crashlog_next "\<lambda>r. r = 0" crashlogs_left crashlog_at
proof
  show "\<exists>r st'. crashlog_next p st = Done r st' \<and> \<not> r = 0 \<and> crashlog_at p e r st' \<and> crashlogs_left p es st'"
    if "crashlogs_left p (e # es) st" for p e es and st :: "'g store"
    using crashlog_next_Cons [OF that] by simp
  show "\<exists>r st'. crashlog_next p st = Done r st' \<and> r = 0 \<and> st_objs st' p = None"
    if "crashlogs_left p [] st" for p and st :: "'g store"
    using crashlog_next_Nil [OF that] by simp
  show "crashlog_at p e r st'"
    if "crashlogs_left p es st" "crashlog_at p e r st" "crashlog_next p st = Done r' st'"
    for p es e r r' and st st' :: "'g store"
    using that by (rule crashlog_at_next)
qed

text \<open>The children of a node: each is a pointer into the tree, which must stay alive.\<close>

definition children_left :: "addr \<Rightarrow> (string \<times> node) list \<Rightarrow> 'g store \<Rightarrow> bool" where
  "children_left p cs st \<longleftrightarrow> p \<noteq> 0 \<and> (\<exists>root path n. st_objs st p = Some (ChildrenObj root path (map fst cs))
     \<and> root \<noteq> 0 \<and> root \<noteq> p \<and> deref_node st (root, path) = Some n \<and> (\<forall>(k, c) \<in> set cs. node_get n k = Some c))"

definition child_at :: "addr \<Rightarrow> string \<times> node \<Rightarrow> node_ptr \<Rightarrow> 'g store \<Rightarrow> bool" where
  "child_at p e r st \<longleftrightarrow> fst r \<noteq> p \<and> fst r \<noteq> 0 \<and> deref_node st r = Some (snd e)"

lemma deref_node_other: "st_objs st' (fst r) = st_objs st (fst r) \<Longrightarrow> deref_node st' r = deref_node st r"
  by (simp add: deref_node_def)

lemma deref_node_child:
  "deref_node st (root, path) = Some n \<Longrightarrow> deref_node st (root, path @ [k]) = node_get n k"
  by (auto simp: deref_node_def node_get_path_append split: option.splits obj.splits Option.bind_splits)

interpretation children_iterator: c_iterator crashlog_get_next_node_child "\<lambda>r. fst r = 0" children_left child_at
proof
  fix p r r' and st st' :: "'g store" and e :: "string \<times> node" and es
  {
    assume "children_left p (e # es) st"
    then obtain root path n where st: "p \<noteq> 0" "st_objs st p = Some (ChildrenObj root path (fst e # map fst es))"
      "root \<noteq> 0" "root \<noteq> p" "deref_node st (root, path) = Some n" "\<forall>(k, c) \<in> set (e # es). node_get n k = Some c"
      by (auto simp: children_left_def)
    let ?st = "store_set p (ChildrenObj root path (map fst es)) st"
    have keep: "deref_node ?st (root, q) = deref_node st (root, q)" for q
      using st(4) by (intro deref_node_other) simp_all
    have "child_at p e (root, path @ [fst e]) ?st"
      using st deref_node_child [OF st(5)] by (auto simp: child_at_def keep)
    moreover have "children_left p es ?st" using st by (auto simp: children_left_def keep)
    ultimately show "\<exists>r st'. crashlog_get_next_node_child p st = Done r st' \<and> fst r \<noteq> 0 \<and> child_at p e r st'
        \<and> children_left p es st'"
      using st by (simp add: crashlog_get_next_node_child_def)
  next
    assume "children_left p [] st"
    then show "\<exists>r st'. crashlog_get_next_node_child p st = Done r st' \<and> fst r = 0 \<and> st_objs st' p = None"
      by (auto simp: children_left_def crashlog_get_next_node_child_def free_live kind_defs null_node_def)
  next
    assume left: "children_left p es st" and at: "child_at p e r st"
      and next_child: "crashlog_get_next_node_child p st = Done r' st'"
    from left next_child at have "st_objs st' (fst r) = st_objs st (fst r)"
      by (auto simp: children_left_def child_at_def crashlog_get_next_node_child_def free_live kind_defs
          split: list.splits)
    with at deref_node_other [of st' r st] show "child_at p e r st'" by (simp add: child_at_def)
  }
qed

subsection \<open>Properties\<close>

text \<open>C31. However a client sizes its buffers, the chunks that \<open>crashlog_read_export\<close> returns are the
  bytes of the export in order, without a loss or a repetition, and after the last byte every call
  returns zero.\<close>
theorem crashlog_read_export_chunks:
  assumes "p \<noteq> 0" and "st_objs st p = Some (ExportObj data)"
  shows "\<exists>st'. read_chunks p buffers st = Done (take (sum_list (map length buffers)) data) st'
    \<and> (sum_list (map length buffers) < length data
       \<or> (\<forall>buffer. \<exists>st''. crashlog_read_export p buffer st' = Done (0, buffer) st''))"
proof -
  from read_chunks_eq [OF assms, of buffers] obtain st' where
    st': "read_chunks p buffers st = Done (take (sum_list (map length buffers)) data) st'"
    "st_objs st' p = Some (ExportObj (drop (sum_list (map length buffers)) data))" by auto
  from crashlog_read_export_eq [OF assms(1) st'(2)] st'(1) show ?thesis by fastforce
qed

definition example_store :: "128 word store" where
  "example_store = \<lparr>st_objs = [1 \<mapsto> ExportObj [1, 2, 3, 4, 5], 2 \<mapsto> CrashLogsObj [example_crashlog, example_crashlog],
     3 \<mapsto> NodeObj (node_add node_root (node_field ''ab'' 7))], st_next = 4\<rparr>"

lemma example_store_ok: "store_ok example_store"
  by (simp add: store_ok_def example_store_def)

theorem crashlog_read_export_chunks_witness:
  "\<exists>st'. read_chunks 1 [[0, 0], [0, 0], [0, 0]] example_store = Done [1, 2, 3, 4, 5] st'"
  using crashlog_read_export_chunks [of 1 example_store "[1, 2, 3, 4, 5]" "[[0, 0], [0, 0], [0, 0]]"]
  by (auto simp: example_store_def)

text \<open>Iterating over the crash logs that were read gives each of them once, in order, as an object of
  its own; then the iterator returns null and is freed.\<close>
theorem crashlog_next_all:
  assumes "store_ok st" and "p \<noteq> 0" and "st_objs st p = Some (CrashLogsObj cs)"
  shows "\<exists>rs st'. collect crashlog_next (\<lambda>r. r = 0) (Suc (length cs)) p st = Done rs st'
    \<and> map (st_objs st') rs = map (\<lambda>c. Some (CrashLogObj c)) cs \<and> st_objs st' p = None"
proof -
  from assms have "crashlogs_left p cs st" by (simp add: crashlogs_left_def)
  from crashlogs_iterator.collect_all [OF this] obtain rs st' where
    "collect crashlog_next (\<lambda>r. r = 0) (Suc (length cs)) p st = Done rs st'" "st_objs st' p = None"
    "list_all2 (\<lambda>c r. crashlog_at p c r st') cs rs" by blast
  moreover from this(3) have "map (st_objs st') rs = map (\<lambda>c. Some (CrashLogObj c)) cs"
    by (induction rule: list_all2_induct) (simp_all add: crashlog_at_def)
  ultimately show ?thesis by blast
qed

theorem crashlog_next_all_witness:
  "\<exists>rs st'. collect crashlog_next (\<lambda>r. r = 0) 3 2 example_store = Done rs st'
    \<and> map (st_objs st') rs = [Some (CrashLogObj example_crashlog), Some (CrashLogObj example_crashlog)]
    \<and> st_objs st' 2 = None"
  using crashlog_next_all [OF example_store_ok, of 2 "[example_crashlog, example_crashlog]"]
  by (simp add: example_store_def numeral_3_eq_3)

text \<open>C32. Iterating over the children of a node gives a pointer to each of them once, in the order of their
  names, valid as long as the tree is; then the iterator returns null and is freed.\<close>
theorem crashlog_node_children_all:
  assumes "store_ok st" and "fst p \<noteq> 0" and "deref_node st p = Some n" and "node_wf n"
  shows "\<exists>it st1 rs st2. crashlog_get_node_children p st = Done it st1
    \<and> collect crashlog_get_next_node_child (\<lambda>r. fst r = 0) (Suc (length (children n))) it st1 = Done rs st2
    \<and> map (deref_node st2) rs = map Some (children n) \<and> st_objs st2 it = None"
proof -
  obtain it st1 where it: "alloc (ChildrenObj (fst p) (snd p) (map fst (node_children n))) st = Done it st1"
    by (simp add: alloc_def)
  note new = alloc_spec [OF assms(1) it]
  have tree: "fst p \<noteq> it" using new(3) assms(3) by (auto simp: deref_node_def)
  have keep: "deref_node st1 (fst p, q) = deref_node st (fst p, q)" for q
    using new(4) tree by (intro deref_node_other) simp
  have "node_get n k = Some c" if "(k, c) \<in> set (node_children n)" for k c
    using that assms(4) by (simp add: node_wf_iff [of n] node_get_def btree.in_entries_iff)
  then have "children_left it (node_children n) st1"
    using new assms(2,3) tree keep [of "snd p"] by (auto simp: children_left_def)
  from children_iterator.collect_all [OF this] obtain rs st2 where
    rs: "collect crashlog_get_next_node_child (\<lambda>r. fst r = 0) (Suc (length (node_children n))) it st1 = Done rs st2"
      "st_objs st2 it = None" "list_all2 (\<lambda>e r. child_at it e r st2) (node_children n) rs" by blast
  from rs(3) have "map (deref_node st2) rs = map Some (map snd (node_children n))"
    by (induction rule: list_all2_induct) (simp_all add: child_at_def)
  with rs it assms(2,3) show ?thesis
    by (simp add: children_def crashlog_get_node_children_def)
qed

theorem crashlog_node_children_all_witness:
  "\<exists>it st1 rs st2. crashlog_get_node_children (3, []) example_store = Done it st1
    \<and> collect crashlog_get_next_node_child (\<lambda>r. fst r = 0) 2 it st1 = Done rs st2
    \<and> map (deref_node st2) rs = [Some (node_field ''ab'' 7)] \<and> st_objs st2 it = None"
proof -
  let ?n = "node_add node_root (node_field ''ab'' 7)"
  have "deref_node example_store (3, []) = Some ?n" by (simp add: deref_node_def example_store_def)
  moreover have "node_wf ?n" by (simp add: node_wf_add)
  moreover have "children ?n = [node_field ''ab'' 7]" by (simp add: children_def node_add_def node_root_def)
  ultimately show ?thesis
    using crashlog_node_children_all [OF example_store_ok, of "(3, [])" ?n] by (simp add: numeral_2_eq_2)
qed

lemma write_nul:
  "m < length b \<Longrightarrow> m \<le> length s \<Longrightarrow> (take m s @ drop m b)[m := x] = take m s @ x # drop (Suc m) b"
  by (simp add: list_update_append min_absorb2 Cons_nth_drop_Suc [symmetric])

text \<open>C33. The name of a node is written to the buffer cut to its size, always with a nul at the end, the
  rest of the buffer is left alone, and the result is the size that the whole name needs. An empty
  buffer, for which the size minus one underflows, makes the call panic.\<close>
theorem crashlog_get_node_name_writes:
  assumes "fst p \<noteq> 0" and "deref_node st p = Some n" and "CHR 0x00 \<notin> set (node_name n)"
  shows "case crashlog_get_node_name p buffer st of
      Done (k, buffer') st' \<Rightarrow> st' = st \<and> k = length (node_name n) + 1 \<and> length buffer' = length buffer
        \<and> (let m = min (length (node_name n)) (length buffer - 1) in
            take (m + 1) buffer' = map of_char (take m (node_name n)) @ [0] \<and> drop (m + 1) buffer' = drop (m + 1) buffer)
    | Panic \<Rightarrow> buffer = []
    | UB \<Rightarrow> False"
proof -
  let ?src = "map of_char (node_name n) :: bytes" and ?m = "min (length (node_name n)) (length buffer - 1)"
  have "of_char c \<noteq> (0 :: u8)" if "c \<in> set (node_name n)" for c
    using that assms(3) by (auto simp: of_char_eq_0)
  then have nul: "0 \<notin> set ?src" by force
  show ?thesis
  proof (cases "buffer = []")
    case True
    with assms nul show ?thesis by (simp add: crashlog_get_node_name_def Let_def)
  next
    case False
    let ?b = "take ?m ?src @ drop ?m buffer"
    have m: "?m < length buffer" "?m \<le> length ?src" using False by (cases buffer; simp)+
    have "crashlog_get_node_name p buffer st = Done (length ?src + 1, ?b[?m := 0]) st"
      using assms(1,2) nul False by (simp add: crashlog_get_node_name_def Let_def)
    moreover have "?b[?m := 0] = take ?m ?src @ 0 # drop (?m + 1) buffer"
      using write_nul [OF m, of 0] by simp
    ultimately show ?thesis using m by (simp add: Let_def take_map)
  qed
qed

theorem crashlog_get_node_name_writes_witness:
  "\<exists>buffer'. crashlog_get_node_name (3, [''ab'']) [9, 9] example_store = Done (3, buffer') example_store
    \<and> take 2 buffer' = [0x61, 0]"
proof -
  have low: "to_lowercase ''ab'' = ''ab''" by (simp add: to_lowercase_def)
  have n: "deref_node example_store (3, [''ab'']) = Some (node_field ''ab'' 7)"
    by (simp add: deref_node_def example_store_def node_field_def to_lowercase_def)
  moreover have name: "node_name (node_field ''ab'' 7) = ''ab''" by (simp add: node_field_def to_lowercase_def)
  ultimately have "CHR 0x00 \<notin> set (node_name (node_field ''ab'' 7))" by simp
  from crashlog_get_node_name_writes [of "(3, [''ab''])", OF _ n this, of "[9, 9]"] show ?thesis
    by (auto simp: low Let_def split: outcome.splits)
qed

text \<open>C10. A whole session leaves nothing behind: the crash log that was read and the tree it was decoded to
  are objects of their own, both can be released, and then every object of the store is as it was before,
  up to the cache of the context; releasing the crash log a second time is undefined.\<close>
theorem crashlog_session:
  assumes "store_ok st" and "ctx \<noteq> 0" and "st_objs st ctx = Some (ContextObj cm)"
    and "crashlog_from_slice G data = Inr c" and "crashlog_decode c cm = Some (root, cm')"
  shows "\<exists>p st1 q st2 st3 st4. crashlog_read_from_buffer G data st = Done p st1
    \<and> ffi_crashlog_decode ctx p st1 = Done q st2 \<and> deref_node st2 q = Some root
    \<and> crashlog_release_nodes q st2 = Done () st3 \<and> crashlog_release p st3 = Done () st4
    \<and> st_objs st4 = (st_objs st)(ctx \<mapsto> ContextObj cm') \<and> crashlog_release p st4 = UB"
proof -
  obtain p st1 where a: "alloc (CrashLogObj c) st = Done p st1" by (simp add: alloc_def)
  note p = alloc_spec [OF assms(1) a]
  have pc: "p \<noteq> ctx" using p(3) assms(3) by auto
  let ?st1 = "store_set ctx (ContextObj cm') st1"
  have ok: "store_ok ?st1" using p assms(3) pc by (intro store_ok_set) simp_all
  obtain q st2 where b: "alloc (NodeObj root) ?st1 = Done q st2" by (simp add: alloc_def)
  note q = alloc_spec [OF ok b]
  have qp: "q \<noteq> p" "q \<noteq> ctx" using q(3) p(4) pc by auto
  let ?st3 = "st2\<lparr>st_objs := (st_objs st2)(q := None)\<rparr>"
  let ?st4 = "?st3\<lparr>st_objs := (st_objs ?st3)(p := None)\<rparr>"
  have read: "crashlog_read_from_buffer G data st = Done p st1"
    using a assms(4) by (simp add: crashlog_read_from_buffer_def)
  moreover have "ffi_crashlog_decode ctx p st1 = Done (q, []) st2"
    using assms(2,3,5) p pc b by (simp add: ffi_crashlog_decode_def)
  moreover have "deref_node st2 (q, []) = Some root" using q by (simp add: deref_node_def)
  moreover have "crashlog_release_nodes (q, []) st2 = Done () ?st3"
    using q by (simp add: crashlog_release_nodes_def free_live kind_defs)
  moreover have rel: "crashlog_release p ?st3 = Done () ?st4"
    unfolding crashlog_release_def using p q qp pc by (intro free_live [of _ _ "CrashLogObj c"]) (simp_all add: kind_defs)
  moreover have "st_objs ?st4 = (st_objs st)(ctx \<mapsto> ContextObj cm')"
    using p q qp pc by (auto simp: fun_eq_iff)
  moreover have "crashlog_release p ?st4 = UB"
    using p(2) rel unfolding crashlog_release_def by (rule free_twice)
  ultimately show ?thesis by blast
qed

definition session_store :: "128 word store" where
  "session_store = \<lparr>st_objs = [1 \<mapsto> ContextObj bare_cm], st_next = 2\<rparr>"

theorem crashlog_session_witness:
  "\<exists>p st1 q st2 root. crashlog_read_from_buffer uguid_word
      (crashlog_to_bytes uguid_word example_crashlog) session_store = Done p st1
    \<and> ffi_crashlog_decode 1 p st1 = Done q st2 \<and> deref_node st2 q = Some root"
proof -
  obtain c where c: "crashlog_from_slice uguid_word (crashlog_to_bytes uguid_word example_crashlog) = Inr c"
    using crashlog_cper_roundtrip [OF guid_word.guid_codec_axioms example_crashlog_ok(1)] by blast
  obtain root where "crashlog_decode_without_cm c = Some root" using crashlog_decode_without_cm_total by blast
  then have d: "crashlog_decode c bare_cm = Some (root, bare_cm)"
    using crashlog_decode_bare [of c] by simp
  have "store_ok session_store" by (simp add: store_ok_def session_store_def)
  from crashlog_session [OF this _ _ c d, of 1] show ?thesis by (auto simp: session_store_def)
qed

end
