(* ===== verification/CollateralFs.thy ===== *)
theory CollateralFs
  imports FileSystem Collateral
begin

text \<open>
  Collateral trees on a file system: the implementation of \<open>CollateralTree\<close> that reads them at run
  time (\<open>lib/src/collateral/fs.rs\<close>), and the build script that turns one into the sequence of
  \<open>insert_item\<close> calls of the embedded tree (\<open>lib/build.rs\<close>). A panic of the build script is
  \<open>None\<close>, and so is an \<open>include_bytes!\<close> that cannot be compiled.
\<close>

subsection \<open>The tree at run time\<close>

record file_system_tree =
  fst_root :: path

text \<open>\<open>PathBuf::from(pvss)\<close> and \<open>PathBuf::from(item)\<close>\<close>
definition pvss_to_path :: "pvss \<Rightarrow> path" where
  "pvss_to_path pvss = path_collect (pvss_path pvss)"

definition item_to_path :: "item_path \<Rightarrow> path" where
  "item_to_path item = path_collect (item_elements item)"

definition fst_base :: "file_system_tree \<Rightarrow> pvss \<Rightarrow> path" where
  "fst_base self pvss = path_push (path_extend (fst_root self) (pvss_to_path pvss)) ''crashlog''"

definition fst_build_path :: "fs \<Rightarrow> file_system_tree \<Rightarrow> pvss \<Rightarrow> item_path \<Rightarrow> string list option" where
  "fst_build_path fs self pvss item =
     (case canonicalize fs (fst_base self pvss) of
        Inl _ \<Rightarrow> None
      | Inr base \<Rightarrow>
          (case canonicalize fs (path_extend (Path True base) (item_to_path item)) of
             Inl _ \<Rightarrow> None
           | Inr p \<Rightarrow> if starts_with p base then Some p else None))"

definition fst_get :: "fs \<Rightarrow> file_system_tree \<Rightarrow> pvss \<Rightarrow> item_path \<Rightarrow> error + bytes" where
  "fst_get fs self pvss item =
     (case fst_build_path fs self pvss item of
        None \<Rightarrow> Inl (MissingCollateral pvss item)
      | Some p \<Rightarrow> io_result (fs_read fs (Path True p)))"

text \<open>\<open>for entry in std::fs::read_dir(path)? { let entry = entry?; body }\<close>, where the body extends
  the hits\<close>
fun for_each_entry :: "(io_error + string) list \<Rightarrow> (string \<Rightarrow> 'b list \<Rightarrow> error + 'b list) \<Rightarrow> 'b list
    \<Rightarrow> error + 'b list" where
  "for_each_entry [] body hits = Inr hits"
| "for_each_entry (entry # entries) body hits =
     rbind (io_result entry) (\<lambda>name. rbind (body name hits) (\<lambda>hits. for_each_entry entries body hits))"

definition for_each_in_dir :: "fs \<Rightarrow> path \<Rightarrow> (string \<Rightarrow> 'b list \<Rightarrow> error + 'b list) \<Rightarrow> 'b list
    \<Rightarrow> error + 'b list" where
  "for_each_in_dir fs p body hits =
     rbind (io_result (fs_read_dir fs p)) (\<lambda>entries. for_each_entry entries body hits)"

text \<open>\<open>name.into_string()?\<close>\<close>
definition into_string :: "string \<Rightarrow> error + string" where
  "into_string name = ok_or (OsStringError name) (os_to_str name)"

definition fst_search :: "fs \<Rightarrow> file_system_tree \<Rightarrow> item_path \<Rightarrow> error + pvss list" where
  "fst_search fs self item =
     for_each_in_dir fs (fst_root self) (\<lambda>product.
       for_each_in_dir fs (entry_path (fst_root self) product) (\<lambda>variant.
         for_each_in_dir fs (entry_path (entry_path (fst_root self) product) variant) (\<lambda>stepping.
           for_each_in_dir fs (entry_path (entry_path (entry_path (fst_root self) product) variant) stepping)
             (\<lambda>security hits.
               let dir = entry_path (entry_path (entry_path (entry_path (fst_root self) product) variant) stepping) security;
                   p = path_push_path (path_push dir ''crashlog'') (item_to_path item) in
               if fs_exists fs p then
                 rbind (into_string product) (\<lambda>product. rbind (into_string variant) (\<lambda>variant.
                 rbind (into_string stepping) (\<lambda>stepping. rbind (into_string security) (\<lambda>security.
                   Inr (hits @ [\<lparr>pvss_product = product, pvss_variant = variant, pvss_stepping = stepping,
                     pvss_security = security\<rparr>])))))
               else Inr hits)))) []"

definition fs_tree :: "fs \<Rightarrow> file_system_tree \<Rightarrow> collateral_tree" where
  "fs_tree fs self = \<lparr>tree_get = fst_get fs self, tree_search = fst_search fs self\<rparr>"

definition cm_file_system_tree :: "(bytes \<Rightarrow> raw_target_info option) \<Rightarrow> fs \<Rightarrow> path
    \<Rightarrow> error + collateral_manager" where
  "cm_file_system_tree J fs root = collateral_manager_new J (fs_tree fs \<lparr>fst_root = root\<rparr>)"

subsection \<open>The build script\<close>

text \<open>\<open>visit_dirs\<close>; the fuel bounds the depth of the recursion, which a cycle of links can make
  unbounded.\<close>
fun visit_dirs :: "nat \<Rightarrow> fs \<Rightarrow> path \<Rightarrow> path list option" where
  "visit_dirs 0 fs p = None"
| "visit_dirs (Suc fuel) fs p =
     (if \<not> fs_is_dir fs p then Some [p]
      else case fs_read_dir fs p of
          Inl _ \<Rightarrow> None
        | Inr entries \<Rightarrow>
            map_option concat (those (map (\<lambda>entry. case entry of
              Inl _ \<Rightarrow> None | Inr name \<Rightarrow> visit_dirs fuel fs (entry_path p name)) entries)))"

type_synonym tree_item = "string \<times> string \<times> string \<times> string \<times> path"

text \<open>One level of the loops of \<open>visit_collateral_tree\<close>\<close>
definition visit_level :: "fs \<Rightarrow> path \<Rightarrow> (string \<Rightarrow> 'b list option) \<Rightarrow> 'b list option" where
  "visit_level fs p body =
     (case fs_read_dir fs p of
        Inl _ \<Rightarrow> None
      | Inr entries \<Rightarrow> map_option concat (those (map (\<lambda>entry. case entry of
            Inl _ \<Rightarrow> None | Inr name \<Rightarrow> body name) entries)))"

definition visit_collateral_tree :: "nat \<Rightarrow> fs \<Rightarrow> path \<Rightarrow> tree_item list option" where
  "visit_collateral_tree fuel fs root =
     visit_level fs root (\<lambda>product.
       visit_level fs (entry_path root product) (\<lambda>variant.
         visit_level fs (entry_path (entry_path root product) variant) (\<lambda>stepping.
           visit_level fs (entry_path (entry_path (entry_path root product) variant) stepping) (\<lambda>security. do {
             paths \<leftarrow> visit_dirs fuel fs (path_push
               (entry_path (entry_path (entry_path (entry_path root product) variant) stepping) security) ''crashlog'');
             those (map (\<lambda>p. do {
               product \<leftarrow> os_to_str product; variant \<leftarrow> os_to_str variant;
               stepping \<leftarrow> os_to_str stepping; security \<leftarrow> os_to_str security;
               Some (product, variant, stepping, security, p) }) paths) }))))"

text \<open>\<open>s.trim()\<close>, of ASCII whitespace\<close>
definition is_whitespace :: "char \<Rightarrow> bool" where
  "is_whitespace c \<longleftrightarrow> c \<in> {CHR '' '', CHR 0x09, CHR 0x0A, CHR 0x0B, CHR 0x0C, CHR 0x0D}"

definition trim_string :: "string \<Rightarrow> string" where
  "trim_string s = rev (dropWhile is_whitespace (rev (dropWhile is_whitespace s)))"

definition requested_products :: "string option \<Rightarrow> string set" where
  "requested_products products_var =
     (let var = (case products_var of None \<Rightarrow> [] | Some var \<Rightarrow> var)
      in set (map trim_string (filter (\<lambda>s. s \<noteq> []) (split_on CHR '','' var))))"

text \<open>\<open>std::path::absolute(path)\<close>; the empty path is an error.\<close>
definition path_absolute :: "fs \<Rightarrow> path \<Rightarrow> path option" where
  "path_absolute fs p =
     (if path_abs p then Some p else if set (path_names p) \<subseteq> {[]} then None
      else Some (Path True (fs_cwd fs @ path_names p)))"

type_synonym insert_call = "string \<times> string \<times> string \<times> string \<times> string \<times> bytes"

text \<open>The body of the loop of \<open>embed_collateral_tree\<close>: the arguments of the call that is generated, with
  the contents that \<open>include_bytes!\<close> stands for\<close>
definition embed_item :: "fs \<Rightarrow> path \<Rightarrow> tree_item \<Rightarrow> insert_call option" where
  "embed_item fs tree_path item =
     (case item of (product, variant, stepping, security, fullpath) \<Rightarrow>
       (let prefix = path_components (path_push (path_push (path_push (path_push (path_push tree_path
              product) variant) stepping) security) ''crashlog'') in
        if \<not> starts_with (path_components fullpath) prefix then None
        else (let path = item_show_elements (List.map_filter os_to_str
                (drop (length prefix) (path_components fullpath))) in
          case fs_read fs fullpath of
            Inl _ \<Rightarrow> None
          | Inr content \<Rightarrow> Some (product, variant, stepping, security, path, content))))"

definition selected :: "string set \<Rightarrow> tree_item \<Rightarrow> bool" where
  "selected requested item \<longleftrightarrow> requested = {} \<or> fst item \<in> requested"

definition included_products :: "string set \<Rightarrow> tree_item list \<Rightarrow> string set" where
  "included_products requested items = set (filter (\<lambda>product. product \<noteq> ''all'') (map fst (filter (selected requested) items)))"

definition embed_collateral_tree :: "nat \<Rightarrow> fs \<Rightarrow> string option \<Rightarrow> string option \<Rightarrow> insert_call list option" where
  "embed_collateral_tree fuel fs collateral_var products_var = do {
     tree_path \<leftarrow> path_absolute fs (path_of_str (case collateral_var of None \<Rightarrow> ''collateral'' | Some v \<Rightarrow> v));
     items \<leftarrow> visit_collateral_tree fuel fs tree_path;
     those (map (embed_item fs tree_path) (filter (selected (requested_products products_var)) items)) }"

definition COLLATERAL_PATH_VAR :: string where "COLLATERAL_PATH_VAR = ''CRASHLOG_COLLATERAL_TREE''"
definition PRODUCTS_VAR :: string where "PRODUCTS_VAR = ''CRASHLOG_PRODUCTS''"

text \<open>The collateral tree that \<open>main\<close> embeds, in an environment\<close>
definition build_collateral :: "nat \<Rightarrow> fs \<Rightarrow> (string \<rightharpoonup> string) \<Rightarrow> insert_call list option" where
  "build_collateral fuel fs env = embed_collateral_tree fuel fs (env COLLATERAL_PATH_VAR) (env PRODUCTS_VAR)"

text \<open>\<open>set_soname\<close>: the line for the linker; without the version it panics.\<close>
definition set_soname :: "(string \<rightharpoonup> string) \<Rightarrow> string option" where
  "set_soname env = map_option (\<lambda>major.
     ''cargo:rustc-cdylib-link-arg=-Wl,-soname,libintel_crashlog.so.'' @ major) (env ''CARGO_PKG_VERSION_MAJOR'')"

text \<open>The warnings of the build, in order\<close>
definition embed_warnings :: "string set \<Rightarrow> tree_item list \<Rightarrow> string list" where
  "embed_warnings requested items =
     (let included = included_products requested items in
      map (\<lambda>product. ''Requested unknown Crash Log product: '' @ product)
        (filter (\<lambda>product. product \<notin> included) (sorted_list_of_set requested))
      @ (if included = {} then []
         else [''Embedding Crash Log support for the following product(s): ''
               @ concat (tl (concat (map (\<lambda>product. ['', '', product]) (sorted_list_of_set included))))]))"

subsection \<open>Items\<close>

lemma split_item_show:
  "xs \<noteq> [] \<Longrightarrow> \<forall>x \<in> set xs. CHR ''/'' \<notin> set x \<Longrightarrow> split_on CHR ''/'' (item_show_elements xs) = xs"
proof (induction xs rule: item_show_elements.induct)
  case (3 p q ps)
  then have "split_on CHR ''/'' (p @ CHR ''/'' # item_show_elements (q # ps))
      = p # split_on CHR ''/'' (item_show_elements (q # ps))"
    by (intro split_where_sep) auto
  with 3 show ?case by simp
qed (auto intro!: split_where_none)

lemma item_from_show:
  "xs \<noteq> [] \<Longrightarrow> \<forall>x \<in> set xs. CHR ''/'' \<notin> set x \<Longrightarrow> item_from_str (item_show_elements xs) = ItemPath xs"
  by (simp add: item_from_str_def split_item_show)

subsection \<open>Trees without links\<close>

text \<open>A tree of readable files and directories, whose names are UTF-8\<close>
fun plain_tree :: "fs_node \<Rightarrow> bool" where
  "plain_tree (Dir es) = (\<forall>(name, m) \<in> set es. os_to_str name = Some name \<and> plain_tree m)"
| "plain_tree (File b) = True"
| "plain_tree (Link p) = False"
| "plain_tree Special = False"
| "plain_tree Fault = False"

fun height :: "fs_node \<Rightarrow> nat" where
  "height (Dir es) = Suc (foldr max (map (\<lambda>(name, m). height m) es) 0)"
| "height n = 0"

text \<open>The regular files of a tree\<close>
fun files :: "fs_node \<Rightarrow> (string list \<times> bytes) list" where
  "files (File b) = [([], b)]"
| "files (Dir es) = concat (map (\<lambda>(name, m). map (\<lambda>(r, b). (name # r, b)) (files m)) es)"
| "files n = []"

text \<open>\<open>PRODUCT/VARIANT/STEPPING/SECURITY/crashlog/\<close>\<close>
fun layout :: "nat \<Rightarrow> fs_node \<Rightarrow> bool" where
  "layout 0 (Dir es) = (\<exists>c. map_of es ''crashlog'' = Some (Dir c))"
| "layout (Suc k) (Dir es) = (\<forall>(name, m) \<in> set es. layout k m)"
| "layout k n = False"

lemma height_entry: "(name, m) \<in> set es \<Longrightarrow> height m < height (Dir es)"
proof -
  have "x \<in> set xs \<Longrightarrow> x \<le> foldr max xs (0 :: nat)" for x xs by (induction xs) auto
  moreover assume "(name, m) \<in> set es"
  then have "height m \<in> set (map (\<lambda>(name, m). height m) es)" by force
  ultimately show ?thesis by (simp add: less_Suc_eq_le)
qed

lemma height_node_at: "node_at n cs = Some m \<Longrightarrow> height m \<le> height n"
  by (induction n cs rule: node_at.induct)
    (auto split: option.splits dest!: map_of_SomeD height_entry simp del: height.simps)

lemma fs_wf_map_of: "fs_wf (Dir es) \<Longrightarrow> map_of es name = Some m \<longleftrightarrow> (name, m) \<in> set es"
  by simp

lemma set_files: "fs_wf n \<Longrightarrow> (r, b) \<in> set (files n) \<longleftrightarrow> node_at n r = Some (File b)"
proof (induction n arbitrary: r)
  case (Dir es)
  show ?case
  proof (cases r)
    case (Cons c cs)
    have "(r, b) \<in> set (files (Dir es)) \<longleftrightarrow> (\<exists>m. (c, m) \<in> set es \<and> (cs, b) \<in> set (files m))"
      using Cons by force
    also have "\<dots> \<longleftrightarrow> (\<exists>m. (c, m) \<in> set es \<and> node_at m cs = Some (File b))"
      using Dir by (fastforce simp: snds.simps)
    also have "\<dots> \<longleftrightarrow> node_at (Dir es) r = Some (File b)"
      unfolding fs_wf_map_of [OF Dir.prems, symmetric] Cons by (cases "map_of es c") simp_all
    finally show ?thesis .
  qed auto
qed (auto elim: node_at.elims)

lemma plain_tree_node_at: "plain_tree n \<Longrightarrow> node_at n cs = Some m \<Longrightarrow>
  plain_tree m \<and> (\<forall>c \<in> set cs. os_to_str c = Some c)"
  by (induction n cs rule: node_at.induct) (auto split: option.splits dest!: map_of_SomeD)

lemma plain_tree_not [simp]: "plain_tree n \<Longrightarrow> n \<noteq> Link p" "plain_tree n \<Longrightarrow> n \<noteq> Fault"
  by auto

subsection \<open>Paths below a directory\<close>

lemma canonicalize_below:
  assumes P: "canonicalize fs P = Inr T" and cs: "\<forall>c \<in> set cs. plain_name c"
    and n: "node_at (fs_root fs) (T @ cs) = Some n" and "\<forall>p. n \<noteq> Link p"
  shows "canonicalize fs (Path (path_abs P) (path_names P @ cs)) = Inr (T @ cs)"
proof -
  let ?cur = "if path_abs P then [] else fs_cwd fs"
  have "walk (fs_root fs) max_symlinks ?cur (path_names P) = Inr T" and ne: "path_abs P \<or> \<not> set (path_names P) \<subseteq> {[]}"
    using P by (auto simp: canonicalize_def split: if_splits)
  from walk_append [OF this(1), of cs] obtain j
    where "walk (fs_root fs) max_symlinks ?cur (path_names P @ cs) = walk (fs_root fs) j T cs" by auto
  also have "\<dots> = Inr (T @ cs)" using cs n assms(4) by (rule walk_direct)
  finally show ?thesis using ne by (auto simp: canonicalize_def)
qed

text \<open>Below a tree without links, resolution succeeds only for the entries of the tree.\<close>

lemma walk_plain_tree:
  "node_at root cur = Some d \<Longrightarrow> plain_tree d \<Longrightarrow> \<forall>c \<in> set cs. plain_name c \<Longrightarrow> walk root k cur cs = Inr q \<Longrightarrow>
   q = cur @ cs \<and> (\<exists>n. node_at d cs = Some n)"
proof (induction cs arbitrary: cur d)
  case (Cons c cs)
  then have c: "plain_name c" by simp
  from Cons.prems obtain es where d: "d = Dir es" by (cases d) auto
  have at: "node_at root (cur @ [c]) = map_of es c" using Cons.prems(1) by (simp add: node_at_append d split: option.split)
  with Cons.prems c d obtain m where m: "map_of es c = Some m" by (auto simp: plain_name_def split: option.splits)
  then have pm: "plain_tree m" using Cons.prems(2) d by (auto dest!: map_of_SomeD)
  then have "walk root k (cur @ [c]) cs = Inr q"
    using Cons.prems at m c d by (cases m) (auto simp: plain_name_def)
  from Cons.IH [OF _ pm _ this] at m Cons.prems(3) show ?case by (simp add: d)
qed simp

text \<open>The entry at a path that resolves to \<open>T\<close>\<close>

lemma fs_entry_at: "canonicalize fs P = Inr T \<Longrightarrow> node_at (fs_root fs) T = Some n \<Longrightarrow> fs_entry fs P = Inr n"
  by (simp add: fs_entry_def)

subsection \<open>What the build script visits\<close>

lemma those_map_Some: "\<forall>x \<in> set xs. f x = Some (g x) \<Longrightarrow> those (map f xs) = Some (map g xs)"
  by (simp add: those_Some_iff)

lemma entries_Inr: "\<forall>(name, m) \<in> set es. m \<noteq> Fault \<Longrightarrow>
  map (\<lambda>(name, m). if m = Fault then Inl OtherIo else Inr name) es = map (\<lambda>(name, m). Inr name) es"
  by auto

lemma visit_dirs_files:
  "canonicalize fs P = Inr T \<Longrightarrow> node_at (fs_root fs) T = Some n \<Longrightarrow> plain_tree n \<Longrightarrow> fs_wf n \<Longrightarrow>
   height n < fuel \<Longrightarrow>
   visit_dirs fuel fs P = Some (map (\<lambda>(r, b). Path (path_abs P) (path_names P @ r)) (files n))"
proof (induction fuel arbitrary: P T n)
  case (Suc fuel)
  note entry = fs_entry_at [OF Suc.prems(1,2)]
  show ?case
  proof (cases n)
    case (File b)
    with entry show ?thesis by (cases P) (simp add: fs_is_dir_def)
  next
    case (Dir es)
    have child: "visit_dirs fuel fs (entry_path P name)
        = Some (map (\<lambda>(r, b). Path (path_abs P) (path_names P @ name # r)) (files m))"
      if nm: "(name, m) \<in> set es" for name m
    proof -
      have mo: "map_of es name = Some m" using nm Suc.prems(4) Dir by simp
      have m: "plain_tree m" "fs_wf m" "plain_name name" using nm Suc.prems(3,4) Dir by (auto simp: plain_name_def)
      have at: "node_at (fs_root fs) (T @ [name]) = Some m"
        using Suc.prems(2) Dir mo by (simp add: node_at_append)
      have "canonicalize fs (entry_path P name) = Inr (T @ [name])"
        unfolding entry_path_def using m(1,3) by (intro canonicalize_below [OF Suc.prems(1) _ at]) auto
      from Suc.IH [OF this at m(1,2)] height_entry [OF nm] Suc.prems(5) Dir
      show ?thesis by (simp add: entry_path_def)
    qed
    have read: "fs_read_dir fs P = Inr (map (\<lambda>(name, m). Inr name) es)"
      using entry Dir Suc.prems(3) by (fastforce simp: fs_read_dir_def)
    have "those (map (\<lambda>entry. case entry of Inl _ \<Rightarrow> None | Inr name \<Rightarrow> visit_dirs fuel fs (entry_path P name))
        (map (\<lambda>(name, m). Inr name) es))
      = Some (map (\<lambda>(name, m). map (\<lambda>(r, b). Path (path_abs P) (path_names P @ name # r)) (files m)) es)"
      unfolding map_map by (rule those_map_Some) (auto simp: child)
    then show ?thesis
      using entry Dir read by (simp add: fs_is_dir_def map_concat comp_def case_prod_unfold)
  qed (use Suc.prems in auto)
qed simp

text \<open>One level of the loops, on a directory of the tree\<close>

lemma visit_level_Dir:
  assumes "canonicalize fs P = Inr T" and "node_at (fs_root fs) T = Some (Dir es)" and "plain_tree (Dir es)"
    and "\<And>name m. (name, m) \<in> set es \<Longrightarrow> \<exists>ys. body name = Some ys \<and> set ys = f name m"
  shows "\<exists>xs. visit_level fs P body = Some xs \<and> set xs = (\<Union>(name, m) \<in> set es. f name m)"
proof -
  have "fs_read_dir fs P = Inr (map (\<lambda>(name, m). Inr name) es)"
    using fs_entry_at [OF assms(1,2)] assms(3) by (fastforce simp: fs_read_dir_def)
  moreover have "those (map (\<lambda>entry. case entry of Inl _ \<Rightarrow> None | Inr name \<Rightarrow> body name)
      (map (\<lambda>(name, m). Inr name :: io_error + string) es)) = Some (map (\<lambda>(name, m). the (body name)) es)"
    unfolding map_map by (rule those_map_Some) (use assms(4) in fastforce)
  moreover have "(\<Union>(name, m) \<in> set es. set (the (body name))) = (\<Union>(name, m) \<in> set es. f name m)"
    using assms(4) by fastforce
  ultimately show ?thesis by (simp add: visit_level_def case_prod_unfold)
qed

lemma node_at_Dir_iff:
  "fs_wf (Dir es) \<Longrightarrow> node_at (Dir es) (c # cs) = Some x \<longleftrightarrow> (\<exists>m. (c, m) \<in> set es \<and> node_at m cs = Some x)"
  unfolding fs_wf_map_of [symmetric] by (cases "map_of es c") simp_all

text \<open>A directory of the tree, and the path it is reached by\<close>
definition reaches :: "fs \<Rightarrow> path \<Rightarrow> fs_node \<Rightarrow> bool" where
  "reaches fs P n \<longleftrightarrow> (\<exists>T. canonicalize fs P = Inr T \<and> node_at (fs_root fs) T = Some n)
     \<and> plain_tree n \<and> fs_wf n"

lemma reaches_entry:
  assumes "reaches fs P (Dir es)" and "(name, m) \<in> set es"
  shows "reaches fs (entry_path P name) m"
proof -
  from assms obtain T where T: "canonicalize fs P = Inr T" "node_at (fs_root fs) T = Some (Dir es)"
    and d: "plain_tree (Dir es)" "fs_wf (Dir es)"
    unfolding reaches_def by blast
  from d assms(2) have m: "plain_tree m" "fs_wf m" "plain_name name" "map_of es name = Some m"
    by (auto simp: plain_name_def)
  from T m have at: "node_at (fs_root fs) (T @ [name]) = Some m" by (simp add: node_at_append)
  have "canonicalize fs (entry_path P name) = Inr (T @ [name])"
    unfolding entry_path_def using m(1,3) by (intro canonicalize_below [OF T(1) _ at]) auto
  with at m show ?thesis by (auto simp: reaches_def)
qed

text \<open>The items below a directory, whose names so far are \<open>key\<close>\<close>
definition items_below :: "path \<Rightarrow> string list \<Rightarrow> fs_node \<Rightarrow> tree_item set" where
  "items_below P key m = {(pr, va, st, se, p). \<exists>ns r b. [pr, va, st, se] = key @ ns
     \<and> p = Path (path_abs P) (path_names P @ ns @ ''crashlog'' # r) \<and> node_at m (ns @ ''crashlog'' # r) = Some (File b)}"

lemma items_below_Dir:
  assumes "fs_wf (Dir es)" and "length key < 4"
  shows "items_below P key (Dir es) = (\<Union>(name, m) \<in> set es. items_below (entry_path P name) (key @ [name]) m)"
proof -
  have "(pr, va, st, se, p) \<in> items_below P key (Dir es) \<longleftrightarrow>
      (\<exists>(name, m) \<in> set es. (pr, va, st, se, p) \<in> items_below (entry_path P name) (key @ [name]) m)" for pr va st se p
  proof
    assume "(pr, va, st, se, p) \<in> items_below P key (Dir es)"
    then obtain ns r b where ns: "[pr, va, st, se] = key @ ns"
      and p: "p = Path (path_abs P) (path_names P @ ns @ ''crashlog'' # r)"
      and at: "node_at (Dir es) (ns @ ''crashlog'' # r) = Some (File b)"
      by (auto simp: items_below_def)
    have "length (key @ ns) = 4" unfolding ns [symmetric] by simp
    with assms(2) obtain n ns' where n: "ns = n # ns'" by (cases ns) auto
    with at obtain m where "(n, m) \<in> set es" "node_at m (ns' @ ''crashlog'' # r) = Some (File b)"
      using node_at_Dir_iff [OF assms(1)] by auto
    with ns p n show "\<exists>(name, m) \<in> set es. (pr, va, st, se, p) \<in> items_below (entry_path P name) (key @ [name]) m"
      by (force simp: items_below_def entry_path_def)
  next
    assume "\<exists>(name, m) \<in> set es. (pr, va, st, se, p) \<in> items_below (entry_path P name) (key @ [name]) m"
    then obtain n m ns r b where "(n, m) \<in> set es" "[pr, va, st, se] = key @ n # ns"
      "p = Path (path_abs P) (path_names P @ (n # ns) @ ''crashlog'' # r)"
      "node_at m (ns @ ''crashlog'' # r) = Some (File b)"
      by (auto simp: items_below_def entry_path_def)
    then show "(pr, va, st, se, p) \<in> items_below P key (Dir es)"
      using node_at_Dir_iff [OF assms(1), of n] unfolding items_below_def
      by (auto intro!: exI [of _ "n # ns"])
  qed
  then show ?thesis by (intro set_eqI) (simp only: split_paired_all UN_iff case_prod_unfold)
qed

text \<open>One level of the loops on a directory \<open>k\<close> levels above the security level\<close>
definition visitable :: "nat \<Rightarrow> fs \<Rightarrow> nat \<Rightarrow> path \<Rightarrow> fs_node \<Rightarrow> bool" where
  "visitable fuel fs k P n \<longleftrightarrow> reaches fs P n \<and> layout k n \<and> height n < fuel"

lemma visit_level_items:
  assumes P: "visitable fuel fs (Suc k) P n" and "length key < 4"
    and body: "\<And>name m. visitable fuel fs k (entry_path P name) m \<Longrightarrow> os_to_str name = Some name \<Longrightarrow>
      \<exists>ys. body name = Some ys \<and> set ys = items_below (entry_path P name) (key @ [name]) m"
  shows "\<exists>xs. visit_level fs P body = Some xs \<and> set xs = items_below P key n"
proof -
  from P obtain es where n: "n = Dir es" by (cases n) (auto simp: visitable_def)
  from P obtain T where T: "canonicalize fs P = Inr T" "node_at (fs_root fs) T = Some (Dir es)"
    and pt: "plain_tree (Dir es)" and wf: "fs_wf (Dir es)" unfolding n visitable_def reaches_def by blast
  have "\<exists>ys. body name = Some ys \<and> set ys = items_below (entry_path P name) (key @ [name]) m"
    if nm: "(name, m) \<in> set es" for name m
  proof (rule body)
    show "visitable fuel fs k (entry_path P name) m"
      using P reaches_entry [OF _ nm] nm height_entry [OF nm] unfolding n visitable_def by fastforce
    show "os_to_str name = Some name" using pt nm by auto
  qed
  from visit_level_Dir [OF T pt, of body "\<lambda>name m. items_below (entry_path P name) (key @ [name]) m", OF this] show ?thesis unfolding n items_below_Dir [OF wf assms(2)] by blast
qed

lemma starts_with_slash: "CHR ''/'' \<notin> set s \<Longrightarrow> \<not> starts_with s ''/''"
  by (cases s) (auto simp: starts_with_def)

lemma path_push_plain: "plain_name c \<Longrightarrow> path_push P c = entry_path P c"
proof -
  assume c: "plain_name c"
  then have "split_on CHR ''/'' c = [c]" by (intro split_where_none) (auto simp: plain_name_def)
  with c show ?thesis by (simp add: path_push_def entry_path_def plain_name_def starts_with_slash)
qed

lemma plain_crashlog [simp]: "plain_name ''crashlog''"
  by (simp add: plain_name_def)

lemma reaches_names:
  assumes "reaches fs P n" and "node_at n cs = Some m"
  shows "\<forall>c \<in> set cs. plain_name c \<and> os_to_str c = Some c" and "plain_tree m" and "fs_wf m"
    and "\<exists>T. canonicalize fs (Path (path_abs P) (path_names P @ cs)) = Inr (T @ cs) \<and> node_at (fs_root fs) (T @ cs) = Some m"
proof -
  from assms obtain T where T: "canonicalize fs P = Inr T" "node_at (fs_root fs) T = Some n" and n: "plain_tree n" "fs_wf n"
    unfolding reaches_def by blast
  show names: "\<forall>c \<in> set cs. plain_name c \<and> os_to_str c = Some c" and m: "plain_tree m" "fs_wf m"
    using plain_tree_node_at [OF n(1) assms(2)] node_at_plain [OF n(2) assms(2)] by auto
  have at: "node_at (fs_root fs) (T @ cs) = Some m" using T assms(2) by (simp add: node_at_append)
  show "\<exists>T. canonicalize fs (Path (path_abs P) (path_names P @ cs)) = Inr (T @ cs) \<and> node_at (fs_root fs) (T @ cs) = Some m"
    using canonicalize_below [OF T(1) _ at] names m at by auto
qed

lemma visit_security:
  assumes V: "visitable fuel fs 0 S m"
    and utf8: "os_to_str pr = Some pr" "os_to_str va = Some va" "os_to_str st = Some st" "os_to_str se = Some se"
  shows "\<exists>ys. do {
       paths \<leftarrow> visit_dirs fuel fs (path_push S ''crashlog'');
       those (map (\<lambda>p. do {
         pr \<leftarrow> os_to_str pr; va \<leftarrow> os_to_str va; st \<leftarrow> os_to_str st; se \<leftarrow> os_to_str se;
         Some (pr, va, st, se, p) }) paths) } = Some ys
    \<and> set ys = items_below S [pr, va, st, se] m"
proof -
  from V have S: "reaches fs S m" and l: "layout 0 m" and fuel: "height m < fuel" by (simp_all add: visitable_def)
  from l obtain es c where m: "m = Dir es" and mo: "map_of es ''crashlog'' = Some (Dir c)"
    by (cases m) auto
  have at: "node_at m [''crashlog''] = Some (Dir c)" using m mo by simp
  from reaches_names(4) [OF S at] obtain T where
    T: "canonicalize fs (entry_path S ''crashlog'') = Inr T" "node_at (fs_root fs) T = Some (Dir c)"
    by (auto simp: entry_path_def)
  have "height (Dir c) < fuel" using height_node_at [OF at] fuel by simp
  from visit_dirs_files [OF T reaches_names(2,3) [OF S at] this]
  have "visit_dirs fuel fs (path_push S ''crashlog'')
      = Some (map (\<lambda>(r, b). Path (path_abs S) (path_names S @ ''crashlog'' # r)) (files (Dir c)))"
    unfolding path_push_plain [OF plain_crashlog] by (simp add: entry_path_def)
  moreover have "those (map (\<lambda>p. Some (pr, va, st, se, p)) ps) = Some (map (\<lambda>p. (pr, va, st, se, p)) ps)" for ps :: "path list"
    by (simp add: those_map_Some)
  moreover have "(r, b) \<in> set (files (Dir c)) \<longleftrightarrow> node_at m (''crashlog'' # r) = Some (File b)" for r b
    using set_files [OF reaches_names(3) [OF S at]] m mo by (simp del: files.simps)
  then have "set (files (Dir c)) = {(r, b). node_at m (''crashlog'' # r) = Some (File b)}"
    by (auto simp del: files.simps)
  moreover have "items_below S [pr, va, st, se] m = (\<lambda>(r, b). (pr, va, st, se, Path (path_abs S) (path_names S @ ''crashlog'' # r)))
      ` {(r, b). node_at m (''crashlog'' # r) = Some (File b)}"
    by (force simp: items_below_def simp del: node_at.simps)
  ultimately show ?thesis by (simp add: utf8 image_image case_prod_unfold del: files.simps)
qed

lemma visit_collateral_tree_items:
  assumes "reaches fs P d" and "layout 4 d" and "height d < fuel"
  shows "\<exists>items. visit_collateral_tree fuel fs P = Some items \<and> set items = items_below P [] d"
proof -
  have "visitable fuel fs (Suc (Suc (Suc (Suc 0)))) P d" using assms by (simp add: visitable_def numeral_eq_Suc)
  then show ?thesis
    unfolding visit_collateral_tree_def
    by (elim visit_level_items) ((simp; fail) | (unfold append.simps, rule visit_security))+
qed

lemma components_plain: "\<forall>c \<in> set cs. plain_name c \<Longrightarrow> filter (\<lambda>c. c \<noteq> [] \<and> c \<noteq> ''.'') cs = cs"
  by (auto simp: filter_id_conv plain_name_def)

lemma embed_item_below:
  assumes P: "reaches fs P d" and at: "node_at d ([pr, va, st, se, ''crashlog''] @ r) = Some (File b)"
  shows "embed_item fs P (pr, va, st, se, Path (path_abs P) (path_names P @ [pr, va, st, se, ''crashlog''] @ r))
    = Some (pr, va, st, se, item_show_elements r, b)"
proof -
  let ?names = "[pr, va, st, se, ''crashlog'']"
  have plain: "\<forall>c \<in> set (?names @ r). plain_name c \<and> os_to_str c = Some c"
    using reaches_names(1) [OF P at] .
  have prefix: "path_push (path_push (path_push (path_push (path_push P pr) va) st) se) ''crashlog''
      = Path (path_abs P) (path_names P @ ?names)"
    using plain by (simp add: path_push_plain entry_path_def)
  have comps: "path_components (Path a (path_names P @ cs)) = path_components P @ cs"
    if "\<forall>c \<in> set cs. plain_name c" for a cs
    using components_plain [OF that] by (simp add: path_components_def)
  have utf8: "List.map_filter os_to_str r = r" using plain by (induction r) (simp_all add: List.map_filter_simps)
  have "fs_read fs (Path (path_abs P) (path_names P @ ?names @ r)) = Inr b"
    using reaches_names(4) [OF P at] by (auto intro: fs_read_canonical)
  then show ?thesis
    using comps [of ?names] comps [of "?names @ r"] plain utf8
    by (simp add: embed_item_def prefix starts_with_def)
qed

subsection \<open>What the run-time tree reads\<close>

lemma foldl_push_plain: "\<forall>c \<in> set ss. plain_name c \<Longrightarrow> foldl path_push (Path a ns) ss = Path a (ns @ ss)"
  by (induction ss arbitrary: ns) (simp_all add: path_push_plain entry_path_def)

lemma path_collect_plain: "\<forall>c \<in> set ss. plain_name c \<Longrightarrow> path_collect ss = Path False ss"
  by (simp add: path_collect_def foldl_push_plain)

definition pvss_names :: "pvss \<Rightarrow> string list" where
  "pvss_names p = [pvss_product p, pvss_variant p, pvss_stepping p, pvss_security p]"

lemma fst_base_plain:
  assumes "\<forall>c \<in> set (pvss_names p). plain_name c"
  shows "fst_base \<lparr>fst_root = R\<rparr> p = Path (path_abs R) (path_names R @ pvss_names p @ [''crashlog''])"
proof -
  have "pvss_path p = pvss_names p" using assms by (simp add: pvss_path_def pvss_names_def plain_name_def)
  then have "pvss_to_path p = Path False (pvss_names p)" using assms by (simp add: pvss_to_path_def path_collect_plain)
  then show ?thesis
    using components_plain [OF assms]
    by (simp add: fst_base_def path_extend_def path_components_def path_push_plain entry_path_def)
qed

lemma canonicalize_below_inv:
  assumes P: "canonicalize fs P = Inr T" and d: "node_at (fs_root fs) T = Some d" "plain_tree d"
    and cs: "\<forall>c \<in> set cs. plain_name c" and q: "canonicalize fs (Path (path_abs P) (path_names P @ cs)) = Inr q"
  shows "q = T @ cs \<and> (\<exists>n. node_at d cs = Some n)"
proof -
  let ?cur = "if path_abs P then [] else fs_cwd fs"
  have "walk (fs_root fs) max_symlinks ?cur (path_names P) = Inr T" using P by (auto simp: canonicalize_def split: if_splits)
  from walk_append [OF this, of cs] q obtain j where "walk (fs_root fs) j T cs = Inr q"
    by (auto simp: canonicalize_def split: if_splits)
  from walk_plain_tree [OF d cs this] show ?thesis .
qed

lemma fst_get_iff:
  assumes wf: "fs_wf (fs_root fs)" and R: "reaches fs R d"
    and plain: "\<forall>c \<in> set (pvss_names p). plain_name c" "\<forall>c \<in> set r. plain_name c"
  shows "fst_get fs \<lparr>fst_root = R\<rparr> p (ItemPath r) = Inr b \<longleftrightarrow> node_at d (pvss_names p @ ''crashlog'' # r) = Some (File b)"
proof -
  let ?key = "pvss_names p @ [''crashlog'']"
  from R obtain T where T: "canonicalize fs R = Inr T" "node_at (fs_root fs) T = Some d" "plain_tree d"
    unfolding reaches_def by blast
  have key: "\<forall>c \<in> set ?key. plain_name c" using plain(1) by simp
  have item: "path_extend (Path True base) (item_to_path (ItemPath r)) = Path True (base @ r)" for base
    using plain(2) by (simp add: item_to_path_def path_collect_plain path_extend_def path_components_def components_plain)
  have direct: "canonicalize fs (Path True q) = Inr q" if "node_at d cs = Some n" "q = T @ cs" for q cs n
  proof (rule canonicalize_direct)
    show at: "node_at (fs_root fs) q = Some n" using that T(2) by (simp add: node_at_append)
    show "\<forall>c \<in> set q. plain_name c" using node_at_plain [OF wf at] by simp
    show "\<forall>p. n \<noteq> Link p" using plain_tree_node_at [OF T(3) that(1)] by auto
  qed
  show ?thesis
  proof (cases "node_at d ?key")
    case None
    have "fst_build_path fs \<lparr>fst_root = R\<rparr> p (ItemPath r) = None"
      using canonicalize_below_inv [OF T key] None
      by (auto simp: fst_build_path_def fst_base_plain [OF plain(1)] split: sum.split)
    moreover have "node_at d (pvss_names p @ ''crashlog'' # r) = None"
      using None node_at_append [of d ?key r] by simp
    ultimately show ?thesis by (simp add: fst_get_def)
  next
    case (Some c)
    have c: "plain_tree c" using plain_tree_node_at [OF T(3) Some] by simp
    have base: "canonicalize fs (fst_base \<lparr>fst_root = R\<rparr> p) = Inr (T @ ?key)"
      using canonicalize_below [OF T(1) key, of c] T(2) Some c
      by (simp add: node_at_append fst_base_plain [OF plain(1)])
    have at: "node_at (fs_root fs) (T @ ?key) = Some c" using T(2) Some by (simp add: node_at_append)
    have sub: "node_at d (?key @ r) = node_at c r" using Some node_at_append [of d ?key r] by simp
    note dir = direct [OF Some refl]
    show ?thesis
    proof (cases "node_at c r")
      case None
      have "fst_build_path fs \<lparr>fst_root = R\<rparr> p (ItemPath r) = None"
        using canonicalize_below_inv [OF dir at c plain(2)] None
        by (auto simp: fst_build_path_def base item split: sum.split)
      with None sub show ?thesis by (simp add: fst_get_def)
    next
      case (Some n)
      with sub have n: "node_at d (?key @ r) = Some n" by simp
      from direct [OF this refl] have can: "canonicalize fs (Path True (T @ ?key @ r)) = Inr (T @ ?key @ r)" .
      then have "fst_build_path fs \<lparr>fst_root = R\<rparr> p (ItemPath r) = Some (T @ ?key @ r)"
        using base item by (simp add: fst_build_path_def starts_with_def)
      moreover have "fs_entry fs (Path True (T @ ?key @ r)) = Inr n"
        using fs_entry_at [OF can] n T(2) by (simp add: node_at_append)
      ultimately show ?thesis using n by (auto simp: fst_get_def fs_read_def split: fs_node.splits)
    qed
  qed
qed

subsection \<open>The calls of the embedded tree\<close>

lemma layout_crashlog:
  assumes "layout 4 d" and "node_at d [pr, va, st, se, ''crashlog''] = Some n"
  shows "\<exists>es. n = Dir es"
proof -
  have step: "\<exists>m. layout k m \<and> node_at m cs = Some n" if "layout (Suc k) n'" "node_at n' (c # cs) = Some n" for k n' c cs
    using that by (cases n') (auto split: option.splits dest!: map_of_SomeD)
  have "layout (Suc (Suc (Suc (Suc 0)))) d" using assms(1) by (simp add: numeral_eq_Suc)
  from step [OF this assms(2)] obtain m where "layout 0 m" "node_at m [''crashlog''] = Some n" by (blast dest: step)
  then show ?thesis by (cases m) (auto split: option.splits)
qed

lemma layout_crashlog_not_File: "layout 4 d \<Longrightarrow> node_at d [pr, va, st, se, ''crashlog''] \<noteq> Some (File b)"
  by (auto dest: layout_crashlog)

lemma embed_calls:
  assumes P: "reaches fs P d" and d: "layout 4 d" "height d < fuel"
  shows "\<exists>items calls. visit_collateral_tree fuel fs P = Some items
    \<and> those (map (embed_item fs P) (filter (selected requested) items)) = Some calls
    \<and> set calls = {(pr, va, st, se, item_show_elements r, b) | pr va st se r b.
         (requested = {} \<or> pr \<in> requested) \<and> node_at d ([pr, va, st, se, ''crashlog''] @ r) = Some (File b)}"
proof -
  obtain items where items: "visit_collateral_tree fuel fs P = Some items" "set items = items_below P [] d"
    using visit_collateral_tree_items [OF P d] by blast
  let ?p = "\<lambda>pr va st se r. Path (path_abs P) (path_names P @ [pr, va, st, se, ''crashlog''] @ r)"
  have mem: "(pr, va, st, se, p) \<in> set items \<longleftrightarrow>
      (\<exists>r b. p = ?p pr va st se r \<and> node_at d ([pr, va, st, se, ''crashlog''] @ r) = Some (File b))" for pr va st se p
    unfolding items(2) items_below_def by auto
  let ?calls = "map (\<lambda>i. the (embed_item fs P i)) (filter (selected requested) items)"
  have "those (map (embed_item fs P) (filter (selected requested) items)) = Some ?calls"
    using mem embed_item_below [OF P] by (intro those_map_Some) fastforce
  moreover have "set ?calls = {(pr, va, st, se, item_show_elements r, b) | pr va st se r b.
         (requested = {} \<or> pr \<in> requested) \<and> node_at d ([pr, va, st, se, ''crashlog''] @ r) = Some (File b)}"
    (is "_ = ?S")
  proof (intro set_eqI iffI)
    fix c assume "c \<in> set ?calls"
    then obtain pr va st se p where "(pr, va, st, se, p) \<in> set items" "selected requested (pr, va, st, se, p)"
      and c: "c = the (embed_item fs P (pr, va, st, se, p))" by auto
    from this(1) obtain r b where p: "p = ?p pr va st se r"
      and at: "node_at d ([pr, va, st, se, ''crashlog''] @ r) = Some (File b)"
      unfolding mem by blast
    have c: "c = (pr, va, st, se, item_show_elements r, b)" using embed_item_below [OF P at] c p by simp
    have "requested = {} \<or> pr \<in> requested" using \<open>selected requested (pr, va, st, se, p)\<close> by (simp add: selected_def)
    with at show "c \<in> ?S" unfolding c by blast
  next
    fix c assume "c \<in> ?S"
    then obtain pr va st se r b where c: "c = (pr, va, st, se, item_show_elements r, b)"
      and at: "node_at d ([pr, va, st, se, ''crashlog''] @ r) = Some (File b)" and req: "requested = {} \<or> pr \<in> requested"
      by blast
    have "(pr, va, st, se, ?p pr va st se r) \<in> set (filter (selected requested) items)"
      using mem at req by (auto simp: selected_def)
    moreover have "c = the (embed_item fs P (pr, va, st, se, ?p pr va st se r))"
      using embed_item_below [OF P at] c by simp
    ultimately show "c \<in> set ?calls" by force
  qed
  ultimately show ?thesis using items(1) by blast
qed

lemma embedded_get_calls:
  assumes "\<And>b b'. (pvss_product p, pvss_variant p, pvss_stepping p, pvss_security p, s, b) \<in> set calls \<Longrightarrow>
      (pvss_product p, pvss_variant p, pvss_stepping p, pvss_security p, s, b') \<in> set calls \<Longrightarrow> b = b'"
    and "\<And>s'. item_from_str s' = item \<Longrightarrow> s' = s" and "item_from_str s = item"
  shows "embedded_get (embedded_new calls) p item = Inr b \<longleftrightarrow>
    (pvss_product p, pvss_variant p, pvss_stepping p, pvss_security p, s, b) \<in> set calls"
proof -
  let ?Q = "\<lambda>(pr, va, st, se, path, content). item = item_from_str path \<and>
      p = \<lparr>pvss_product = pr, pvss_variant = va, pvss_stepping = st, pvss_security = se\<rparr>"
  have item: "item = item_from_str path \<longleftrightarrow> path = s" for path using assms(2,3) by metis
  have Q: "?Q c \<longleftrightarrow> (\<exists>b. c = (pvss_product p, pvss_variant p, pvss_stepping p, pvss_security p, s, b))" for c :: insert_call
    by (cases c) (auto simp: item)
  show ?thesis
  proof (cases "find ?Q (rev calls)")
    case None
    then have "\<forall>c \<in> set calls. \<not> ?Q c" unfolding find_None_iff set_rev by blast
    then have "(pvss_product p, pvss_variant p, pvss_stepping p, pvss_security p, s, b) \<notin> set calls"
      unfolding Q by blast
    then show ?thesis unfolding embedded_get_last_insert None by simp
  next
    case (Some c)
    then have "?Q c" and "c \<in> set (rev calls)" unfolding find_Some_iff by (metis nth_mem)+
    then have "c \<in> set calls" by simp
    note \<open>?Q c\<close>
    then obtain b' where c: "c = (pvss_product p, pvss_variant p, pvss_stepping p, pvss_security p, s, b')" unfolding Q by blast
    show ?thesis unfolding embedded_get_last_insert Some c using assms(1) \<open>c \<in> set calls\<close> c by auto
  qed
qed

lemma embedded_get_no_item [simp]: "embedded_get (embedded_new calls) p (ItemPath []) \<noteq> Inr b"
proof -
  have "ItemPath [] \<noteq> item_from_str path" for path by (metis item_from_str_def item_path.inject split_where_not_Nil)
  then have "find (\<lambda>(pr, va, st, se, path, content). ItemPath [] = item_from_str path \<and>
      p = \<lparr>pvss_product = pr, pvss_variant = va, pvss_stepping = st, pvss_security = se\<rparr>) (rev calls) = None"
    by (auto simp: find_None_iff)
  then show ?thesis unfolding embedded_get_last_insert by simp
qed

lemma show_split: "item_show_elements (split_on CHR ''/'' s) = s"
proof (induction s)
  case (Cons c s)
  obtain y ys where y: "split_on CHR ''/'' s = y # ys" by (cases "split_on CHR ''/'' s") simp_all
  with Cons show ?case by (cases ys) auto
qed simp

lemma item_from_str_inj: "item_from_str s = ItemPath r \<longleftrightarrow> r = split_on CHR ''/'' s"
  by (auto simp: item_from_str_def)

subsection \<open>Properties\<close>

text \<open>C13. Reading a collateral item never leaves the directory of its product, whatever the names in
  the path are and wherever symbolic links lead: what is returned is a regular file inside the tree
  of the directory \<open>crashlog\<close> of the product.\<close>
theorem collateral_read_confined:
  assumes "fs_wf (fs_root fs)" and "canonical (fs_root fs) []" and "fst_get fs self pvss item = Inr content"
  shows "\<exists>base d rest. canonicalize fs (fst_base self pvss) = Inr base \<and> node_at (fs_root fs) base = Some d
    \<and> (\<forall>name \<in> set rest. plain_name name) \<and> node_at d rest = Some (File content)"
proof -
  from assms(3) obtain p where p: "fst_build_path fs self pvss item = Some p"
    and read: "fs_read fs (Path True p) = Inr content"
    by (auto simp: fst_get_def io_result_def split: option.splits sum.splits)
  then obtain base where base: "canonicalize fs (fst_base self pvss) = Inr base"
    and q: "canonicalize fs (path_extend (Path True base) (item_to_path item)) = Inr p" and pre: "starts_with p base"
    by (auto simp: fst_build_path_def split: sum.splits if_splits)
  have "canonical (fs_root fs) p"
    using q walk_canonical [OF assms(2,2)] by (auto simp: canonicalize_def path_extend_def split: if_splits)
  then obtain n where n: "node_at (fs_root fs) p = Some n" "\<forall>l. n \<noteq> Link l" by (auto simp: canonical_def)
  have plain: "\<forall>c \<in> set p. plain_name c" using node_at_plain [OF assms(1) n(1)] by simp
  from canonicalize_direct [OF plain n] read n have "n = File content"
    by (auto simp: fs_read_def fs_entry_def split: fs_node.splits)
  moreover obtain rest where rest: "p = base @ rest"
    using pre by (metis append_take_drop_id starts_with_def)
  ultimately obtain d where "node_at (fs_root fs) base = Some d" "node_at d rest = Some (File content)"
    using n(1) by (auto simp: node_at_append split: option.splits)
  with base rest plain show ?thesis by auto
qed

text \<open>A collateral tree with one product, a file outside of it, and a link that leads there\<close>
definition example_fs :: fs where
  "example_fs = \<lparr>fs_root = Dir [(''secret'', File [9]), (''c'', Dir [(''XYZ'', Dir [(''all'', Dir [(''all'', Dir [(''all'',
      Dir [(''crashlog'', Dir [(''leak'', Link (Path True [[], ''secret''])), (''a'', Dir [(''b'', File [7])])])])])])])])],
     fs_cwd = []\<rparr>"

theorem collateral_read_confined_witness:
  "fst_get example_fs \<lparr>fst_root = path_of_str ''/c''\<rparr> (pvss_default\<lparr>pvss_product := ''XYZ''\<rparr>) (ItemPath [''a'', ''..'', ''a'', ''b''])
     = Inr [7]
   \<and> fst_get example_fs \<lparr>fst_root = path_of_str ''/c''\<rparr> (pvss_default\<lparr>pvss_product := ''XYZ''\<rparr>) (ItemPath [''leak''])
     = Inl (MissingCollateral (pvss_default\<lparr>pvss_product := ''XYZ''\<rparr>) (ItemPath [''leak'']))
   \<and> (\<exists>base d rest. canonicalize example_fs (fst_base \<lparr>fst_root = path_of_str ''/c''\<rparr> (pvss_default\<lparr>pvss_product := ''XYZ''\<rparr>)) = Inr base
      \<and> node_at (fs_root example_fs) base = Some d \<and> \<not> (\<exists>name \<in> set rest. \<not> plain_name name) \<and> node_at d rest = Some (File [7]))"
proof -
  have get: "fst_get example_fs \<lparr>fst_root = path_of_str ''/c''\<rparr> (pvss_default\<lparr>pvss_product := ''XYZ''\<rparr>) (ItemPath [''a'', ''..'', ''a'', ''b''])
     = Inr [7]" by code_simp
  have leak: "fst_get example_fs \<lparr>fst_root = path_of_str ''/c''\<rparr> (pvss_default\<lparr>pvss_product := ''XYZ''\<rparr>) (ItemPath [''leak''])
     = Inl (MissingCollateral (pvss_default\<lparr>pvss_product := ''XYZ''\<rparr>) (ItemPath [''leak'']))" by code_simp
  have "fs_wf (fs_root example_fs)" and "canonical (fs_root example_fs) []"
    by (simp_all add: example_fs_def canonical_def)
  from collateral_read_confined [OF this get] get leak show ?thesis by blast
qed

text \<open>C14. The tree embedded by the build script answers like the tree on disk: for a collateral
  directory of readable files and directories without links, with names in UTF-8, in the documented
  layout (four levels of directories, each of the lowest with a directory \<open>crashlog\<close>), and not deeper
  than the recursion of the build script goes, the build succeeds. Then, for every product that was
  selected, or any product if no selection was made, the embedded tree returns a content for an
  item iff the tree read at run time from that directory returns it, provided that the names of the
  item path and of the product, variant, stepping and security are plain: none of them is empty,
  \<open>.\<close> or \<open>..\<close> or has a slash.\<close>
theorem embedded_tree_matches_file_system:
  assumes wf: "fs_wf (fs_root fs)" and v: "path_absolute fs (path_of_str v) = Some P"
    and T: "canonicalize fs P = Inr T" "canonicalize fs R = Inr T" "node_at (fs_root fs) T = Some d"
    and d: "plain_tree d" "layout 4 d" "height d < fuel"
    and p: "\<forall>name \<in> set (pvss_names p). plain_name name" "\<forall>name \<in> set r. plain_name name"
    and requested: "requested_products products_var = {} \<or> pvss_product p \<in> requested_products products_var"
  shows "\<exists>calls. embed_collateral_tree fuel fs (Some v) products_var = Some calls
    \<and> (embedded_get (embedded_new calls) p (ItemPath r) = Inr b
       \<longleftrightarrow> fst_get fs \<lparr>fst_root = R\<rparr> p (ItemPath r) = Inr b)"
proof -
  have reach: "reaches fs P d" "reaches fs R d" using T d(1) node_at_plain [OF wf T(3)] by (auto simp: reaches_def)
  from embed_calls [OF reach(1) d(2,3), of "requested_products products_var"] obtain calls
    where calls: "embed_collateral_tree fuel fs (Some v) products_var = Some calls"
      and set: "set calls = {(pr, va, st, se, item_show_elements r, b) | pr va st se r b.
         (requested_products products_var = {} \<or> pr \<in> requested_products products_var)
         \<and> node_at d ([pr, va, st, se, ''crashlog''] @ r) = Some (File b)}"
    by (auto simp: embed_collateral_tree_def v)
  have sep: "ns \<noteq> [] \<and> (\<forall>x \<in> set ns. CHR ''/'' \<notin> set x)"
    if "node_at d ([pr, va, st, se, ''crashlog''] @ ns) = Some (File b)" for pr va st se ns b
    using layout_crashlog_not_File [OF d(2)] reaches_names(1) [OF reach(1) that] that by (auto simp: plain_name_def)
  have mem: "(pvss_product p, pvss_variant p, pvss_stepping p, pvss_security p, s, b') \<in> set calls
      \<longleftrightarrow> node_at d (pvss_names p @ ''crashlog'' # split_on CHR ''/'' s) = Some (File b')" for s b'
  proof
    assume "(pvss_product p, pvss_variant p, pvss_stepping p, pvss_security p, s, b') \<in> set calls"
    then obtain ns where s: "s = item_show_elements ns"
      and at: "node_at d (pvss_names p @ ''crashlog'' # ns) = Some (File b')" by (auto simp: set pvss_names_def)
    then have "split_on CHR ''/'' s = ns"
      using sep [of "pvss_product p" "pvss_variant p" "pvss_stepping p" "pvss_security p" ns b']
      by (simp add: pvss_names_def split_item_show)
    with at show "node_at d (pvss_names p @ ''crashlog'' # split_on CHR ''/'' s) = Some (File b')" by simp
  next
    assume "node_at d (pvss_names p @ ''crashlog'' # split_on CHR ''/'' s) = Some (File b')"
    moreover have "s = item_show_elements (split_on CHR ''/'' s)" by (simp add: show_split)
    ultimately show "(pvss_product p, pvss_variant p, pvss_stepping p, pvss_security p, s, b') \<in> set calls"
      using requested unfolding set pvss_names_def by fastforce
  qed
  have "embedded_get (embedded_new calls) p (ItemPath r) = Inr b \<longleftrightarrow>
      node_at d (pvss_names p @ ''crashlog'' # r) = Some (File b)"
  proof (cases "r = []")
    case True
    have "node_at d (pvss_names p @ [''crashlog'']) \<noteq> Some (File b)"
      using layout_crashlog_not_File [OF d(2)] by (simp add: pvss_names_def)
    then show ?thesis using True by (simp add: embedded_get_no_item)
  next
    case False
    have split: "split_on CHR ''/'' (item_show_elements r) = r"
      using False p(2) by (intro split_item_show) (auto simp: plain_name_def)
    have "embedded_get (embedded_new calls) p (ItemPath r) = Inr b \<longleftrightarrow>
        (pvss_product p, pvss_variant p, pvss_stepping p, pvss_security p, item_show_elements r, b) \<in> set calls"
      by (rule embedded_get_calls) (auto simp: mem split item_from_str_inj show_split)
    then show ?thesis by (simp add: mem split)
  qed
  with calls fst_get_iff [OF wf reach(2) p] show ?thesis by blast
qed

definition example_tree :: fs_node where
  "example_tree = Dir [(''XYZ'', Dir [(''all'', Dir [(''all'', Dir [(''all'',
      Dir [(''crashlog'', Dir [(''x'', File []), (''a'', Dir [(''b'', File [7])])])])])])])]"

theorem embedded_tree_matches_file_system_witness:
  "\<exists>calls. embed_collateral_tree 10 \<lparr>fs_root = Dir [(''c'', example_tree)], fs_cwd = []\<rparr> (Some ''/c'') (Some ''QWE, XYZ'')
      = Some calls
    \<and> embedded_get (embedded_new calls) (pvss_default\<lparr>pvss_product := ''XYZ''\<rparr>) (ItemPath [''a'', ''b'']) = Inr [7]"
proof -
  let ?fs = "\<lparr>fs_root = Dir [(''c'', example_tree)], fs_cwd = []\<rparr>" and ?p = "pvss_default\<lparr>pvss_product := ''XYZ''\<rparr>"
  have "\<exists>calls. embed_collateral_tree 10 ?fs (Some ''/c'') (Some ''QWE, XYZ'') = Some calls
    \<and> (embedded_get (embedded_new calls) ?p (ItemPath [''a'', ''b'']) = Inr [7]
       \<longleftrightarrow> fst_get ?fs \<lparr>fst_root = Path False [''.'', ''c'']\<rparr> ?p (ItemPath [''a'', ''b'']) = Inr [7])"
  proof (rule embedded_tree_matches_file_system)
    show "fs_wf (fs_root ?fs)" by (simp add: example_tree_def)
    show "path_absolute ?fs (path_of_str ''/c'') = Some (Path True [[], ''c''])" by code_simp
    show "canonicalize ?fs (Path True [[], ''c'']) = Inr [''c'']" by code_simp
    show "canonicalize ?fs (Path False [''.'', ''c'']) = Inr [''c'']" by code_simp
    show "node_at (fs_root ?fs) [''c''] = Some example_tree" by simp
    show "plain_tree example_tree" by code_simp
    show "layout 4 example_tree" by (simp add: example_tree_def numeral_eq_Suc)
    show "height example_tree < 10" by (simp add: example_tree_def)
    show "\<forall>name \<in> set (pvss_names ?p). plain_name name" by (simp add: pvss_names_def pvss_default_def plain_name_def)
    show "\<forall>name \<in> set [''a'', ''b'']. plain_name name" by (simp add: plain_name_def)
    have "requested_products (Some ''QWE, XYZ'') = {''QWE'', ''XYZ''}" by code_simp
    then show "requested_products (Some ''QWE, XYZ'') = {} \<or> pvss_product ?p \<in> requested_products (Some ''QWE, XYZ'')" by simp
  qed
  moreover have "fst_get ?fs \<lparr>fst_root = Path False [''.'', ''c'']\<rparr> ?p (ItemPath [''a'', ''b'']) = Inr [7]" by code_simp
  ultimately show ?thesis by blast
qed

end
