(* ===== verification/Json.thy ===== *)
theory Json
  imports Decode
begin

text \<open>
  The JSON output of a decoded crash log (\<open>impl Serialize for Node\<close> in \<open>lib/src/node.rs\<close>), seen by a
  program that reads it: a register is a string, or the entry \<open>_value\<close> of an object when it has
  fields of its own, and the text is a hexadecimal number.
\<close>

subsection \<open>Reading the output\<close>

fun json_string :: "json \<Rightarrow> string list \<Rightarrow> string option" where
  "json_string (JString s) [] = Some s"
| "json_string (JString s) (key # path) = None"
| "json_string (JObject entries) [] = (case map_of entries ''_value'' of Some (JString s) \<Rightarrow> Some s | _ \<Rightarrow> None)"
| "json_string (JObject entries) (key # path) = (case map_of entries key of
     Some j \<Rightarrow> json_string j path | None \<Rightarrow> None)"

definition parse_hex_value :: "string \<Rightarrow> u64 option" where
  "parse_hex_value s = (case strip_prefix ''0x'' s of
     None \<Rightarrow> None
   | Some digits \<Rightarrow> (case from_str_radix 16 (2 ^ 64) digits of Inr n \<Rightarrow> Some (of_nat n) | Inl _ \<Rightarrow> None))"

definition json_register :: "json \<Rightarrow> string list \<Rightarrow> u64 option" where
  "json_register j path = Option.bind (json_string j path) parse_hex_value"

text \<open>No node takes the name of the entry for the value, and only the top of the tree is a root.\<close>
fun json_ok :: "node \<Rightarrow> bool" where
  "json_ok (Node name descr kind cs) = (\<forall>(key, c) \<in> set cs. key \<noteq> ''_value'' \<and> node_kind c \<noteq> NodeRoot \<and> json_ok c)"

subsection \<open>Registers\<close>

lemma parse_hex_value_show: "parse_hex_value (hex_value v) = Some v"
proof -
  have "strip_prefix ''0x'' (hex_value v) = Some (show_hex (unat v))"
    by (simp add: strip_prefix_def starts_with_def hex_value_def)
  moreover have "from_str_radix 16 (2 ^ 64) (zero_pad 0 (show_radix digit_lower 16 (unat v))) = Inr (unat v)"
    using unsigned_less [of v, where 'a = nat] by (intro from_str_radix_padded) simp_all
  then have "from_str_radix 16 (2 ^ 64) (show_hex (unat v)) = Inr (unat v)"
    by (simp add: zero_pad_def show_hex_def)
  ultimately show ?thesis by (simp add: parse_hex_value_def)
qed

lemma map_of_children: "map_of (map (\<lambda>p. (fst p, f (snd p))) cs) k = map_option f (bt_get cs k)"
  by (induction cs) auto

lemma bt_get_in: "bt_get cs k = Some c \<Longrightarrow> (k, c) \<in> set cs"
  by (induction cs) (auto split: if_splits)

lemma json_ok_get: "json_ok n \<Longrightarrow> node_get n k = Some c \<Longrightarrow> k \<noteq> ''_value'' \<and> node_kind c \<noteq> NodeRoot \<and> json_ok c"
  by (cases n) (auto simp: node_get_def dest!: bt_get_in)

lemma json_string_serialize:
  "json_ok n \<Longrightarrow> node_kind n \<noteq> NodeRoot \<Longrightarrow> ''_value'' \<notin> set path \<Longrightarrow>
   json_string (node_serialize n) path = map_option hex_value (value_at n path)"
proof (induction path arbitrary: n)
  case Nil
  obtain name descr kind cs where n: "n = Node name descr kind cs" by (cases n)
  have "bt_get cs ''_value'' = None"
    using Nil.prems(1) json_ok_get [of n "''_value''"] by (cases "bt_get cs ''_value''") (auto simp: n node_get_def)
  then show ?case
    using Nil.prems(2) by (cases kind) (auto simp: n value_at_def node_value_def map_of_children split: option.split)
next
  case (Cons key path)
  obtain name descr kind cs where n: "n = Node name descr kind cs" by (cases n)
  show ?case
  proof (cases "node_get n key")
    case None
    then show ?thesis using Cons.prems
      by (cases kind) (auto simp: n value_at_def node_get_def map_of_children)
  next
    case (Some c)
    with json_ok_get [OF Cons.prems(1) Some] Cons.prems Cons.IH [of c] show ?thesis
      by (cases kind) (auto simp: n value_at_def node_get_def map_of_children)
  qed
qed

text \<open>C8. Nothing is lost in the JSON output: a program that reads the text at the path of a register
  below \<open>crashlog_data\<close>, as a hexadecimal number, gets the value that the decoded tree has there, and
  it finds nothing where the tree has no value. No register may be called \<open>_value\<close>.\<close>
theorem serialize_registers:
  assumes "json_ok root" and "node_kind root = NodeRoot" and "''_value'' \<notin> set path"
  shows "json_register (node_serialize root) (''crashlog_data'' # path) = value_at root path"
proof -
  obtain name descr cs where root: "root = Node name descr NodeRoot cs" using assms(2) by (cases root) auto
  have "json_string (node_serialize root) (''crashlog_data'' # path)
      = json_string (node_serialize (Node name descr NodeSection cs)) path" by (simp add: root)
  also have "\<dots> = map_option hex_value (value_at (Node name descr NodeSection cs) path)"
    using assms by (intro json_string_serialize) (simp_all add: root)
  also have "value_at (Node name descr NodeSection cs) path = value_at root path"
    by (cases path) (simp_all add: root value_at_def node_get_def node_value_def)
  finally show ?thesis by (cases "value_at root path") (simp_all add: json_register_def parse_hex_value_show)
qed

theorem serialize_registers_witness:
  "json_register (node_serialize (node_add node_root (node_add (node_field ''reg'' 0xab) (node_field ''bit'' 1))))
     [''crashlog_data'', ''reg''] = Some 0xab"
proof -
  let ?root = "node_add node_root (node_add (node_field ''reg'' 0xab) (node_field ''bit'' 1))"
  have "json_ok ?root" "node_kind ?root = NodeRoot" "value_at ?root [''reg''] = Some 0xab" by code_simp+
  with serialize_registers [of ?root "[''reg'']"] show ?thesis by simp
qed

end
