(* ===== verification/Table.thy ===== *)
theory Table
  imports RustString
begin

text \<open>
  The tables of the command line application: \<open>app/src/table.rs\<close>. What is printed is the list of the
  lines. The formatter pads to a number of characters, while the width of a column is counted in
  bytes.
\<close>

subsection \<open>Padding\<close>

text \<open>\<open>{:width$}\<close>, \<open>{:>width$}\<close>, \<open>{:^width$}\<close> and \<open>{:->width$}\<close>\<close>
definition fmt_left :: "nat \<Rightarrow> string \<Rightarrow> string" where
  "fmt_left w s = s @ replicate (w - char_count s) CHR '' ''"

definition fmt_right :: "nat \<Rightarrow> string \<Rightarrow> string" where
  "fmt_right w s = replicate (w - char_count s) CHR '' '' @ s"

definition fmt_center :: "nat \<Rightarrow> string \<Rightarrow> string" where
  "fmt_center w s = (let pad = w - char_count s in
     replicate (pad div 2) CHR '' '' @ s @ replicate ((pad + 1) div 2) CHR '' '')"

definition fmt_dashes :: "nat \<Rightarrow> string \<Rightarrow> string" where
  "fmt_dashes w s = replicate (w - char_count s) CHR ''-'' @ s"

subsection \<open>Tables\<close>

datatype alignment = AlignLeft | AlignRight | AlignCenter

record column =
  col_title :: string
  col_width :: nat
  col_alignment :: alignment

definition column_from_title :: "string \<Rightarrow> column" where
  "column_from_title title = \<lparr>col_title = title, col_width = length title, col_alignment = AlignLeft\<rparr>"

definition column_expand :: "nat \<Rightarrow> column \<Rightarrow> column" where
  "column_expand width self = (if width > col_width self then self\<lparr>col_width := width\<rparr> else self)"

type_synonym row = "string list"

record table =
  tb_columns :: "column list"
  tb_rows :: "row list"

definition table_from :: "string list \<Rightarrow> table" where
  "table_from titles = \<lparr>tb_columns = map column_from_title titles, tb_rows = []\<rparr>"

text \<open>\<open>table.columns[i].alignment = alignment\<close>\<close>
definition table_align :: "nat \<Rightarrow> alignment \<Rightarrow> table \<Rightarrow> table" where
  "table_align i alignment t = t\<lparr>tb_columns := (tb_columns t)[i := (tb_columns t ! i)\<lparr>col_alignment := alignment\<rparr>]\<rparr>"

text \<open>The loop of \<open>append_row\<close>: the cells beyond the last column are ignored.\<close>
fun expand_columns :: "string list \<Rightarrow> column list \<Rightarrow> column list" where
  "expand_columns (cell # cells) (column # columns) =
     column_expand (length cell) column # expand_columns cells columns"
| "expand_columns cells columns = columns"

definition append_row :: "row \<Rightarrow> table \<Rightarrow> table" where
  "append_row row self = self\<lparr>tb_columns := expand_columns row (tb_columns self), tb_rows := tb_rows self @ [row]\<rparr>"

subsection \<open>Rendering\<close>

definition render_cell :: "column \<Rightarrow> string \<Rightarrow> string" where
  "render_cell column cell =
     (let width = col_width column + 2 in
      case col_alignment column of
        AlignLeft \<Rightarrow> fmt_left width cell
      | AlignRight \<Rightarrow> fmt_right (width - 1) cell @ '' ''
      | AlignCenter \<Rightarrow> fmt_center width cell)"

fun render_cells :: "(column \<Rightarrow> string \<Rightarrow> string) \<Rightarrow> column list \<Rightarrow> string list \<Rightarrow> string" where
  "render_cells f (column # columns) (cell # cells) = f column cell @ render_cells f columns cells"
| "render_cells f columns cells = []"

definition table_render :: "table \<Rightarrow> string list" where
  "table_render self =
     [concat (map (\<lambda>column. fmt_left (col_width column + 2) (col_title column)) (tb_columns self)),
      concat (map (\<lambda>column. fmt_dashes (col_width column + 2) '' '') (tb_columns self))]
     @ map (render_cells render_cell (tb_columns self)) (tb_rows self)"

definition render_markdown :: "table \<Rightarrow> string list" where
  "render_markdown self =
     [''|'' @ concat (map (\<lambda>column. '' '' @ fmt_left (col_width column + 2) (col_title column) @ ''|'') (tb_columns self)),
      ''|'' @ concat (map (\<lambda>column. '' '' @ fmt_dashes (col_width column + 2) '' '' @ ''|'') (tb_columns self))]
     @ map (\<lambda>row. ''|'' @ render_cells (\<lambda>column cell. '' '' @ render_cell column cell @ ''|'') (tb_columns self) row)
         (tb_rows self)"

subsection \<open>Alignment\<close>

text \<open>Every cell, and every title, fits into its column.\<close>
definition table_fits :: "table \<Rightarrow> bool" where
  "table_fits t \<longleftrightarrow> (\<forall>c \<in> set (tb_columns t). length (col_title c) \<le> col_width c)
     \<and> (\<forall>row \<in> set (tb_rows t). list_all2 (\<lambda>c cell. length cell \<le> col_width c)
          (take (length row) (tb_columns t)) (take (length (tb_columns t)) row))"

lemma expand_columns_length [simp]: "length (expand_columns cells columns) = length columns"
  by (induction cells columns rule: expand_columns.induct) auto

lemma expand_columns_nth:
  "i < length columns \<Longrightarrow> expand_columns cells columns ! i
     = (if i < length cells then column_expand (length (cells ! i)) (columns ! i) else columns ! i)"
proof (induction cells columns arbitrary: i rule: expand_columns.induct)
  case (1 cell cells column columns)
  then show ?case by (cases i) auto
qed auto

lemma column_expand_simps [simp]: "col_title (column_expand w c) = col_title c"
  "col_alignment (column_expand w c) = col_alignment c" "col_width (column_expand w c) = max w (col_width c)"
  by (simp_all add: column_expand_def)

lemma table_fits_iff: "table_fits t \<longleftrightarrow> (\<forall>c \<in> set (tb_columns t). length (col_title c) \<le> col_width c)
   \<and> (\<forall>row \<in> set (tb_rows t). \<forall>i. i < length row \<longrightarrow> i < length (tb_columns t) \<longrightarrow> length (row ! i) \<le> col_width (tb_columns t ! i))"
  by (auto simp: table_fits_def list_all2_conv_all_nth)

lemma table_fits_from: "table_fits (table_from titles)"
  by (auto simp: table_fits_def table_from_def column_from_title_def)

lemma table_fits_align: "i < length (tb_columns t) \<Longrightarrow> table_fits t \<Longrightarrow> table_fits (table_align i a t)"
  by (auto simp: table_fits_iff table_align_def nth_list_update dest!: set_update_subset_insert [THEN subsetD])

lemma table_fits_append: "table_fits t \<Longrightarrow> table_fits (append_row row t)"
  unfolding table_fits_iff append_row_def
  by (auto simp: expand_columns_nth in_set_conv_nth max_def intro: le_trans) (metis le_trans nat_le_linear nth_mem)+

lemma char_count_replicate [simp]: "char_count (replicate n CHR '' '') = n" "char_count (replicate n CHR ''-'') = n"
proof -
  have "\<not> utf8_continuation (CHR '' '')" "\<not> utf8_continuation (CHR ''-'')" by code_simp+
  then show "char_count (replicate n CHR '' '') = n" "char_count (replicate n CHR ''-'') = n"
    by (simp_all add: char_count_def)
qed

lemma char_count_space [simp]: "char_count '' '' = 1"
  using char_count_replicate(1) [of 1] by simp

text \<open>A cell that fits is padded to the width of its column, in characters.\<close>

lemma char_count_fmt:
  "char_count s \<le> w \<Longrightarrow> char_count (fmt_left w s) = w" "char_count s \<le> w \<Longrightarrow> char_count (fmt_right w s) = w"
  "char_count s \<le> w \<Longrightarrow> char_count (fmt_center w s) = w" "char_count s \<le> w \<Longrightarrow> char_count (fmt_dashes w s) = w"
  by (auto simp: fmt_left_def fmt_right_def fmt_center_def fmt_dashes_def Let_def)

lemma char_count_render_cell:
  assumes "length cell \<le> col_width c"
  shows "char_count (render_cell c cell) = col_width c + 2"
proof -
  have "char_count cell \<le> col_width c" using assms char_count_le [of cell] by linarith
  then show ?thesis by (cases "col_alignment c") (simp_all add: render_cell_def char_count_fmt)
qed

definition table_width :: "table \<Rightarrow> nat" where
  "table_width t = sum_list (map (\<lambda>c. col_width c + 2) (tb_columns t))"

lemma char_count_render_cells:
  "length cells = length columns \<Longrightarrow> \<forall>i < length columns. length (cells ! i) \<le> col_width (columns ! i) \<Longrightarrow>
   char_count (render_cells render_cell columns cells) = sum_list (map (\<lambda>c. col_width c + 2) columns)"
proof (induction cells columns rule: list_induct2)
  case (Cons cell cells column columns)
  from Cons.prems have "length cell \<le> col_width column" by auto
  moreover from Cons.prems have "\<forall>i < length columns. length (cells ! i) \<le> col_width (columns ! i)" by fastforce
  ultimately show ?case using Cons.IH by (simp add: char_count_render_cell)
qed simp

lemma table_render_aligned:
  assumes "table_fits t" and "\<forall>row \<in> set (tb_rows t). length row = length (tb_columns t)"
  shows "\<forall>line \<in> set (table_render t). char_count line = table_width t"
proof -
  have "char_count (concat (map f cs)) = sum_list (map (\<lambda>c. col_width c + 2) cs)"
    if "\<forall>c \<in> set cs. char_count (f c) = col_width c + 2" for f and cs :: "column list"
    using that by (induction cs) auto
  moreover have "char_count (fmt_left (col_width c + 2) (col_title c)) = col_width c + 2" if "c \<in> set (tb_columns t)" for c
    using assms(1) that char_count_le [of "col_title c"] by (intro char_count_fmt) (fastforce simp: table_fits_def)
  moreover have "char_count (fmt_dashes (col_width c + 2) '' '') = col_width c + 2" for c :: column
    by (intro char_count_fmt) simp
  moreover have "char_count (render_cells render_cell (tb_columns t) row) = table_width t" if "row \<in> set (tb_rows t)" for row
    unfolding table_width_def by (rule char_count_render_cells) (use assms that in \<open>auto simp: table_fits_iff\<close>)
  ultimately show ?thesis by (auto simp: table_render_def table_width_def)
qed

end
