(* ===== verification/App.thy ===== *)
theory App
  imports Sources CollateralFs Decode Analysis Table
begin

text \<open>
  The command line application: \<open>app/src/*.rs\<close>, and the texts it prints (\<open>Display\<close> of errors in
  \<open>lib/src/error.rs\<close> and of CPER sections in \<open>lib/src/cper/section.rs\<close>, \<open>section/fer.rs\<close>). The command
  line is given as parsed, since its parser is generated by the crate \<open>clap\<close>. The standard output is
  a list of texts and of displayed paths; log messages are left out. A function that writes files
  returns the new file system, and \<open>None\<close> is a panic, or a loop that has run out of fuel.
\<close>

subsection \<open>Messages\<close>

text \<open>\<open>Display\<close> for \<open>Error\<close>; the texts of \<open>Utf8Error\<close> and of a quoted \<open>OsString\<close> are parameters.\<close>
fun int_error_show :: "int_error \<Rightarrow> string" where
  "int_error_show Empty = ''cannot parse integer from empty string''"
| "int_error_show InvalidDigit = ''invalid digit found in string''"
| "int_error_show PosOverflow = ''number too large to fit in target type''"

fun error_show :: "(nat \<Rightarrow> string) \<Rightarrow> (string \<Rightarrow> string) \<Rightarrow> error \<Rightarrow> string" where
  "error_show U D Unsupported = ''Feature unsupported on this device''"
| "error_show U D InternalError = ''Internal error in the Crash Log library''"
| "error_show U D NoCrashLogFound = ''No Crash Log could be found''"
| "error_show U D NoCrashLogSourceFound = ''No Crash Log source could be found''"
| "error_show U D InvalidCrashLog = ''The Crash Log is invalid''"
| "error_show U D (MissingCollateral pvss item) =
     ''Missing '' @ item_show item @ '' collateral file for '' @ pvss_show pvss"
| "error_show U D (MissingDecodeDefinitions version) = ''Missing decode definitions for '' @ version_show version"
| "error_show U D InvalidBootErrorRecordRegion = ''Invalid Boot Error Record region''"
| "error_show U D InvalidHeader = ''Invalid Crash Log Header''"
| "error_show U D EmptyRegion = ''The Crash Log Region is not populated''"
| "error_show U D (InvalidHeaderType ht) = ''Invalid Crash Log Header Type: '' @ show_dec (unat ht)"
| "error_show U D (InvalidRecordType rt) = ''Unknown Crash Log Record Type: 0x'' @ show_hex (unat rt)"
| "error_show U D (InvalidProductID pid) = ''Unknown Crash Log Product ID: 0x'' @ show_hex (unat pid)"
| "error_show U D (JsonError err) = ''Invalid JSON file: '' @ err"
| "error_show U D (Utf8Error n) = ''UTF8 Error: '' @ U n"
| "error_show U D (ParseIntError err) = ''Error while parsing integer: '' @ int_error_show err"
| "error_show U D (IOError err) = ''Encountered IO error: '' @ err"
| "error_show U D (OsStringError s) = ''Cannot convert OS string: '' @ D s"

definition fer_show :: "'g uguid \<Rightarrow> 'g fer \<Rightarrow> string" where
  "fer_show G fer = (if fh_guid (fer_header fer) = RECORD_ID_CRASHLOG G then ''Intel Crash Log Region''
     else guid_show G (fh_guid (fer_header fer)))"

fun section_body_show :: "'g uguid \<Rightarrow> 'g section_body \<Rightarrow> string" where
  "section_body_show G (FirmwareErrorRecord fer) = ''Firmware Error Record - '' @ fer_show G fer"
| "section_body_show G (UnknownSection _ _) = ''Unknown''"

datatype printed = Text string | Display path

definition println :: "string \<Rightarrow> printed" where
  "println s = Text (s @ [CHR 0x0A])"

subsection \<open>Information on the records\<close>

text \<open>\<open>{:#05x}\<close> and \<open>{:#04x}\<close>\<close>
definition fmt_hex :: "nat \<Rightarrow> nat \<Rightarrow> string" where
  "fmt_hex w n = ''0x'' @ zero_pad (w - 2) (show_hex n)"

definition record_product :: "collateral_manager \<Rightarrow> header \<Rightarrow> string" where
  "record_product cm h = (case header_product h cm of
     Inr product \<Rightarrow> product @ ''/'' @ option_or (header_variant h cm) ''all''
   | Inl _ \<Rightarrow> fmt_hex 5 (unat (header_product_id h)))"

definition record_type_text :: "header \<Rightarrow> string" where
  "record_type_text h = (case header_record_type h of
     Inr record_type \<Rightarrow> record_type
   | Inl _ \<Rightarrow> fmt_hex 4 (unat (ver_record_type (hdr_version h))))"

definition checksum_text :: "crash_record \<Rightarrow> string" where
  "checksum_text record = (case record_checksum record of
     None \<Rightarrow> [] | Some check \<Rightarrow> if check then ''Valid'' else ''Invalid'')"

definition die_text :: "collateral_manager \<Rightarrow> header \<Rightarrow> string" where
  "die_text cm h = (case header_die h cm of
     Some die \<Rightarrow> die
   | None \<Rightarrow> (case header_die_id h of Some die_id \<Rightarrow> show_dec (unat die_id) | None \<Rightarrow> []))"

text \<open>The records with the numbers of the region and of the record in it\<close>
definition numbered_records :: "'g crashlog \<Rightarrow> (nat \<times> nat \<times> crash_record) list" where
  "numbered_records crashlog =
     concat (map (\<lambda>(i, region). map (\<lambda>(j, record). (i, j, record)) (enumerate 0 (reg_records region)))
       (enumerate 0 (cl_regions crashlog)))"

definition sections_table :: "'g uguid \<Rightarrow> 'g crashlog \<Rightarrow> table" where
  "sections_table G crashlog =
     fold (\<lambda>(i, s). append_row [show_dec i, guid_show G (section_body_guid G s), show_dec (section_body_len s),
         section_body_show G s])
       (enumerate 0 (md_extra_cper_sections (cl_metadata crashlog)))
       (table_from [''#'', ''CPER Section GUID'', ''Length'', ''Description''])"

definition compact_table :: "collateral_manager \<Rightarrow> 'g crashlog \<Rightarrow> table" where
  "compact_table cm crashlog =
     (let table = table_from [''  # '', ''Record Type'', ''Rev.'', ''Product'', ''Size'', ''Skt'', ''Checksum'', ''Die''];
          table = table_align 0 AlignCenter table;
          table = table_align 2 AlignRight table;
          table = table_align 4 AlignRight table;
          table = table_align 5 AlignRight table
      in fold (\<lambda>(i, j, record). let h = rec_header record in
           append_row [show_dec i @ ''-'' @ show_dec j, record_type_text h, show_dec (unat (header_revision h)),
             record_product cm h, show_dec (header_record_size h), show_dec (unat (header_socket_id h)),
             checksum_text record, die_text cm h]) (numbered_records crashlog) table)"

definition read_crashlog :: "'g uguid \<Rightarrow> fs \<Rightarrow> path \<Rightarrow> error + 'g crashlog" where
  "read_crashlog G fs input = rbind (io_result (fs_read fs input)) (crashlog_from_slice G)"

definition info_compact :: "'g uguid \<Rightarrow> collateral_manager \<Rightarrow> fs \<Rightarrow> path \<Rightarrow> error + printed list" where
  "info_compact G cm fs input = rbind (read_crashlog G fs input) (\<lambda>crashlog.
     Inr (map println (table_render (compact_table cm crashlog))
       @ (if md_extra_cper_sections (cl_metadata crashlog) = [] then []
          else println [] # map println (table_render (sections_table G crashlog)))))"

definition markdown_table :: "collateral_manager \<Rightarrow> 'g crashlog \<Rightarrow> table" where
  "markdown_table cm crashlog =
     fold (\<lambda>(i, j, record). let h = rec_header record in
         append_row [show_dec i, show_dec j, record_type_text h, show_dec (unat (header_revision h)),
           record_product cm h, show_dec (header_record_size h), show_dec (unat (header_socket_id h)),
           checksum_text record, die_text cm h]) (numbered_records crashlog)
       (table_from [''Region'', ''Record'', ''Record Type'', ''Revision'', ''Product'', ''Size'', ''Socket'', ''Checksum'', ''Die''])"

definition info_markdown :: "'g uguid \<Rightarrow> collateral_manager \<Rightarrow> fs \<Rightarrow> path \<Rightarrow> error + printed list" where
  "info_markdown G cm fs input = rbind (read_crashlog G fs input) (\<lambda>crashlog.
     Inr ([println (''### Crash Log Records'' @ [CHR 0x0A])]
       @ map println (render_markdown (markdown_table cm crashlog))
       @ (if md_extra_cper_sections (cl_metadata crashlog) = [] then []
          else println ([CHR 0x0A] @ ''### Extra CPER Sections'' @ [CHR 0x0A])
            # map println (render_markdown (sections_table G crashlog)))))"

datatype info_format = Compact | Markdown

text \<open>\<open>info\<close>; \<open>E\<close> displays an error.\<close>
definition info :: "'g uguid \<Rightarrow> (error \<Rightarrow> string) \<Rightarrow> collateral_manager \<Rightarrow> fs \<Rightarrow> path list \<Rightarrow> info_format
    \<Rightarrow> printed list" where
  "info G E cm fs input_files format = (case format of
     Compact \<Rightarrow> concat (map (\<lambda>input_file.
       (if length input_files > 1 then [Text [CHR 0x0A], Display input_file, Text ('':'' @ [CHR 0x0A, CHR 0x0A])] else [])
       @ (case info_compact G cm fs input_file of Inl err \<Rightarrow> [] | Inr out \<Rightarrow> out)) input_files)
   | Markdown \<Rightarrow> concat (map (\<lambda>input_file.
       [Text ([CHR 0x0A] @ ''## `''), Display input_file, Text (''`'' @ [CHR 0x0A, CHR 0x0A])]
       @ (case info_markdown G cm fs input_file of
            Inl err \<Rightarrow> [println ([CHR 0x0A] @ ''```'' @ [CHR 0x0A] @ E err @ [CHR 0x0A] @ ''```'')]
          | Inr out \<Rightarrow> out)) input_files))"

subsection \<open>Decoding and triage\<close>

definition app_decode :: "'g uguid \<Rightarrow> (json \<Rightarrow> error + string) \<Rightarrow> fs \<Rightarrow> collateral_manager \<Rightarrow> path
    \<Rightarrow> ((error + printed list) \<times> collateral_manager) option" where
  "app_decode G to_writer_pretty fs cm input =
     (case read_crashlog G fs input of
        Inl e \<Rightarrow> Some (Inl e, cm)
      | Inr crashlog \<Rightarrow> do {
          (nodes, cm) \<leftarrow> crashlog_decode crashlog cm;
          Some (rbind (to_writer_pretty (node_serialize nodes)) (\<lambda>s. Inr [Text s]), cm) })"

definition triage_file :: "'g uguid \<Rightarrow> fs \<Rightarrow> collateral_manager \<Rightarrow> path
    \<Rightarrow> ((error + printed list) \<times> collateral_manager) option" where
  "triage_file G fs cm input =
     (case read_crashlog G fs input of
        Inl e \<Rightarrow> Some (Inl e, cm)
      | Inr crashlog \<Rightarrow> do {
          (nodes, cm) \<leftarrow> crashlog_decode crashlog cm;
          let tags = analyzer_analyze (with_input analyzer_default nodes);
          Some (Inr (map (\<lambda>tag. println (tag_show tag)) tags), cm) })"

text \<open>The loop of \<open>triage_files\<close>; \<open>several\<close> is \<open>input_files.len() > 1\<close>.\<close>
fun triage_files_loop :: "'g uguid \<Rightarrow> fs \<Rightarrow> bool \<Rightarrow> path list \<Rightarrow> collateral_manager \<Rightarrow> printed list
    \<Rightarrow> (printed list \<times> collateral_manager) option" where
  "triage_files_loop G fs several [] cm out = Some (out, cm)"
| "triage_files_loop G fs several (input_file # input_files) cm out = do {
     let out = out @ (if several then [Text [CHR 0x0A], Display input_file, println '':''] else []);
     (result, cm) \<leftarrow> triage_file G fs cm input_file;
     triage_files_loop G fs several input_files cm (out @ (case result of Inl _ \<Rightarrow> [] | Inr shown \<Rightarrow> shown)) }"

definition triage_files :: "'g uguid \<Rightarrow> fs \<Rightarrow> collateral_manager \<Rightarrow> path list
    \<Rightarrow> (printed list \<times> collateral_manager) option" where
  "triage_files G fs cm input_files = triage_files_loop G fs (length input_files > 1) input_files cm []"

subsection \<open>Sources\<close>

definition list_sources :: "target_os \<Rightarrow> fs \<Rightarrow> printed list" where
  "list_sources os fs =
     (let sources = source_discover os fs in
      if sources = [] then [println ''No available Crash Log sources found.'']
      else map println (table_render (fold (\<lambda>source. append_row [source_show source, source_description source,
          concat (tl (concat (map (\<lambda>c. ['', '', capability_show c]) (sorted_list_of_set (source_capabilities os fs source)))))])
        sources (table_from [''Source'', ''Description'', ''Capabilities'']))))"

fun control_command :: "(crash_log_source \<Rightarrow> fs \<Rightarrow> (error + unit) \<times> fs) \<Rightarrow> crash_log_source list \<Rightarrow> fs
    \<Rightarrow> (error + unit) \<times> fs" where
  "control_command control [] fs = (Inr (), fs)"
| "control_command control (source # sources) fs =
     (case control source fs of
        (Inl e, fs) \<Rightarrow> (Inl e, fs)
      | (Inr _, fs) \<Rightarrow> control_command control sources fs)"

subsection \<open>Logging\<close>

datatype level_filter = LevelError | LevelWarn | LevelInfo | LevelDebug | LevelTrace

text \<open>The level of the log messages for a number of \<open>-v\<close>, in both applications\<close>
definition log_level :: "nat \<Rightarrow> level_filter" where
  "log_level verbosity =
     (if verbosity = 0 then LevelError else if verbosity = 1 then LevelWarn else if verbosity = 2 then LevelInfo
      else if verbosity = 3 then LevelDebug else LevelTrace)"

end
