(* ===== verification/FileWrite.thy ===== *)
theory FileWrite
  imports FileSystem
begin

text \<open>
  What \<open>std::fs::write\<close> leaves of the file system: nothing that could be named before goes away, the
  new file reads back, and the contents of the other files stay.
\<close>

text \<open>Every entry is kept, up to the contents of files and the entries added to directories.\<close>
definition extends :: "fs_node \<Rightarrow> fs_node \<Rightarrow> bool" where
  "extends root root' \<longleftrightarrow> (\<forall>q n. node_at root q = Some n \<longrightarrow>
     (\<exists>n'. node_at root' q = Some n' \<and> shape n' = shape n))"

lemma extends_refl [simp]: "extends root root"
  by (simp add: extends_def)

lemma extends_trans: "extends a b \<Longrightarrow> extends b c \<Longrightarrow> extends a c"
  unfolding extends_def by metis

lemma extends_shape:
  "extends root root' \<Longrightarrow> map_option shape (node_at root q) = Some s \<Longrightarrow> map_option shape (node_at root' q) = Some s"
  unfolding extends_def by fastforce

lemma shape_Dir_cases: "map_option shape (node_at root q) = Some (Dir x) \<Longrightarrow> x = []"
  by (auto simp: shape_eq_iff)

lemma extends_walk:
  assumes "extends root root'"
  shows "walk root k cur cs = Inr names \<Longrightarrow> walk root' k cur cs = Inr names"
  using assms
proof (induction root k cur cs rule: walk.induct)
  case (1 root k cur)
  then show ?case by simp
next
  case (2 root k cur c cs)
  note ext = extends_shape [OF "2.prems"(2)]
  from "2.prems"(1) obtain es where dir: "map_option shape (node_at root cur) = Some (Dir es)"
    by (auto split: option.splits fs_node.splits)
  note dir' = ext [OF dir]
  show ?case
  proof (cases "c = [] \<or> c = ''.'' \<or> c = ''..''")
    case True
    then show ?thesis using 2 dir dir' by (auto simp del: map_option_eq_Some)
  next
    case plain: False
    then obtain m where m: "map_option shape (node_at root (cur @ [c])) = Some m"
      using "2.prems" dir by (auto split: option.splits)
    note m' = ext [OF m]
    show ?thesis
    proof (cases "\<exists>p. m = Link p")
      case True
      then obtain p where p: "m = Link p" ..
      have k: "k \<noteq> 0" using "2.prems" plain dir m p by (auto split: if_splits)
      have "walk root' (k - 1) (if path_abs p then [] else cur) (path_names p @ cs) = Inr names"
        by (rule "2.IH"(5)) (use "2.prems" plain dir m p k in auto)
      then show ?thesis using plain dir' m' p k by (simp del: map_option_eq_Some)
    next
      case False
      then show ?thesis using 2 dir plain m dir' m' by (cases m) (auto simp del: map_option_eq_Some)
    qed
  qed
qed

text \<open>A file that is created, or that exists, is what its path names afterwards.\<close>

lemma walk_new_walk:
  assumes "extends root root'" and there: "node_at root' names = Some (File b)"
  shows "walk_new root k cur cs = Inr names \<Longrightarrow> walk root' k cur cs = Inr names"
  using assms
proof (induction root k cur cs rule: walk_new.induct)
  case (1 root k cur)
  then show ?case by simp
next
  case (2 root k cur c cs)
  note ext = extends_shape [OF "2.prems"(2)]
  from "2.prems"(1) obtain es where dir: "map_option shape (node_at root cur) = Some (Dir es)"
    by (auto split: option.splits fs_node.splits)
  note dir' = ext [OF dir]
  show ?case
  proof (cases "c = [] \<or> c = ''.'' \<or> c = ''..''")
    case True
    then show ?thesis using 2 dir dir' by (auto simp del: map_option_eq_Some)
  next
    case plain: False
    show ?thesis
    proof (cases "map_option shape (node_at root (cur @ [c]))")
      case None
      then have "cs = []" "names = cur @ [c]" using "2.prems"(1) dir plain by (auto split: if_splits)
      then show ?thesis using dir' plain there by (cases "map_option shape (node_at root' (cur @ [c]))") auto
    next
      case (Some m)
      note m = Some
      note m' = ext [OF m]
      show ?thesis
      proof (cases "\<exists>p. m = Link p")
        case True
        then obtain p where p: "m = Link p" ..
        have k: "k \<noteq> 0" using "2.prems" plain dir m p by (auto split: if_splits)
        have "walk root' (k - 1) (if path_abs p then [] else cur) (path_names p @ cs) = Inr names"
          by (rule "2.IH"(5)) (use "2.prems" plain dir m p k in auto)
        then show ?thesis using plain dir' m' p k by (simp del: map_option_eq_Some)
      next
        case False
        then show ?thesis using 2 dir plain m dir' m' by (cases m) (auto simp del: map_option_eq_Some)
      qed
    qed
  qed
qed

subsection \<open>Adding an entry\<close>

lemma node_set_extends:
  "node_at root d = Some (Dir es) \<Longrightarrow> map_of es c = None \<Longrightarrow>
   extends root (node_set root d (Dir (es @ [(c, n)])))"
proof (induction root d rule: node_at.induct)
  case (1 root)
  have "node_at (Dir (es @ [(c, n)])) q = Some m'" if "node_at (Dir es) q = Some m'" "q \<noteq> []" for q m'
    using that by (cases q) (auto simp: map_add_def split: option.splits)
  then show ?case using 1 unfolding extends_def
    by (metis (no_types, lifting) node_at.simps(1) node_set.simps(1) option.inject shape_simps(2))
next
  case (2 fs a as)
  then obtain m where m: "map_of fs a = Some m" "node_at m as = Some (Dir es)" by (auto split: option.splits)
  with 2 have ext: "extends m (node_set m as (Dir (es @ [(c, n)])))" by simp
  show ?case unfolding extends_def
  proof (intro allI impI)
    fix q n'
    assume "node_at (Dir fs) q = Some n'"
    with ext m show "\<exists>n''. node_at (node_set (Dir fs) (a # as) (Dir (es @ [(c, n)]))) q = Some n'' \<and> shape n'' = shape n'"
      by (cases q) (auto simp: extends_def update_conv split: option.splits)
  qed
qed auto

lemma node_set_keeps_files:
  "node_at root d = Some (Dir es) \<Longrightarrow> map_of es c = None \<Longrightarrow> node_at root q = Some (File b) \<Longrightarrow>
   node_at (node_set root d (Dir (es @ [(c, n)]))) q = Some (File b)"
proof (induction root d arbitrary: q rule: node_at.induct)
  case (1 root)
  then show ?case by (cases q) (auto simp: map_add_def split: option.splits)
next
  case (2 fs a as)
  then show ?case by (cases q) (auto simp: update_conv split: option.splits)
qed auto

text \<open>The number of directory entries of a tree\<close>
fun tree_entries :: "fs_node \<Rightarrow> nat" where
  "tree_entries (Dir es) = (\<Sum>(name, m) \<leftarrow> es. Suc (tree_entries m))"
| "tree_entries n = 0"

lemma tree_entries_Dir: "length es \<le> tree_entries (Dir es)"
  by (induction es) auto

lemma tree_entries_child: "map_of es c = Some m \<Longrightarrow> tree_entries m \<le> tree_entries (Dir es)"
  by (induction es) (auto split: if_splits)

lemma tree_entries_node_at: "node_at root q = Some n \<Longrightarrow> tree_entries n \<le> tree_entries root"
proof (induction root q rule: node_at.induct)
  case (2 es c cs)
  then obtain m where "map_of es c = Some m" "tree_entries n \<le> tree_entries m" by (auto split: option.splits)
  with tree_entries_child [of es c m] show ?case by linarith
qed auto

lemma tree_entries_update:
  "map_of es c = Some m \<Longrightarrow> tree_entries m' \<le> Suc (tree_entries m) \<Longrightarrow>
   tree_entries (Dir (AList.update c m' es)) \<le> Suc (tree_entries (Dir es))"
  by (induction es) (auto split: if_splits)

lemma tree_entries_node_set:
  "node_at root d = Some n \<Longrightarrow> tree_entries n' \<le> Suc (tree_entries n) \<Longrightarrow>
   tree_entries (node_set root d n') \<le> Suc (tree_entries root)"
proof (induction root d rule: node_at.induct)
  case (2 es c cs)
  then obtain m where m: "map_of es c = Some m" "node_at m cs = Some n" by (auto split: option.splits)
  with 2 have "tree_entries (node_set m cs n') \<le> Suc (tree_entries m)" by simp
  from tree_entries_update [OF m(1) this] show ?case using m by simp
qed auto

subsection \<open>The effect of a write\<close>

definition fs_extends :: "fs \<Rightarrow> fs \<Rightarrow> bool" where
  "fs_extends fs fs' \<longleftrightarrow> fs_cwd fs' = fs_cwd fs \<and> extends (fs_root fs) (fs_root fs')"

lemma fs_extends_refl [simp]: "fs_extends fs fs"
  by (simp add: fs_extends_def)

lemma fs_extends_trans: "fs_extends a b \<Longrightarrow> fs_extends b c \<Longrightarrow> fs_extends a c"
  using extends_trans by (auto simp: fs_extends_def)

lemma same_shape_extends: "same_shape fs fs' \<Longrightarrow> fs_extends fs fs'"
  using shape_same_shape [of fs fs'] unfolding fs_extends_def extends_def same_shape_def
  by (metis map_option_eq_Some option.simps(9))

lemma canonicalize_extends: "fs_extends fs fs' \<Longrightarrow> canonicalize fs p = Inr names \<Longrightarrow> canonicalize fs' p = Inr names"
  using extends_walk by (auto simp: fs_extends_def canonicalize_def split: if_splits)

text \<open>What is true after a write to a path where nothing exists\<close>

lemma fs_entry_Inr:
  "fs_entry fs p = Inr n \<longleftrightarrow> (\<exists>names. canonicalize fs p = Inr names \<and> node_at (fs_root fs) names = Some n)"
  by (cases "canonicalize fs p") (auto simp: fs_entry_def split: option.splits)

lemma fs_exists_file: "canonicalize fs p = Inr names \<Longrightarrow> node_at (fs_root fs) names = Some (File b) \<Longrightarrow> fs_exists fs p"
  by (simp add: fs_exists_def fs_entry_def)

lemma fs_write_Err: "fs_write fs p data = (Inl e, fs') \<Longrightarrow> fs' = fs"
  by (auto simp: fs_write_def split: if_splits sum.splits option.splits fs_node.splits)

lemma fs_write_new:
  assumes new: "\<not> fs_exists fs p" and ok: "fs_write fs p data = (Inr (), fs')"
  obtains d c es where
    "walk_new (fs_root fs) max_symlinks (if path_abs p then [] else fs_cwd fs) (path_names p) = Inr (d @ [c])"
    "node_at (fs_root fs) d = Some (Dir es)" "map_of es c = None"
    "fs' = fs\<lparr>fs_root := node_set (fs_root fs) d (Dir (es @ [(c, File data)]))\<rparr>"
    "path_abs p \<or> \<not> set (path_names p) \<subseteq> {[]}"
proof -
  from ok obtain names where p: "path_abs p \<or> \<not> set (path_names p) \<subseteq> {[]}"
    and names: "walk_new (fs_root fs) max_symlinks (if path_abs p then [] else fs_cwd fs) (path_names p) = Inr names"
    by (auto simp: fs_write_def split: if_splits sum.splits)
  have "node_at (fs_root fs) names = None"
  proof (rule ccontr)
    assume "node_at (fs_root fs) names \<noteq> None"
    then obtain b where b: "node_at (fs_root fs) names = Some (File b)"
      using ok p names by (auto simp: fs_write_def split: if_splits option.splits fs_node.splits)
    from walk_new_walk [OF extends_refl b names] p have "canonicalize fs p = Inr names"
      by (auto simp: canonicalize_def)
    with b new show False by (simp add: fs_exists_file)
  qed
  moreover then have "names \<noteq> []" by auto
  then obtain d c where dc: "names = d @ [c]" by (metis rev_exhaust)
  ultimately show thesis
    using ok p names that
    by (auto simp: fs_write_def node_at_append split: if_splits option.splits fs_node.splits)
qed

lemma fs_write_new_effect:
  assumes new: "\<not> fs_exists fs p" and ok: "fs_write fs p data = (Inr (), fs')"
  shows "fs_extends fs fs'" "fs_read fs' p = Inr data" "fs_is_file fs' p"
    "tree_entries (fs_root fs') \<le> Suc (tree_entries (fs_root fs))"
    "node_at (fs_root fs) q = Some (File b) \<Longrightarrow> node_at (fs_root fs') q = Some (File b)"
proof -
  from new ok obtain d c es where w: "walk_new (fs_root fs) max_symlinks (if path_abs p then [] else fs_cwd fs) (path_names p)
      = Inr (d @ [c])"
    and d: "node_at (fs_root fs) d = Some (Dir es)" and c: "map_of es c = None"
    and fs': "fs' = fs\<lparr>fs_root := node_set (fs_root fs) d (Dir (es @ [(c, File data)]))\<rparr>"
    and p: "path_abs p \<or> \<not> set (path_names p) \<subseteq> {[]}"
    by (rule fs_write_new)
  show ext: "fs_extends fs fs'" using node_set_extends [OF d c] by (simp add: fs_extends_def fs')
  have at: "node_at (fs_root fs') (d @ [c]) = Some (File data)"
    using c by (simp add: fs' node_at_append node_at_node_set [OF d] map_add_def)
  from walk_new_walk [OF _ at w] ext p have canon: "canonicalize fs' p = Inr (d @ [c])"
    by (auto simp: canonicalize_def fs_extends_def)
  from canon at show "fs_read fs' p = Inr data" "fs_is_file fs' p"
    by (simp_all add: fs_read_canonical fs_is_file_def fs_entry_def)
  show "tree_entries (fs_root fs') \<le> Suc (tree_entries (fs_root fs))"
    using tree_entries_node_set [OF d, of "Dir (es @ [(c, File data)])"] by (simp add: fs')
  show "node_at (fs_root fs') q = Some (File b)" if "node_at (fs_root fs) q = Some (File b)"
    using node_set_keeps_files [OF d c that] by (simp add: fs')
qed

lemma fs_write_new_cases:
  assumes "\<not> fs_exists fs p" "fs_write fs p data = (r, fs')"
  shows "fs_extends fs fs'" "tree_entries (fs_root fs') \<le> Suc (tree_entries (fs_root fs))"
    "node_at (fs_root fs) q = Some (File b) \<Longrightarrow> node_at (fs_root fs') q = Some (File b)"
    "r = Inr () \<Longrightarrow> fs_read fs' p = Inr data" "fs_is_file fs' p \<or> fs' = fs"
  using assms fs_write_new_effect [of fs p data fs'] fs_write_Err [of fs p data _ fs']
  by (cases r; auto)+

subsection \<open>Names of a directory\<close>

text \<open>The names that exist behind one directory path are entries of it: there are only so many.\<close>

lemma walk_prefix: "walk root k cur (cs @ ds) = Inr names \<Longrightarrow> \<exists>d. walk root k cur cs = Inr d"
proof (induction root k cur cs rule: walk.induct)
  case (1 root k cur)
  then show ?case by simp
next
  case (2 root k cur c cs)
  then obtain es where dir: "map_option shape (node_at root cur) = Some (Dir es)"
    by (auto split: option.splits fs_node.splits)
  show ?case
  proof (cases "c = [] \<or> c = ''.'' \<or> c = ''..''")
    case True
    then show ?thesis using 2 dir by (auto simp del: map_option_eq_Some)
  next
    case plain: False
    then obtain m where m: "map_option shape (node_at root (cur @ [c])) = Some m"
      using "2.prems" dir by (auto split: option.splits)
    show ?thesis
    proof (cases "\<exists>p. m = Link p")
      case True
      then obtain p where p: "m = Link p" ..
      have k: "k \<noteq> 0" using "2.prems" plain dir m p by (auto split: if_splits)
      have "\<exists>d. walk root (k - 1) (if path_abs p then [] else cur) (path_names p @ cs) = Inr d"
        by (rule "2.IH"(5)) (use "2.prems" plain dir m p k in auto)
      then show ?thesis using plain dir m p k by (simp del: map_option_eq_Some)
    next
      case False
      then show ?thesis using 2 dir plain m by (cases m) (auto simp del: map_option_eq_Some)
    qed
  qed
qed

lemma walk_last_entry:
  assumes "walk root k cur (cs @ [c]) = Inr names" and c: "c \<noteq> []" "c \<noteq> ''.''" "c \<noteq> ''..''"
  obtains d es where "walk root k cur cs = Inr d" "node_at root d = Some (Dir es)" "map_of es c \<noteq> None"
proof -
  from walk_prefix [OF assms(1)] obtain d where d: "walk root k cur cs = Inr d" ..
  from walk_append [OF d, of "[c]"] assms(1) obtain j where "walk root j d [c] = Inr names" by auto
  with c obtain es where "node_at root d = Some (Dir es)" "map_of es c \<noteq> None"
    by (auto simp: shape_eq_iff node_at_append split: option.splits fs_node.splits)
  with d that show thesis by blast
qed

lemma existing_names_bounded:
  assumes exist: "\<And>c. c \<in> C \<Longrightarrow> fs_exists fs (Path a (pre @ [c]))"
    and plain: "\<And>c. c \<in> C \<Longrightarrow> c \<noteq> [] \<and> c \<noteq> ''.'' \<and> c \<noteq> ''..''"
  shows "finite C \<and> card C \<le> tree_entries (fs_root fs)"
proof (cases "C = {}")
  case False
  define cur where "cur = (if a then [] else fs_cwd fs)"
  have at: "\<exists>d es. walk (fs_root fs) max_symlinks cur pre = Inr d \<and> node_at (fs_root fs) d = Some (Dir es)
      \<and> c \<in> set (map fst es)" if c: "c \<in> C" for c
  proof -
    from exist [OF c] obtain names where "walk (fs_root fs) max_symlinks cur (pre @ [c]) = Inr names"
      by (auto simp: fs_exists_def fs_entry_Inr canonicalize_def cur_def split: sum.splits if_splits)
    from walk_last_entry [OF this] plain [OF c] show ?thesis by (metis map_of_eq_None_iff list.set_map)
  qed
  from False obtain c where "c \<in> C" by auto
  from at [OF this] obtain d es where d: "walk (fs_root fs) max_symlinks cur pre = Inr d"
    "node_at (fs_root fs) d = Some (Dir es)" by blast
  with at have "C \<subseteq> set (map fst es)" by fastforce
  then have "finite C" "card C \<le> card (set (map fst es))" by (auto intro: card_mono finite_subset)
  moreover have "card (set (map fst es)) \<le> length es" using card_length [of "map fst es"] by simp
  moreover have "length es \<le> tree_entries (fs_root fs)"
    using tree_entries_Dir [of es] tree_entries_node_at [OF d(2)] by linarith
  ultimately show ?thesis by linarith
qed simp

lemma fs_is_dir_extends: "fs_extends fs fs' \<Longrightarrow> fs_is_dir fs p \<Longrightarrow> fs_is_dir fs' p"
proof -
  assume ext: "fs_extends fs fs'" and "fs_is_dir fs p"
  then obtain names es where names: "canonicalize fs p = Inr names" "node_at (fs_root fs) names = Some (Dir es)"
    by (auto simp: fs_is_dir_def fs_entry_Inr split: sum.splits fs_node.splits)
  from ext names(2) obtain n where "node_at (fs_root fs') names = Some n" "shape n = Dir []"
    unfolding fs_extends_def extends_def by fastforce
  with canonicalize_extends [OF ext names(1)] show ?thesis
    by (auto simp: fs_is_dir_def fs_entry_def shape_eq_iff)
qed

lemma fs_exists_extends: "fs_extends fs fs' \<Longrightarrow> fs_exists fs p \<Longrightarrow> fs_exists fs' p"
proof -
  assume ext: "fs_extends fs fs'" and "fs_exists fs p"
  then obtain names n where names: "canonicalize fs p = Inr names" "node_at (fs_root fs) names = Some n" "n \<noteq> Fault"
    by (auto simp: fs_exists_def fs_entry_Inr split: sum.splits)
  from ext names(2) obtain n' where n': "node_at (fs_root fs') names = Some n'" "shape n' = shape n"
    unfolding fs_extends_def extends_def by blast
  with names(3) have "n' \<noteq> Fault" by (metis shape_eq_iff(2))
  with canonicalize_extends [OF ext names(1)] n'(1) show ?thesis by (simp add: fs_exists_def fs_entry_def)
qed

subsection \<open>A new file in a directory\<close>

lemma walk_new_append:
  "walk root k cur cs = Inr names \<Longrightarrow> \<exists>j. walk_new root k cur (cs @ ds) = walk_new root j names ds"
proof (induction root k cur cs arbitrary: names rule: walk.induct)
  case (1 root k cur)
  then show ?case by auto
next
  case (2 root k cur c cs)
  from "2.prems" obtain es where dir: "node_at root cur = Some (Dir es)"
    by (auto split: option.splits fs_node.splits simp: shape_eq_iff)
  show ?case
  proof (cases "c = [] \<or> c = ''.'' \<or> c = ''..''")
    case True
    then show ?thesis using 2 dir by auto
  next
    case plain: False
    then obtain m where m: "node_at root (cur @ [c]) = Some m"
      using "2.prems" dir by (auto split: option.splits)
    show ?thesis
    proof (cases "\<exists>p. m = Link p")
      case True
      then obtain p where p: "m = Link p" ..
      have k: "k \<noteq> 0" using "2.prems" plain dir m p by (auto split: if_splits)
      have "\<exists>j. walk_new root (k - 1) (if path_abs p then [] else cur) ((path_names p @ cs) @ ds) = walk_new root j names ds"
        by (rule "2.IH"(5)) (use "2.prems" plain dir m p k in auto)
      then show ?thesis using plain dir m p k by simp
    next
      case False
      then show ?thesis using 2 dir plain m by (cases m) auto
    qed
  qed
qed

text \<open>A directory whose entries are all files, directories or devices: what does not exist there can be created.\<close>
definition plain_dir :: "(string \<times> fs_node) list \<Rightarrow> bool" where
  "plain_dir es \<longleftrightarrow> (\<forall>(name, m) \<in> set es. case m of Link _ \<Rightarrow> False | Fault \<Rightarrow> False | _ \<Rightarrow> True)"

lemma write_in_dir:
  assumes dir: "walk (fs_root fs) max_symlinks (if a then [] else fs_cwd fs) pre = Inr d"
    and es: "node_at (fs_root fs) d = Some (Dir es)" and plain: "plain_dir es"
    and c: "plain_name c" and new: "\<not> fs_exists fs (Path a (pre @ [c]))"
  shows "fs_write fs (Path a (pre @ [c])) data = (Inr (), fs\<lparr>fs_root := node_set (fs_root fs) d (Dir (es @ [(c, File data)]))\<rparr>)"
proof -
  let ?cur = "if a then [] else fs_cwd fs"
  have not_link: "shape m = Link p \<Longrightarrow> m = Link p" for m p by (simp add: shape_eq_iff)
  have none: "map_of es c = None"
  proof (cases "map_of es c")
    case (Some m)
    with plain have m: "\<And>p. m \<noteq> Link p" "m \<noteq> Fault" by (force simp: plain_dir_def dest: map_of_SomeD)+
    from walk_append [OF dir, of "[c]"] obtain j where "walk (fs_root fs) max_symlinks ?cur (pre @ [c]) = walk (fs_root fs) j d [c]"
      by auto
    also have "\<dots> = Inr (d @ [c])"
      using c es Some m by (cases m) (auto simp: plain_name_def node_at_append)
    finally have "fs_exists fs (Path a (pre @ [c]))"
      using c es Some m by (auto simp: fs_exists_def fs_entry_def canonicalize_def plain_name_def node_at_append split: sum.splits)
    with new show ?thesis by simp
  qed
  from walk_new_append [OF dir, of "[c]"] obtain j where
    "walk_new (fs_root fs) max_symlinks ?cur (pre @ [c]) = walk_new (fs_root fs) j d [c]" by auto
  also have "\<dots> = Inr (d @ [c])" using c es none by (auto simp: plain_name_def node_at_append)
  finally show ?thesis
    using c es none by (auto simp: fs_write_def plain_name_def node_at_append)
qed

end
