(* ===== verification/AppExtract.thy ===== *)
theory AppExtract
  imports App FileWrite
begin

text \<open>
  The commands \<open>extract\<close> and \<open>unpack\<close> and the dispatch of the command line tool: \<open>app/src/extract.rs\<close>,
  \<open>unpack.rs\<close> and \<open>main.rs\<close>. The search for a free file name may run for ever, so it is a
  \<open>partial_function\<close>; its counter is an \<open>i32\<close> that wraps around, as in the release profile.
\<close>

subsection \<open>The file of a crash log\<close>

type_synonym i32 = "32 word"

definition extract_filename :: "'g metadata \<Rightarrow> i32 \<Rightarrow> string" where
  "extract_filename m idx =
     (if 0 < sint idx then metadata_show m @ ''-'' @ show_dec (unat idx) @ ''.crashlog''
      else metadata_show m @ ''.crashlog'')"

definition extract_path :: "fs \<Rightarrow> path option \<Rightarrow> string \<Rightarrow> path" where
  "extract_path fs output_path filename = (case output_path of
     Some p \<Rightarrow> if fs_is_dir fs p then path_push p filename else p
   | None \<Rightarrow> path_of_str filename)"

definition print_path :: "path \<Rightarrow> printed list" where
  "print_path p = [Display p, Text [CHR 0x0A]]"

text \<open>The loop over \<open>idx\<close>: the texts printed and the files written\<close>
partial_function (option) extract_loop :: "'g uguid \<Rightarrow> fs \<Rightarrow> path option \<Rightarrow> 'g crashlog \<Rightarrow> i32
    \<Rightarrow> (printed list \<times> fs) option" where
  "extract_loop G fs output_path crashlog idx =
     (let path = extract_path fs output_path (extract_filename (cl_metadata crashlog) idx) in
      if fs_exists fs path then
        (if (case output_path of Some p \<Rightarrow> fs_is_file fs p | None \<Rightarrow> False) then Some ([], fs)
         else extract_loop G fs output_path crashlog (idx + 1))
      else Some (print_path path, snd (fs_write fs path (crashlog_to_bytes G crashlog))))"

text \<open>The loop \<open>for crashlog in result\<close>\<close>
fun write_crashlogs :: "'g uguid \<Rightarrow> path option \<Rightarrow> 'g crashlog list \<Rightarrow> fs \<Rightarrow> (printed list \<times> fs) option" where
  "write_crashlogs G output_path [] fs = Some ([], fs)"
| "write_crashlogs G output_path (crashlog # result) fs = do {
     (out, fs) \<leftarrow> extract_loop G fs output_path crashlog 0;
     (rest, fs) \<leftarrow> write_crashlogs G output_path result fs;
     Some (out @ rest, fs) }"

text \<open>The loop \<open>for source in sources.iter()\<close>\<close>
fun extract_sources :: "(crash_log_source \<Rightarrow> (error + 'g crashlog list) option) \<Rightarrow> crash_log_source list
    \<Rightarrow> 'g crashlog list \<Rightarrow> 'g crashlog list option" where
  "extract_sources extract_source [] result = Some result"
| "extract_sources extract_source (source # sources) result = do {
     r \<leftarrow> extract_source source;
     extract_sources extract_source sources
       (case r of Inr crashlogs \<Rightarrow> result @ crashlogs | Inl err \<Rightarrow> result) }"

definition extract_result :: "'g uguid \<Rightarrow> target_os \<Rightarrow> fs \<Rightarrow> ('g, 't) efi_env \<Rightarrow> 'e win_api
    \<Rightarrow> crash_log_source list \<Rightarrow> 'g crashlog list option" where
  "extract_result G os fs efi api sources =
     (if sources = [] then
        (case os of
           Windows \<Rightarrow> do {
             r \<leftarrow> from_windows_event_logs G api None;
             Some (case r of Inr crashlogs \<Rightarrow> crashlogs | Inl err \<Rightarrow> []) }
         | Linux \<Rightarrow> Some (List.map_filter (\<lambda>crashlog. case crashlog of Inr c \<Rightarrow> Some c | Inl _ \<Rightarrow> None)
             [from_acpi_sysfs G fs, from_pmt_sysfs fs])
         | Uefi \<Rightarrow> Some [])
      else extract_sources (source_extract G os fs efi api) sources [])"

definition app_extract :: "'g uguid \<Rightarrow> target_os \<Rightarrow> ('g, 't) efi_env \<Rightarrow> 'e win_api \<Rightarrow> path option
    \<Rightarrow> crash_log_source list \<Rightarrow> fs \<Rightarrow> (printed list \<times> fs) option" where
  "app_extract G os efi api output_path sources fs = do {
     result \<leftarrow> extract_result G os fs efi api sources;
     write_crashlogs G output_path result fs }"

subsection \<open>Unpacking\<close>

text \<open>\<open>path.file_name()\<close>: the names after the last one, none of them significant, are left out. The
  current directory is significant only at the start of a relative path.\<close>
fun trim_names :: "bool \<Rightarrow> string list \<Rightarrow> string list" where
  "trim_names is_abs [] = []"
| "trim_names is_abs (c # cs) = (if c = [] \<or> (c = ''.'' \<and> (is_abs \<or> cs \<noteq> [])) then trim_names is_abs cs else c # cs)"

definition path_file_name :: "path \<Rightarrow> string option" where
  "path_file_name p = (case trim_names (path_abs p) (rev (path_names p)) of
     [] \<Rightarrow> None | c # _ \<Rightarrow> if c = ''.'' \<or> c = ''..'' then None else Some c)"

text \<open>\<open>path.set_file_name(name)\<close>: \<open>pop\<close>, and then \<open>push\<close>\<close>
definition path_pop :: "path \<Rightarrow> path" where
  "path_pop p = (case trim_names (path_abs p) (rev (path_names p)) of
     [] \<Rightarrow> p
   | _ # cs \<Rightarrow> (let cs = rev (trim_names (path_abs p) cs) in
       Path (path_abs p) (if path_abs p \<and> cs = [] then [[]] else cs)))"

definition path_set_file_name :: "path \<Rightarrow> string \<Rightarrow> path" where
  "path_set_file_name p name = path_push (if path_file_name p \<noteq> None then path_pop p else p) name"

text \<open>The last dot of a file name, which is not its first character\<close>
definition rsplit_dot :: "string \<Rightarrow> (string \<times> string) option" where
  "rsplit_dot name = (case split_once CHR ''.'' (rev name) of
     None \<Rightarrow> None | Some (after, before) \<Rightarrow> if before = [] then None else Some (rev before, rev after))"

definition path_file_stem :: "path \<Rightarrow> string option" where
  "path_file_stem p = map_option (\<lambda>name. case rsplit_dot name of None \<Rightarrow> name | Some (before, after) \<Rightarrow> before)
     (path_file_name p)"

definition path_extension :: "path \<Rightarrow> string option" where
  "path_extension p = (case path_file_name p of None \<Rightarrow> None | Some name \<Rightarrow> map_option snd (rsplit_dot name))"

text \<open>\<open>PathBuf::from(name).display()\<close>\<close>
definition os_display :: "string \<Rightarrow> string" where
  "os_display name = from_utf8_lossy (map of_char name)"

definition write_file :: "path \<Rightarrow> bytes \<Rightarrow> fs \<Rightarrow> printed list \<times> (error + unit) \<times> fs" where
  "write_file path data fs = (case fs_write fs path data of (r, fs) \<Rightarrow> (print_path path, io_result r, fs))"

text \<open>The path with the file name that \<open>f\<close> makes of the file stem\<close>
definition with_stem :: "path \<Rightarrow> (string \<Rightarrow> string) \<Rightarrow> path" where
  "with_stem path f = (case path_file_stem path of
     Some filename \<Rightarrow> path_set_file_name path (f (os_display filename)) | None \<Rightarrow> path)"

text \<open>The loop of \<open>unpack_crashlog\<close>: each region has a path made from the path of the input file.\<close>
fun unpack_regions :: "path \<Rightarrow> (nat \<times> region) list \<Rightarrow> fs \<Rightarrow> printed list \<times> (error + unit) \<times> fs" where
  "unpack_regions path_prefix [] fs = ([], Inr (), fs)"
| "unpack_regions path_prefix ((i, region) # regions) fs =
     (let path = with_stem path_prefix (\<lambda>stem. stem @ ''_region'' @ show_dec i @ ''.crashlog'') in
      case write_file path (region_to_bytes region) fs of
        (out, Inl e, fs) \<Rightarrow> (out, Inl e, fs)
      | (out, Inr _, fs) \<Rightarrow>
          (case unpack_regions path_prefix regions fs of (rest, r, fs) \<Rightarrow> (out @ rest, r, fs)))"

definition unpack_crashlog :: "'g uguid \<Rightarrow> path \<Rightarrow> fs \<Rightarrow> printed list \<times> (error + unit) \<times> fs" where
  "unpack_crashlog G input_file fs = (case read_crashlog G fs input_file of
     Inl e \<Rightarrow> ([], Inl e, fs)
   | Inr crashlog \<Rightarrow> unpack_regions input_file (enumerate 0 (cl_regions crashlog)) fs)"

text \<open>The loop of \<open>unpack_evtx\<close>, which changes the path for the next crash log too\<close>
fun unpack_events :: "'g uguid \<Rightarrow> path \<Rightarrow> (nat \<times> 'g crashlog) list \<Rightarrow> fs \<Rightarrow> printed list \<times> (error + unit) \<times> fs" where
  "unpack_events G path [] fs = ([], Inr (), fs)"
| "unpack_events G path ((i, crashlog) # crashlogs) fs =
     (let path = with_stem path (\<lambda>stem. stem @ ''-'' @ show_dec i @ ''.crashlog'') in
      case write_file path (crashlog_to_bytes G crashlog) fs of
        (out, Inl e, fs) \<Rightarrow> (out, Inl e, fs)
      | (out, Inr _, fs) \<Rightarrow>
          (case unpack_events G path crashlogs fs of (rest, r, fs) \<Rightarrow> (out @ rest, r, fs)))"

text \<open>\<open>unpack\<close>; \<open>evtx\<close> is the name of the file as the Windows API gets it.\<close>
definition unpack_evtx :: "'g uguid \<Rightarrow> 'e win_api \<Rightarrow> string \<Rightarrow> path \<Rightarrow> fs \<Rightarrow> (printed list \<times> (error + unit) \<times> fs) option" where
  "unpack_evtx G api evtx path fs = do {
     r \<leftarrow> from_windows_event_logs G api (Some evtx);
     Some (case r of Inl e \<Rightarrow> ([], Inl e, fs)
       | Inr crashlogs \<Rightarrow> unpack_events G path (enumerate 0 crashlogs) fs) }"

definition path_text :: "path \<Rightarrow> string" where
  "path_text p = concat (tl (concat (map (\<lambda>c. [''/'', c]) (path_names p))))"

definition unpack :: "'g uguid \<Rightarrow> target_os \<Rightarrow> 'e win_api \<Rightarrow> path \<Rightarrow> fs \<Rightarrow> (printed list \<times> (error + unit) \<times> fs) option" where
  "unpack G os api input_file fs =
     (if os = Windows \<and> Option.bind (path_extension input_file) os_to_str = Some ''evtx''
      then unpack_evtx G api (path_text input_file) input_file fs
      else Some (unpack_crashlog G input_file fs))"

subsection \<open>Commands\<close>

datatype app_command =
    CommandEnable "crash_log_source list"
  | CommandExtract "path option" "crash_log_source list"
  | CommandDecode path
  | CommandDisable "crash_log_source list"
  | CommandInfo info_format "path list"
  | CommandList
  | CommandTrigger "crash_log_source list"
  | CommandClear "crash_log_source list"
  | CommandUnpack "path list"
  | CommandTriage "path list"

fun unpack_files :: "'g uguid \<Rightarrow> target_os \<Rightarrow> 'e win_api \<Rightarrow> path list \<Rightarrow> fs \<Rightarrow> (printed list \<times> fs) option" where
  "unpack_files G os api [] fs = Some ([], fs)"
| "unpack_files G os api (input_file # input_files) fs = do {
     (out, r, fs) \<leftarrow> unpack G os api input_file fs;
     (rest, fs) \<leftarrow> unpack_files G os api input_files fs;
     Some (out @ rest, fs) }"

text \<open>\<open>Command::run\<close>\<close>
definition command_run :: "'g uguid \<Rightarrow> target_os \<Rightarrow> ('g, 't) efi_env \<Rightarrow> 'e win_api \<Rightarrow> (json \<Rightarrow> error + string)
    \<Rightarrow> (error \<Rightarrow> string) \<Rightarrow> app_command \<Rightarrow> collateral_manager \<Rightarrow> fs \<Rightarrow> ((error + printed list) \<times> fs) option" where
  "command_run G os efi api to_writer_pretty E self cm fs =
     (let control = (\<lambda>(r, fs). Some (rbind r (\<lambda>_. Inr []), fs)) in
      case self of
        CommandEnable sources \<Rightarrow> control (control_command (source_enable os) sources fs)
      | CommandExtract output_path sources \<Rightarrow> do {
          (out, fs) \<leftarrow> app_extract G os efi api output_path sources fs; Some (Inr out, fs) }
      | CommandDecode input_file \<Rightarrow> do {
          (r, cm) \<leftarrow> app_decode G to_writer_pretty fs cm input_file; Some (r, fs) }
      | CommandDisable sources \<Rightarrow> control (control_command (source_disable os) sources fs)
      | CommandInfo format input_files \<Rightarrow> Some (Inr (info G E cm fs input_files format), fs)
      | CommandList \<Rightarrow> Some (Inr (list_sources os fs), fs)
      | CommandTrigger sources \<Rightarrow> control (control_command (source_trigger os) sources fs)
      | CommandClear sources \<Rightarrow> control (control_command (source_clear os) sources fs)
      | CommandUnpack input_files \<Rightarrow> do {
          (out, fs) \<leftarrow> unpack_files G os api input_files fs; Some (Inr out, fs) }
      | CommandTriage input_files \<Rightarrow> do {
          (out, cm) \<leftarrow> triage_files G fs cm input_files; Some (Inr out, fs) })"

text \<open>\<open>run(cli)\<close>; \<open>J\<close> reads \<open>target_info.json\<close>, \<open>embedded\<close> is the tree built into the tool.\<close>
definition app_run :: "'g uguid \<Rightarrow> target_os \<Rightarrow> ('g, 't) efi_env \<Rightarrow> 'e win_api \<Rightarrow> (json \<Rightarrow> error + string)
    \<Rightarrow> (error \<Rightarrow> string) \<Rightarrow> (bytes \<Rightarrow> raw_target_info option) \<Rightarrow> registry \<Rightarrow> path option \<Rightarrow> app_command
    \<Rightarrow> fs \<Rightarrow> ((error + printed list) \<times> fs) option" where
  "app_run G os efi api to_writer_pretty E J embedded collateral_tree command fs =
     (case (case collateral_tree of
         Some dir \<Rightarrow> cm_file_system_tree J fs dir
       | None \<Rightarrow> collateral_manager_new J (embedded_tree embedded)) of
        Inl e \<Rightarrow> Some (Inl e, fs)
      | Inr cm \<Rightarrow> command_run G os efi api to_writer_pretty E command cm fs)"

record cli =
  cli_collateral_tree :: "path option"
  cli_verbosity :: u8
  cli_command :: app_command

text \<open>\<open>main\<close>, on the parsed command line: the default level of the log, what is printed, and the exit code\<close>
definition app_main :: "'g uguid \<Rightarrow> target_os \<Rightarrow> ('g, 't) efi_env \<Rightarrow> 'e win_api \<Rightarrow> (json \<Rightarrow> error + string)
    \<Rightarrow> (error \<Rightarrow> string) \<Rightarrow> (bytes \<Rightarrow> raw_target_info option) \<Rightarrow> registry \<Rightarrow> cli \<Rightarrow> fs
    \<Rightarrow> (level_filter \<times> printed list \<times> nat \<times> fs) option" where
  "app_main G os efi api to_writer_pretty E J embedded cli fs = do {
     (res, fs) \<leftarrow> app_run G os efi api to_writer_pretty E J embedded (cli_collateral_tree cli) (cli_command cli) fs;
     Some (log_level (unat (cli_verbosity cli)), case res of Inr out \<Rightarrow> out | Inl err \<Rightarrow> [],
       case res of Inr _ \<Rightarrow> 0 | Inl _ \<Rightarrow> 1, fs) }"

subsection \<open>The search for a file name\<close>

lemma split_where_append:
  "\<forall>y \<in> set ys. \<not> P y \<Longrightarrow>
   split_where P (xs @ ys) = butlast (split_where P xs) @ [last (split_where P xs) @ ys]"
proof (induction xs)
  case Nil
  then show ?case by (simp add: split_where_none)
next
  case (Cons x xs)
  then show ?case by (cases "split_where P xs") (auto split: list.splits)
qed

definition file_suffix :: "nat \<Rightarrow> string" where
  "file_suffix n = (if n = 0 then ''.crashlog'' else ''-'' @ show_dec n @ ''.crashlog'')"

lemma extract_filename_nat:
  assumes "n < 2 ^ 31"
  shows "extract_filename m (of_nat n) = metadata_show m @ file_suffix n"
proof -
  have nat: "unat (of_nat n :: i32) = n"
    using assms by (simp add: unsigned_of_nat take_bit_nat_eq_self_iff)
  then have "uint (of_nat n :: i32) = int n" by (simp add: uint_nat)
  then have "sint (of_nat n :: i32) = int n"
    using assms by (simp add: sint_uint signed_take_bit_int_eq_self_iff)
  with nat show ?thesis by (simp add: extract_filename_def file_suffix_def)
qed

lemma file_suffix_inj: "file_suffix m = file_suffix n \<longleftrightarrow> m = n"
  using show_dec_inj [of m n] by (auto simp: file_suffix_def)

lemma file_suffix_plain: "CHR ''/'' \<notin> set (file_suffix n)" "2 < length (file_suffix n)"
  by (auto simp: file_suffix_def dest: show_dec_numeric simp: is_numeric_def)

definition names_in_dir :: "fs \<Rightarrow> path option \<Rightarrow> bool" where
  "names_in_dir fs output_path \<longleftrightarrow> (case output_path of None \<Rightarrow> True | Some p \<Rightarrow> fs_is_dir fs p)"

lemma extract_path_names:
  assumes "names_in_dir fs output_path"
  obtains a pre t where "\<And>n. n < 2 ^ 31 \<Longrightarrow>
    extract_path fs output_path (extract_filename m (of_nat n)) = Path a (pre @ [t @ file_suffix n])"
proof -
  let ?s = "metadata_show m"
  let ?pre = "butlast (split_on CHR ''/'' ?s)" and ?t = "last (split_on CHR ''/'' ?s)"
  have split: "split_on CHR ''/'' (?s @ file_suffix n) = ?pre @ [?t @ file_suffix n]" for n
    by (rule split_where_append) (use file_suffix_plain(1) in auto)
  have abs: "starts_with (?s @ file_suffix n) ''/'' = starts_with ?s ''/''" for n
    by (cases ?s) (auto simp: starts_with_def file_suffix_def)
  have "?s @ file_suffix n \<noteq> []" for n by (simp add: file_suffix_def)
  then have str: "path_of_str (?s @ file_suffix n) = Path (starts_with ?s ''/'') (?pre @ [?t @ file_suffix n])" for n
    by (simp only: path_of_str_def if_False split abs)
  show thesis
  proof (cases output_path)
    case None
    then show thesis using that [of "starts_with ?s ''/''" ?pre ?t] str
      by (simp add: extract_path_def extract_filename_nat)
  next
    case (Some p)
    let ?abs = "starts_with ?s ''/''"
    have "path_push p (?s @ file_suffix n) = Path (?abs \<or> path_abs p)
        ((if ?abs then [] else path_names p) @ ?pre @ [?t @ file_suffix n])" for n
      by (simp add: path_push_def abs split str)
    with Some assms that [of "?abs \<or> path_abs p" "(if ?abs then [] else path_names p) @ ?pre" ?t] show thesis
      by (simp add: extract_path_def extract_filename_nat names_in_dir_def)
  qed
qed

text \<open>The output path exists, but it is neither a file nor a directory: the search never ends.\<close>
definition endless :: "fs \<Rightarrow> path option \<Rightarrow> bool" where
  "endless fs output_path \<longleftrightarrow> (case output_path of None \<Rightarrow> False
     | Some p \<Rightarrow> fs_exists fs p \<and> \<not> fs_is_dir fs p \<and> \<not> fs_is_file fs p)"

lemma extract_loop_endless:
  assumes "extract_loop G fs output_path crashlog idx = Some r"
  shows "\<not> endless fs output_path"
proof (rule extract_loop.raw_induct [OF _ assms, of "\<lambda>G fs output_path crashlog idx r. \<not> endless fs output_path"])
  fix loop G fs output_path crashlog idx r
  assume IH: "\<And>G fs output_path crashlog idx r. loop G fs output_path crashlog idx = Some r \<Longrightarrow> \<not> endless fs output_path"
    and step: "(let path = extract_path fs output_path (extract_filename (cl_metadata crashlog) idx) in
      if fs_exists fs path then
        (if (case output_path of Some p \<Rightarrow> fs_is_file fs p | None \<Rightarrow> False) then Some ([], fs)
         else loop G fs output_path crashlog (idx + 1))
      else Some (print_path path, snd (fs_write fs path (crashlog_to_bytes G crashlog)))) = Some r"
  show "\<not> endless fs output_path"
  proof
    assume e: "endless fs output_path"
    with step have "loop G fs output_path crashlog (idx + 1) = Some r"
      by (auto simp: endless_def extract_path_def Let_def split: option.splits if_splits)
    from IH [OF this] e show False by simp
  qed
qed

text \<open>What the loop has done when it returns\<close>
definition extract_outcome :: "'g uguid \<Rightarrow> fs \<Rightarrow> path option \<Rightarrow> 'g crashlog \<Rightarrow> printed list \<times> fs \<Rightarrow> bool" where
  "extract_outcome G fs output_path crashlog r \<longleftrightarrow>
     (r = ([], fs) \<and> (\<exists>p. output_path = Some p \<and> fs_is_file fs p))
     \<or> (\<exists>i path. path = extract_path fs output_path (extract_filename (cl_metadata crashlog) i) \<and> \<not> fs_exists fs path
         \<and> r = (print_path path, snd (fs_write fs path (crashlog_to_bytes G crashlog))))"

lemma extract_loop_outcome:
  assumes "extract_loop G fs output_path crashlog idx = Some r"
  shows "extract_outcome G fs output_path crashlog r"
proof (rule extract_loop.raw_induct [OF _ assms, of "\<lambda>G fs output_path crashlog idx. extract_outcome G fs output_path crashlog"])
  fix loop G fs output_path crashlog idx r
  assume IH: "\<And>G fs output_path crashlog idx r. loop G fs output_path crashlog idx = Some r
      \<Longrightarrow> extract_outcome G fs output_path crashlog r"
    and step: "(let path = extract_path fs output_path (extract_filename (cl_metadata crashlog) idx) in
      if fs_exists fs path then
        (if (case output_path of Some p \<Rightarrow> fs_is_file fs p | None \<Rightarrow> False) then Some ([], fs)
         else loop G fs output_path crashlog (idx + 1))
      else Some (print_path path, snd (fs_write fs path (crashlog_to_bytes G crashlog)))) = Some r"
  let ?file = "case output_path of Some p \<Rightarrow> fs_is_file fs p | None \<Rightarrow> False"
  consider "r = ([], fs)" "?file"
    | "loop G fs output_path crashlog (idx + 1) = Some r"
    | path where "path = extract_path fs output_path (extract_filename (cl_metadata crashlog) idx)" "\<not> fs_exists fs path"
      "r = (print_path path, snd (fs_write fs path (crashlog_to_bytes G crashlog)))"
    using step unfolding Let_def by (metis option.inject)
  then show "extract_outcome G fs output_path crashlog r"
  proof cases
    case 1
    then show ?thesis by (auto simp: extract_outcome_def split: option.splits)
  next
    case 2
    then show ?thesis by (rule IH)
  next
    case 3
    then show ?thesis unfolding extract_outcome_def by blast
  qed
qed

lemma extract_loop_reaches:
  assumes free: "\<not> fs_exists fs (extract_path fs output_path (extract_filename (cl_metadata crashlog) (of_nat n)))"
    and "i \<le> n"
  shows "\<exists>r. extract_loop G fs output_path crashlog (of_nat i) = Some r"
  using assms(2)
proof (induction rule: inc_induct)
  case base
  show ?case by (subst extract_loop.simps) (simp add: free Let_def)
next
  case (step i)
  then show ?case by (subst extract_loop.simps) (auto simp: Let_def add.commute)
qed

lemma extract_loop_returns:
  assumes "\<not> endless fs output_path" and few: "tree_entries (fs_root fs) < 2 ^ 31 - 1"
  shows "\<exists>r. extract_loop G fs output_path crashlog 0 = Some r"
proof (cases "names_in_dir fs output_path")
  case True
  obtain a pre t where names: "\<And>n. n < 2 ^ 31 \<Longrightarrow>
    extract_path fs output_path (extract_filename (cl_metadata crashlog) (of_nat n)) = Path a (pre @ [t @ file_suffix n])"
    using extract_path_names [OF True] by blast
  let ?N = "tree_entries (fs_root fs)"
  let ?C = "(\<lambda>n. t @ file_suffix n) ` {0..?N}"
  have "card ?C = Suc ?N" by (subst card_image) (auto simp: inj_on_def file_suffix_inj)
  moreover have "c \<noteq> [] \<and> c \<noteq> ''.'' \<and> c \<noteq> ''..''" if "c \<in> ?C" for c
  proof -
    have "2 < length c" using that file_suffix_plain(2) by (auto simp: trans_less_add2)
    then show ?thesis by auto
  qed
  ultimately have "\<not> (\<forall>c \<in> ?C. fs_exists fs (Path a (pre @ [c])))"
    using existing_names_bounded [of ?C fs a pre] by auto
  then obtain n where n: "n \<le> ?N" "\<not> fs_exists fs (Path a (pre @ [t @ file_suffix n]))" by auto
  then have "\<not> fs_exists fs (extract_path fs output_path (extract_filename (cl_metadata crashlog) (of_nat n)))"
    using names [of n] few by simp
  from extract_loop_reaches [OF this, of 0] show ?thesis by simp
next
  case False
  with assms(1) show ?thesis
    by (subst extract_loop.simps)
      (auto simp: Let_def endless_def names_in_dir_def extract_path_def split: option.splits)
qed

subsection \<open>The files written\<close>

lemma extract_outcome_effect:
  assumes "extract_outcome G fs output_path crashlog (out, fs')"
  shows "fs_extends fs fs'" "tree_entries (fs_root fs') \<le> Suc (tree_entries (fs_root fs))"
    "node_at (fs_root fs) q = Some (File b) \<Longrightarrow> node_at (fs_root fs') q = Some (File b)"
    "\<not> endless fs output_path \<Longrightarrow> \<not> endless fs' output_path"
proof -
  show "fs_extends fs fs'" "tree_entries (fs_root fs') \<le> Suc (tree_entries (fs_root fs))"
    "node_at (fs_root fs) q = Some (File b) \<Longrightarrow> node_at (fs_root fs') q = Some (File b)"
    using assms fs_write_new_cases [OF _ surjective_pairing] by (auto simp: extract_outcome_def)
  then have dir: "fs_is_dir fs p \<Longrightarrow> fs_is_dir fs' p" for p using fs_is_dir_extends by blast
  show "\<not> endless fs' output_path" if ok: "\<not> endless fs output_path"
  proof (cases output_path)
    case (Some p)
    with assms ok dir [of p] fs_write_new_cases(5) [OF _ surjective_pairing, of fs p "crashlog_to_bytes G crashlog"]
    show ?thesis by (auto simp: endless_def extract_outcome_def extract_path_def split: if_splits)
  qed (simp add: endless_def)
qed

lemma write_crashlogs_returns:
  "\<not> endless fs output_path \<Longrightarrow> tree_entries (fs_root fs) + length crashlogs < 2 ^ 31 \<Longrightarrow>
   \<exists>r. write_crashlogs G output_path crashlogs fs = Some r"
proof (induction crashlogs arbitrary: fs)
  case (Cons crashlog crashlogs)
  then obtain out fs' where r: "extract_loop G fs output_path crashlog 0 = Some (out, fs')"
    using extract_loop_returns [of fs output_path G crashlog] by auto
  note effect = extract_outcome_effect [OF extract_loop_outcome [OF r]]
  from Cons.IH [OF effect(4)] Cons.prems effect(2) r show ?case by fastforce
qed simp

text \<open>C11. On a file system whose entries, together with the crash logs to write, are fewer than \<open>2^31\<close>
  (the number in a name is an \<open>i32\<close>, which wraps around), extraction returns exactly if there is
  nothing to write or the output path is a file, a directory, or does not exist: the search for a
  free name ends, but for an output path that is a device or a pipe it never does.\<close>
theorem extract_returns_iff:
  assumes "tree_entries (fs_root fs) + length crashlogs < 2 ^ 31"
  shows "(\<exists>r. write_crashlogs G output_path crashlogs fs = Some r) \<longleftrightarrow>
     crashlogs = [] \<or> (case output_path of None \<Rightarrow> True
       | Some p \<Rightarrow> fs_is_file fs p \<or> fs_is_dir fs p \<or> \<not> fs_exists fs p)"
proof -
  have "(case output_path of None \<Rightarrow> True | Some p \<Rightarrow> fs_is_file fs p \<or> fs_is_dir fs p \<or> \<not> fs_exists fs p)
      \<longleftrightarrow> \<not> endless fs output_path"
    by (cases output_path) (auto simp: endless_def)
  moreover have "write_crashlogs G output_path crashlogs fs = None" if "endless fs output_path" "crashlogs \<noteq> []"
    using that extract_loop_endless [of G fs output_path "hd crashlogs" 0]
    by (cases crashlogs; cases "extract_loop G fs output_path (hd crashlogs) 0") auto
  ultimately show ?thesis using write_crashlogs_returns [OF _ assms, of output_path G] by fastforce
qed

text \<open>Nothing that could be read before has changed or gone.\<close>
definition fs_keeps :: "fs \<Rightarrow> fs \<Rightarrow> bool" where
  "fs_keeps fs fs' \<longleftrightarrow> fs_extends fs fs'
     \<and> (\<forall>q b. node_at (fs_root fs) q = Some (File b) \<longrightarrow> node_at (fs_root fs') q = Some (File b))"

lemma fs_keeps_refl [simp]: "fs_keeps fs fs"
  by (simp add: fs_keeps_def)

lemma fs_keeps_trans: "fs_keeps a b \<Longrightarrow> fs_keeps b c \<Longrightarrow> fs_keeps a c"
  using fs_extends_trans by (auto simp: fs_keeps_def)

lemma fs_keeps_read: "fs_keeps fs fs' \<Longrightarrow> fs_read fs p = Inr b \<Longrightarrow> fs_read fs' p = Inr b"
proof -
  assume keeps: "fs_keeps fs fs'" and "fs_read fs p = Inr b"
  then obtain n where n: "fs_entry fs p = Inr n" "n = File b"
    by (cases "fs_entry fs p") (auto simp: fs_read_def split: fs_node.splits)
  with keeps show ?thesis
    using canonicalize_extends fs_read_canonical by (auto simp: fs_entry_Inr fs_keeps_def)
qed

lemma fs_read_exists: "fs_read fs p = Inr b \<Longrightarrow> fs_exists fs p"
  by (cases "fs_entry fs p") (auto simp: fs_read_def fs_exists_def split: fs_node.splits)

lemma write_crashlogs_keeps:
  "write_crashlogs G output_path crashlogs fs = Some (out, fs') \<Longrightarrow> fs_keeps fs fs'"
proof (induction crashlogs arbitrary: fs out)
  case (Cons crashlog crashlogs)
  then obtain out1 fs1 out2 where r: "extract_loop G fs output_path crashlog 0 = Some (out1, fs1)"
    and rest: "write_crashlogs G output_path crashlogs fs1 = Some (out2, fs')"
    by (auto split: Option.bind_splits)
  from extract_outcome_effect [OF extract_loop_outcome [OF r]] have "fs_keeps fs fs1"
    by (auto simp: fs_keeps_def)
  with Cons.IH [OF rest] show ?case using fs_keeps_trans by blast
qed simp

text \<open>The directory that the files are created in, and what is in it\<close>
definition out_dir :: "fs \<Rightarrow> path option \<Rightarrow> io_error + string list" where
  "out_dir fs output_path = (case output_path of None \<Rightarrow> Inr (fs_cwd fs) | Some p \<Rightarrow> canonicalize fs p)"

definition plain_out_dir :: "fs \<Rightarrow> path option \<Rightarrow> bool" where
  "plain_out_dir fs output_path \<longleftrightarrow> (case out_dir fs output_path of Inl _ \<Rightarrow> False
     | Inr d \<Rightarrow> (case node_at (fs_root fs) d of Some (Dir es) \<Rightarrow> plain_dir es | _ \<Rightarrow> False))"

lemma plain_out_dirE:
  assumes "plain_out_dir fs output_path"
  obtains d es where "out_dir fs output_path = Inr d" "node_at (fs_root fs) d = Some (Dir es)" "plain_dir es"
  using assms by (auto simp: plain_out_dir_def split: sum.splits option.splits fs_node.splits)

lemma plain_out_dir_not_endless: "plain_out_dir fs output_path \<Longrightarrow> names_in_dir fs output_path \<and> \<not> endless fs output_path"
proof (erule plain_out_dirE)
  fix d es
  assume "out_dir fs output_path = Inr d" "node_at (fs_root fs) d = Some (Dir es)"
  then have "fs_is_dir fs p" if "output_path = Some p" for p
    using that by (simp add: out_dir_def fs_is_dir_def fs_entry_def)
  then show ?thesis by (cases output_path) (simp_all add: names_in_dir_def endless_def)
qed

lemma out_dir_path:
  assumes "out_dir fs output_path = Inr d" and "node_at (fs_root fs) d = Some (Dir es)"
    and "CHR ''/'' \<notin> set name" "name \<noteq> []"
  obtains a pre where "extract_path fs output_path name = Path a (pre @ [name])"
    "walk (fs_root fs) max_symlinks (if a then [] else fs_cwd fs) pre = Inr d"
proof -
  have name: "split_on CHR ''/'' name = [name]"
    by (rule split_where_none) (use assms(3) in blast)
  have rel: "\<not> starts_with name ''/''"
    using assms(3,4) by (cases name) (auto simp: starts_with_def)
  show thesis
  proof (cases output_path)
    case None
    with assms name rel that [of False "[]"] show thesis by (simp add: extract_path_def path_of_str_def out_dir_def)
  next
    case (Some p)
    with assms(1,2) have "fs_is_dir fs p" by (simp add: out_dir_def fs_is_dir_def fs_entry_def)
    with Some assms(1) name rel that [of "path_abs p" "path_names p"] show thesis
      by (auto simp: extract_path_def path_push_def out_dir_def canonicalize_def split: if_splits)
  qed
qed

lemma extract_filename_plain:
  assumes "CHR ''/'' \<notin> set (metadata_show m)"
  shows "CHR ''/'' \<notin> set (extract_filename m idx)" "plain_name (extract_filename m idx)"
proof -
  show slash: "CHR ''/'' \<notin> set (extract_filename m idx)"
    using assms by (auto simp: extract_filename_def is_numeric_def dest: show_dec_numeric)
  have "2 < length (extract_filename m idx)" by (simp add: extract_filename_def)
  with slash show "plain_name (extract_filename m idx)" by (auto simp: plain_name_def)
qed

lemma extract_loop_in_dir:
  assumes dir: "plain_out_dir fs output_path" and slash: "CHR ''/'' \<notin> set (metadata_show (cl_metadata crashlog))"
    and r: "extract_loop G fs output_path crashlog 0 = Some (out, fs')"
  obtains p where "out = print_path p" "\<not> fs_exists fs p" "fs_read fs' p = Inr (crashlog_to_bytes G crashlog)"
    "plain_out_dir fs' output_path"
proof -
  from dir obtain d es where d: "out_dir fs output_path = Inr d" "node_at (fs_root fs) d = Some (Dir es)" "plain_dir es"
    by (rule plain_out_dirE)
  from plain_out_dir_not_endless [OF dir] have "\<not> (\<exists>p. output_path = Some p \<and> fs_is_file fs p)"
    by (auto simp: names_in_dir_def fs_is_dir_def fs_is_file_def split: sum.splits fs_node.splits)
  with extract_loop_outcome [OF r] obtain i p where p: "p = extract_path fs output_path (extract_filename (cl_metadata crashlog) i)"
    and new: "\<not> fs_exists fs p" and out: "out = print_path p" "fs' = snd (fs_write fs p (crashlog_to_bytes G crashlog))"
    unfolding extract_outcome_def by auto
  let ?c = "extract_filename (cl_metadata crashlog) i"
  note plain = extract_filename_plain [OF slash, of i]
  obtain a pre where a: "p = Path a (pre @ [?c])" "walk (fs_root fs) max_symlinks (if a then [] else fs_cwd fs) pre = Inr d"
    using out_dir_path [OF d(1,2) plain(1)] plain(2) p by (auto simp: plain_name_def)
  from write_in_dir [OF a(2) d(2,3) plain(2)] new a(1)
  have w: "fs_write fs p (crashlog_to_bytes G crashlog)
      = (Inr (), fs\<lparr>fs_root := node_set (fs_root fs) d (Dir (es @ [(?c, File (crashlog_to_bytes G crashlog))]))\<rparr>)"
    by simp
  with out have w': "fs_write fs p (crashlog_to_bytes G crashlog) = (Inr (), fs')" by simp
  note effect = fs_write_new_effect [OF new w']
  have "out_dir fs' output_path = Inr d"
    using d(1) canonicalize_extends [OF effect(1)] effect(1)
    by (auto simp: out_dir_def fs_extends_def split: option.splits)
  moreover have "node_at (fs_root fs') d = Some (Dir (es @ [(?c, File (crashlog_to_bytes G crashlog))]))"
    using w w' node_at_node_set [OF d(2)] by auto
  ultimately have "plain_out_dir fs' output_path" using d(3) by (simp add: plain_out_dir_def plain_dir_def)
  with out new effect(2) that show thesis by blast
qed

lemma write_crashlogs_in_dir:
  assumes "plain_out_dir fs output_path" and "\<forall>c \<in> set crashlogs. CHR ''/'' \<notin> set (metadata_show (cl_metadata c))"
    and "tree_entries (fs_root fs) + length crashlogs < 2 ^ 31"
  shows "\<exists>ps fs'. write_crashlogs G output_path crashlogs fs = Some (concat (map print_path ps), fs') \<and> distinct ps
    \<and> list_all2 (\<lambda>c p. \<not> fs_exists fs p \<and> fs_read fs' p = Inr (crashlog_to_bytes G c)) crashlogs ps"
  using assms
proof (induction crashlogs arbitrary: fs)
  case Nil
  then show ?case by (intro exI [of _ "[]"]) simp
next
  case (Cons c crashlogs)
  from plain_out_dir_not_endless [OF Cons.prems(1)] Cons.prems(3)
  obtain out fs1 where r: "extract_loop G fs output_path c 0 = Some (out, fs1)"
    using extract_loop_returns [of fs output_path G c] by auto
  then obtain p where p: "out = print_path p" "\<not> fs_exists fs p" "fs_read fs1 p = Inr (crashlog_to_bytes G c)"
    and dir: "plain_out_dir fs1 output_path"
    using extract_loop_in_dir [OF Cons.prems(1) _ r] Cons.prems(2) by auto
  note effect = extract_outcome_effect [OF extract_loop_outcome [OF r]]
  obtain ps fs' where ps: "write_crashlogs G output_path crashlogs fs1 = Some (concat (map print_path ps), fs')" "distinct ps"
    and all: "list_all2 (\<lambda>c p. \<not> fs_exists fs1 p \<and> fs_read fs' p = Inr (crashlog_to_bytes G c)) crashlogs ps"
    using Cons.IH [OF dir] Cons.prems effect(2) by force
  note exists = fs_exists_extends [OF effect(1)]
  have "fs_read fs' p = Inr (crashlog_to_bytes G c)"
    using fs_keeps_read [OF write_crashlogs_keeps [OF ps(1)] p(3)] .
  moreover have "p \<notin> set ps"
    using all fs_read_exists [OF p(3)] by (auto simp: list_all2_conv_all_nth in_set_conv_nth)
  moreover have "list_all2 (\<lambda>c p. \<not> fs_exists fs p \<and> fs_read fs' p = Inr (crashlog_to_bytes G c)) crashlogs ps"
    using all by (rule list_all2_mono) (use exists in auto)
  ultimately show ?case using r p ps by (intro exI [of _ "p # ps"] exI [of _ fs']) simp
qed

text \<open>C39. Extraction never touches what is there: every file that could be read keeps its contents, and no
  path that existed stops existing, whatever the output path and the names of the crash logs.\<close>
theorem extract_keeps_files:
  assumes "write_crashlogs G output_path crashlogs fs = Some (out, fs')"
  shows "(fs_read fs p = Inr b \<longrightarrow> fs_read fs' p = Inr b) \<and> (fs_exists fs p \<longrightarrow> fs_exists fs' p)"
  using write_crashlogs_keeps [OF assms] fs_keeps_read fs_exists_extends unfolding fs_keeps_def by blast

text \<open>C4. End to end: the crash logs extracted to a directory (the current one, if no output path is
  given) are written to as many different new files, and reading such a file back gives the regions
  and the extra sections of its crash log. The directory must exist and have no links and no
  unreadable entries in it; the entries of the file system together with the crash logs must be fewer
  than \<open>2^31\<close>; no metadata may have a slash in the name made of it; and every crash log must be one
  that a CPER can represent, as in the export to that format: at least one region, fewer than
  \<open>2^16\<close> sections and \<open>2^32\<close> bytes, records whose data starts with their header and is as long as it says
  (but for a truncated last one), and extra sections that are firmware error records of revision 2 or
  later that hold no crash log, or of another type. The regions come back without parent headers, each
  followed by the regions nested in its box records; they are the same when none has a box or a
  parent.\<close>
theorem extract_files_decode:
  assumes "guid_codec G" and "plain_out_dir fs output_path" and "tree_entries (fs_root fs) + length crashlogs < 2 ^ 31"
    and ok: "\<forall>c \<in> set crashlogs. crashlog_ok G c \<and> CHR ''/'' \<notin> set (metadata_show (cl_metadata c))"
  shows "\<exists>ps fs'. write_crashlogs G output_path crashlogs fs = Some (concat (map print_path ps), fs') \<and> distinct ps
    \<and> list_all2 (\<lambda>c p. \<not> fs_exists fs p
        \<and> read_crashlog G fs' p = Inr \<lparr>cl_regions = regions_reread (cl_regions c),
            cl_metadata = metadata_default\<lparr>md_extra_cper_sections := md_extra_cper_sections (cl_metadata c)\<rparr>\<rparr>
        \<and> ((\<forall>region \<in> set (cl_regions c). region_flat region) \<longrightarrow> regions_reread (cl_regions c) = cl_regions c))
      crashlogs ps"
proof -
  obtain ps fs' where ps: "write_crashlogs G output_path crashlogs fs = Some (concat (map print_path ps), fs')" "distinct ps"
    and all: "list_all2 (\<lambda>c p. \<not> fs_exists fs p \<and> fs_read fs' p = Inr (crashlog_to_bytes G c)) crashlogs ps"
    using write_crashlogs_in_dir [of fs output_path crashlogs G] assms by blast
  have "read_crashlog G fs' p = crashlog_from_slice G (crashlog_to_bytes G c)"
    if "fs_read fs' p = Inr (crashlog_to_bytes G c)" for c p
    using that by (simp add: read_crashlog_def)
  with all ok crashlog_cper_roundtrip [OF assms(1)] have "list_all2 (\<lambda>c p. \<not> fs_exists fs p
        \<and> read_crashlog G fs' p = Inr \<lparr>cl_regions = regions_reread (cl_regions c),
            cl_metadata = metadata_default\<lparr>md_extra_cper_sections := md_extra_cper_sections (cl_metadata c)\<rparr>\<rparr>
        \<and> ((\<forall>region \<in> set (cl_regions c). region_flat region) \<longrightarrow> regions_reread (cl_regions c) = cl_regions c))
      crashlogs ps"
    by (auto simp: list_all2_conv_all_nth intro: regions_reread_flat)
  with ps show ?thesis by blast
qed

text \<open>A directory \<open>out\<close> with one crash log in it, and a device \<open>dev\<close>\<close>
definition example_out :: fs where
  "example_out = \<lparr>fs_root = Dir [(''out'', Dir [(''unnamed.crashlog'', File [1, 2])]), (''dev'', Special)], fs_cwd = []\<rparr>"

lemma example_out_facts:
  "tree_entries (fs_root example_out) = 3" "plain_out_dir example_out (Some (Path False [''out'']))"
  "fs_read example_out (Path False [''out'', ''unnamed.crashlog'']) = Inr [1, 2]"
  "fs_exists example_out (Path False [''dev''])" "\<not> fs_is_dir example_out (Path False [''dev''])"
  "\<not> fs_is_file example_out (Path False [''dev''])"
  by code_simp+

theorem extract_returns_iff_witness:
  "write_crashlogs uguid_word (Some (Path False [''dev''])) [example_crashlog] example_out = None"
  using extract_returns_iff [of example_out "[example_crashlog]" uguid_word "Some (Path False [''dev''])"] example_out_facts
  by (cases "write_crashlogs uguid_word (Some (Path False [''dev''])) [example_crashlog] example_out")
    (simp_all del: write_crashlogs.simps split_paired_Ex)

theorem extract_files_decode_witness:
  "\<exists>p fs'. write_crashlogs uguid_word (Some (Path False [''out''])) [example_crashlog] example_out = Some (print_path p, fs')
     \<and> (\<exists>c. read_crashlog uguid_word fs' p = Inr c \<and> cl_regions c = [example_region, example_region])"
proof -
  have "CHR ''/'' \<notin> set (metadata_show (cl_metadata example_crashlog))" by code_simp
  then obtain p fs' where "write_crashlogs uguid_word (Some (Path False [''out''])) [example_crashlog] example_out
      = Some (print_path p, fs')"
    and "read_crashlog uguid_word fs' p = Inr \<lparr>cl_regions = regions_reread (cl_regions example_crashlog),
      cl_metadata = metadata_default\<lparr>md_extra_cper_sections := md_extra_cper_sections (cl_metadata example_crashlog)\<rparr>\<rparr>"
    using extract_files_decode [OF guid_word.guid_codec_axioms example_out_facts(2), of "[example_crashlog]"]
      example_crashlog_ok(1) example_out_facts(1) by (fastforce simp: list_all2_Cons1)
  then show ?thesis unfolding example_crashlog_reread by (auto simp: example_crashlog_def)
qed

theorem extract_keeps_files_witness:
  "\<exists>out fs'. write_crashlogs uguid_word (Some (Path False [''out''])) [example_crashlog] example_out = Some (out, fs')
     \<and> fs_read fs' (Path False [''out'', ''unnamed.crashlog'']) = Inr [1, 2]"
proof -
  obtain out fs' where r: "write_crashlogs uguid_word (Some (Path False [''out''])) [example_crashlog] example_out = Some (out, fs')"
    using write_crashlogs_returns [of example_out "Some (Path False [''out''])" "[example_crashlog]" uguid_word]
      plain_out_dir_not_endless [OF example_out_facts(2)] example_out_facts(1) by auto
  with extract_keeps_files [OF r] example_out_facts(3) show ?thesis by blast
qed

end
