(* ===== verification/Pager.thy ===== *)
theory Pager
  imports RustString
begin

text \<open>
  The pager of the EFI application: \<open>efi/src/pager.rs\<close> and \<open>efi/src/pager/*.rs\<close>. The console is the
  sequence of the operations on the output protocol, for a console that carries them all out: an
  operation that fails ends the program with its status. The keyboard gives a list of events, which
  include the failures of the input protocol. A panic is \<open>None\<close>. The fields of the
  window are machine words, and their arithmetic wraps, as it does in the release profile.
\<close>

subsection \<open>State\<close>

text \<open>The status codes of the firmware that the program uses\<close>
datatype status = SUCCESS | INVALID_PARAMETER | NOT_FOUND | NOT_READY | OtherStatus nat

datatype pager_mode = View | Search

record window =
  win_line :: u64
  win_columns :: u64
  win_rows :: u64

definition window_default :: window where
  "window_default = \<lparr>win_line = 0, win_columns = 80, win_rows = 25\<rparr>"

text \<open>\<open>Window::new(mode)\<close>, for the columns and rows of a text mode\<close>
definition window_new :: "u64 \<times> u64 \<Rightarrow> window" where
  "window_new mode = window_default\<lparr>win_columns := fst mode, win_rows := snd mode\<rparr>"

record pager =
  pg_lines :: "string list"
  pg_window :: window
  pg_mode :: pager_mode
  pg_search_pattern :: string

definition pager_new :: "(u64 \<times> u64) option \<Rightarrow> string \<Rightarrow> pager" where
  "pager_new mode content = \<lparr>pg_lines = lines content,
     pg_window = (case mode of None \<Rightarrow> window_default | Some m \<Rightarrow> window_new m),
     pg_mode = View, pg_search_pattern = []\<rparr>"

datatype color = Yellow | LightGray | White | Black

datatype out_op = ClearScreen | SetColor color color | SetCursor u64 u64 | Write string

text \<open>The keys of \<open>keys.rs\<close>\<close>
definition QUIT :: char where [simp]: "QUIT = CHR ''q''"
definition DOWN :: char where [simp]: "DOWN = CHR ''j''"
definition UP :: char where [simp]: "UP = CHR ''k''"
definition PAGE_DOWN :: char where [simp]: "PAGE_DOWN = CHR '' ''"
definition TOP :: char where [simp]: "TOP = CHR ''g''"
definition BOTTOM :: char where [simp]: "BOTTOM = CHR ''G''"
definition SEARCH :: char where [simp]: "SEARCH = CHR ''/''"
definition NEXT :: char where [simp]: "NEXT = CHR ''n''"
definition PREV :: char where [simp]: "PREV = CHR ''N''"

definition newline :: string where "newline = [CHR 0x0A]"

subsection \<open>Strings\<close>

text \<open>\<open>s.pop()\<close> and its string\<close>
definition pop_char :: "string \<Rightarrow> string" where
  "pop_char s = rev (tl (dropWhile utf8_continuation (rev s)))"

definition ends_with :: "string \<Rightarrow> string \<Rightarrow> bool" where
  "ends_with s p \<longleftrightarrow> starts_with (rev s) (rev p)"

text \<open>\<open>s.find(pat)\<close> and \<open>s.contains(pat)\<close>\<close>
fun find_sub :: "string \<Rightarrow> string \<Rightarrow> nat option" where
  "find_sub pat [] = (if pat = [] then Some 0 else None)"
| "find_sub pat (c # s) = (if starts_with (c # s) pat then Some 0 else map_option Suc (find_sub pat s))"

definition contains :: "string \<Rightarrow> string \<Rightarrow> bool" where
  "contains s pat \<longleftrightarrow> find_sub pat s \<noteq> None"

text \<open>\<open>s.split_inclusive(pat)\<close> for a pattern that is not empty\<close>
function split_inclusive :: "string \<Rightarrow> string \<Rightarrow> string list" where
  "split_inclusive pat s =
     (if s = [] \<or> pat = [] then []
      else case find_sub pat s of
          None \<Rightarrow> [s]
        | Some i \<Rightarrow> take (i + length pat) s # split_inclusive pat (drop (i + length pat) s))"
  by pat_completeness auto
termination by (relation "measure (\<lambda>(pat, s). length s)") auto

declare split_inclusive.simps [simp del]

text \<open>\<open>s.trim_end_matches(pat)\<close>\<close>
function trim_end_str :: "string \<Rightarrow> string \<Rightarrow> string" where
  "trim_end_str pat s =
     (if pat \<noteq> [] \<and> ends_with s pat then trim_end_str pat (take (length s - length pat) s) else s)"
  by pat_completeness auto
termination
proof (relation "measure (\<lambda>(pat, s). length s)", goal_cases)
  case (2 pat s)
  then have "s \<noteq> []" by (auto simp: ends_with_def starts_with_def)
  with 2 show ?case by (cases s; cases pat) auto
qed simp

declare trim_end_str.simps [simp del]

definition pad_left :: "nat \<Rightarrow> string \<Rightarrow> string" where
  "pad_left w s = replicate (w - length s) CHR '' '' @ s"

subsection \<open>Rendering\<close>

definition SEARCH_PATTERN_SIZE :: nat where "SEARCH_PATTERN_SIZE = 32"

definition render_line :: "pager \<Rightarrow> nat \<Rightarrow> out_op list option" where
  "render_line self idx =
     (if idx < length (pg_lines self) then
        (let line = pg_lines self ! idx;
             stop = unat (min (win_columns (pg_window self)) (of_nat (length line))) in
         if \<not> char_boundary line stop then None
         else let line = take stop line; pat = pg_search_pattern self in
           if pat = [] then Some [Write (line @ newline)]
           else Some (concat (map (\<lambda>s.
                  [SetColor LightGray Black, Write (trim_end_str pat s)]
                  @ (if ends_with s pat then [SetColor Yellow Black, Write pat] else []))
                (split_inclusive pat line))
              @ [SetColor LightGray Black, Write newline]))
      else Some [Write (''~'' @ newline)])"

definition render_page :: "pager \<Rightarrow> out_op list option" where
  "render_page self =
     (let w = pg_window self in
      map_option concat (those (map (render_line self)
        [unat (win_line w) ..< unat (win_line w + win_rows w - 1)])))"

definition render_key_descr :: "char \<Rightarrow> char option \<Rightarrow> string \<Rightarrow> out_op list" where
  "render_key_descr primary_key secondary_key descr =
     [SetColor Yellow Black,
      Write (case secondary_key of
          Some secondary_key \<Rightarrow> [primary_key] @ ''/'' @ [secondary_key] @ '' ''
        | None \<Rightarrow> [primary_key] @ '' ''),
      SetColor White Black, Write (descr @ '' ''), SetColor LightGray Black]"

definition render_search_pattern :: "pager \<Rightarrow> out_op list option" where
  "render_search_pattern self =
     (let pat = pg_search_pattern self;
          start = length pat - SEARCH_PATTERN_SIZE + 3 in
      if length pat < SEARCH_PATTERN_SIZE then
        Some [SetColor Yellow Black, Write ''Search: '', SetColor LightGray Black, Write pat]
      else if char_boundary pat start then
        Some [SetColor Yellow Black, Write ''Search: '', SetColor LightGray Black, Write (''...'' @ drop start pat)]
      else None)"

definition render_line_status :: "pager \<Rightarrow> out_op list option" where
  "render_line_status self =
     (let w = pg_window self; stop = of_nat (length (pg_lines self)) - win_rows w + 1 in
      if stop = 0 then None
      else let percent = 100 * min (win_line w) stop div stop in
        Some [SetCursor (win_columns w - 12) (win_rows w - 1),
              Write (pad_left 6 (show_dec (unat (win_line w + 1))) @ '' ''
                @ pad_left 3 (show_dec (unat percent)) @ ''%'')])"

definition render_status_bar :: "pager \<Rightarrow> out_op list option" where
  "render_status_bar self = (case pg_mode self of
     View \<Rightarrow> map_option (\<lambda>status.
         render_key_descr QUIT None ''Quit'' @ render_key_descr DOWN (Some UP) ''Down/Up''
         @ render_key_descr TOP (Some BOTTOM) ''Top/Bottom'' @ render_key_descr SEARCH None ''Search''
         @ (if pg_search_pattern self \<noteq> [] then render_key_descr NEXT (Some PREV) ''Next/Previous'' else [])
         @ status) (render_line_status self)
   | Search \<Rightarrow> render_search_pattern self)"

definition clear_status_bar :: "pager \<Rightarrow> out_op list" where
  "clear_status_bar self = (let w = pg_window self in
     [SetCursor 0 (win_rows w - 1)] @ replicate (unat (win_columns w - 1)) (Write '' '') @ [SetCursor 0 (win_rows w - 1)])"

definition render :: "pager \<Rightarrow> out_op list option" where
  "render self = do {
     page \<leftarrow> render_page self;
     status \<leftarrow> render_status_bar self;
     Some ([ClearScreen] @ page @ status) }"

subsection \<open>Keys\<close>

text \<open>A printable key is the UTF-8 text of its character.\<close>
datatype scan_code = ScUp | ScDown | ScHome | ScEnd | ScPageDown | ScPageUp | ScEscape | ScDelete | ScOther

datatype key = Printable string | Special scan_code

datatype command = Down | Up | PageDown | PageUp | Top | Bottom | Quit | Refresh | Next | Previous

definition search_mode :: "key \<Rightarrow> pager \<Rightarrow> command option \<times> pager" where
  "search_mode key self = (case key of
     Printable k \<Rightarrow>
       if k = [CHR 0x0A] \<or> k = [CHR 0x0D] then (Some Next, self\<lparr>pg_mode := View\<rparr>)
       else (Some Refresh, self\<lparr>pg_search_pattern := pg_search_pattern self @ k\<rparr>)
   | Special ScDelete \<Rightarrow> (Some Refresh, self\<lparr>pg_search_pattern := pop_char (pg_search_pattern self)\<rparr>)
   | _ \<Rightarrow> (None, self))"

definition view_mode :: "key \<Rightarrow> pager \<Rightarrow> command option \<times> pager" where
  "view_mode key self = (case key of
     Printable k \<Rightarrow>
       if k = [UP] then (Some Up, self)
       else if k = [CHR 0x0A] \<or> k = [CHR 0x0D] \<or> k = [DOWN] then (Some Down, self)
       else if k = [QUIT] then (Some Quit, self)
       else if k = [PAGE_DOWN] then (Some PageDown, self)
       else if k = [TOP] then (Some Top, self)
       else if k = [BOTTOM] then (Some Bottom, self)
       else if k = [NEXT] then (Some Next, self)
       else if k = [PREV] then (Some Previous, self)
       else if k = [SEARCH] then (Some Refresh, self\<lparr>pg_search_pattern := [], pg_mode := Search\<rparr>)
       else (None, self)
   | Special code \<Rightarrow> (case code of
       ScUp \<Rightarrow> Some Up | ScDown \<Rightarrow> Some Down | ScHome \<Rightarrow> Some Top | ScEnd \<Rightarrow> Some Bottom
     | ScPageDown \<Rightarrow> Some PageDown | ScPageUp \<Rightarrow> Some PageUp | ScEscape \<Rightarrow> Some Quit | _ \<Rightarrow> None, self))"

definition key_command :: "key \<Rightarrow> pager \<Rightarrow> command option \<times> pager" where
  "key_command key self = (case pg_mode self of View \<Rightarrow> view_mode key self | Search \<Rightarrow> search_mode key self)"

text \<open>What the keyboard gives to one round of the loop of \<open>next_command\<close>: it has no event to wait for,
  waiting fails, reading the key fails, there is no key after all, or a key was pressed.\<close>
datatype input_event = NoKeyEvent | WaitFailed | ReadFailed status | NoKey | Pressed key

datatype next_result = Panics | Fails status | Continues | Returns command

text \<open>The body of the loop of \<open>next_command\<close>: the two calls of \<open>expect\<close> panic, an error of \<open>read_key\<close> is
  returned, and the loop continues without a key or without a command for it.\<close>
definition next_command :: "input_event \<Rightarrow> pager \<Rightarrow> next_result \<times> pager" where
  "next_command event self = (case event of
     NoKeyEvent \<Rightarrow> (Panics, self)
   | WaitFailed \<Rightarrow> (Panics, self)
   | ReadFailed status \<Rightarrow> (Fails status, self)
   | NoKey \<Rightarrow> (Continues, self)
   | Pressed key \<Rightarrow> (case key_command key self of
         (None, self) \<Rightarrow> (Continues, self)
       | (Some cmd, self) \<Rightarrow> (Returns cmd, self)))"

subsection \<open>Updates\<close>

definition set_line :: "u64 \<Rightarrow> pager \<Rightarrow> pager" where
  "set_line line self = self\<lparr>pg_window := (pg_window self)\<lparr>win_line := line\<rparr>\<rparr>"

fun search :: "nat list \<Rightarrow> pager \<Rightarrow> pager" where
  "search [] self = self"
| "search (idx # indexes) self =
     (if idx < length (pg_lines self) \<and> contains (pg_lines self ! idx) (pg_search_pattern self)
      then set_line (of_nat idx) self else search indexes self)"

text \<open>\<open>v.clamp(0, hi)\<close> on \<open>i32\<close> panics if \<open>hi < 0\<close>.\<close>
definition move_window :: "32 word \<Rightarrow> pager \<Rightarrow> pager option" where
  "move_window delta self =
     (let v = sint (ucast (win_line (pg_window self)) + delta :: 32 word);
          hi = sint (of_nat (length (pg_lines self)) - 1 :: 32 word) in
      if hi < 0 then None
      else Some (set_line (of_int (if v < 0 then 0 else if hi < v then hi else v)) self))"

text \<open>The \<open>match\<close> of \<open>run\<close>, for the commands that stay in the loop\<close>
definition pager_exec :: "command \<Rightarrow> pager \<Rightarrow> pager option" where
  "pager_exec cmd self =
     (let w = pg_window self; len = length (pg_lines self); rows = ucast (win_rows w) :: 32 word in
      case cmd of
        Top \<Rightarrow> Some (set_line 0 self)
      | Bottom \<Rightarrow> Some (set_line (of_nat (len - unat (win_rows w - 1))) self)
      | Down \<Rightarrow> move_window 1 self
      | Up \<Rightarrow> move_window (- 1) self
      | PageUp \<Rightarrow> move_window (- (rows - 2)) self
      | PageDown \<Rightarrow> move_window (rows - 2) self
      | Next \<Rightarrow> Some (search [unat (win_line w + 1) ..< len] self)
      | Previous \<Rightarrow> Some (search (rev [0 ..< unat (win_line w)]) self)
      | _ \<Rightarrow> Some self)"

text \<open>The loop of \<open>run\<close> on what the keyboard gives: it ends with a panic, with the error of reading a
  key, with the last output of the pager, or it waits for a key.\<close>
datatype run_result = Panicked | Failed status | Quitted "out_op list" | Waiting pager

fun pager_run :: "pager \<Rightarrow> input_event list \<Rightarrow> run_result" where
  "pager_run self [] = Waiting self"
| "pager_run self (event # events) =
     (case next_command event self of
        (Panics, self) \<Rightarrow> Panicked
      | (Fails status, self) \<Rightarrow> Failed status
      | (Continues, self) \<Rightarrow> pager_run self events
      | (Returns cmd, self) \<Rightarrow>
          if cmd = Quit then Quitted (clear_status_bar self)
          else (case pager_exec cmd self of
              None \<Rightarrow> Panicked
            | Some self \<Rightarrow> if render self = None then Panicked else pager_run self events))"

text \<open>\<open>Pager::display\<close>, with the text mode of the console and what the keyboard gives\<close>
definition pager_display :: "(u64 \<times> u64) option \<Rightarrow> string \<Rightarrow> input_event list \<Rightarrow> run_result" where
  "pager_display mode content events =
     (let self = pager_new mode content in if render self = None then Panicked else pager_run self events)"

subsection \<open>The pager as a state machine\<close>

text \<open>One round, by which the pager stays in its loop\<close>
inductive pager_step :: "pager \<Rightarrow> input_event \<Rightarrow> pager \<Rightarrow> bool" where
  ignored: "next_command key p = (Continues, p') \<Longrightarrow> pager_step p key p'"
| handled: "next_command key p = (Returns cmd, p1) \<Longrightarrow> cmd \<noteq> Quit \<Longrightarrow> pager_exec cmd p1 = Some p2 \<Longrightarrow>
    render p2 \<noteq> None \<Longrightarrow> pager_step p key p2"

inductive_cases pager_stepE: "pager_step p key p'"

inductive pager_reach :: "(input_event \<Rightarrow> bool) \<Rightarrow> pager \<Rightarrow> pager \<Rightarrow> bool" for K where
  here: "pager_reach K p p"
| more: "pager_reach K p q \<Longrightarrow> K key \<Longrightarrow> pager_step q key q' \<Longrightarrow> pager_reach K p q'"

lemma pager_reach_step: "pager_step p key q \<Longrightarrow> K key \<Longrightarrow> pager_reach K q r \<Longrightarrow> pager_reach K p r"
  by (rotate_tac 2, induction rule: pager_reach.induct)
    (auto intro: pager_reach.intros)

text \<open>A round in which the pager panics\<close>
definition panics :: "pager \<Rightarrow> input_event \<Rightarrow> bool" where
  "panics p key \<longleftrightarrow> (case next_command key p of
     (Panics, _) \<Rightarrow> True
   | (Returns cmd, p) \<Rightarrow> cmd \<noteq> Quit \<and> (case pager_exec cmd p of None \<Rightarrow> True | Some p \<Rightarrow> render p = None)
   | _ \<Rightarrow> False)"

text \<open>Running the pager is walking through the states of the machine.\<close>

lemma pager_run_panics: "panics p key \<Longrightarrow> pager_run p (key # keys) = Panicked"
  by (auto simp: panics_def split: prod.splits next_result.splits option.splits)

lemma pager_run_cases:
  assumes "\<not> panics p key"
  obtains (stays) p' where "pager_step p key p'" "pager_run p (key # keys) = pager_run p' keys"
    | (ended) "\<And>q. pager_run p (key # keys) \<noteq> Waiting q" "pager_run p (key # keys) \<noteq> Panicked"
proof -
  obtain r p1 where r: "next_command key p = (r, p1)" by (cases "next_command key p")
  show thesis
  proof (cases r)
    case (Returns cmd)
    show thesis
    proof (cases "cmd = Quit")
      case False
      then obtain p2 where "pager_exec cmd p1 = Some p2" "render p2 \<noteq> None"
        using assms r Returns by (auto simp: panics_def split: option.splits)
      with False r Returns show thesis by (intro stays [of p2] handled) auto
    qed (use r Returns ended in simp)
  qed (use assms r ended in \<open>auto simp: panics_def intro: stays ignored\<close>)
qed

lemma pager_run_reach:
  assumes "\<forall>key \<in> set keys. K key"
  shows "pager_run p keys = Waiting q \<Longrightarrow> pager_reach K p q"
    and "pager_run p keys = Panicked \<Longrightarrow> \<exists>q key. pager_reach K p q \<and> K key \<and> panics q key"
proof (atomize (full), use assms in \<open>induction keys arbitrary: p\<close>)
  case Nil
  then show ?case by (auto intro: pager_reach.here)
next
  case (Cons key keys)
  show ?case
  proof (cases "panics p key")
    case True
    with Cons.prems show ?thesis
      using pager_run_panics [OF True, of keys] by (auto intro: pager_reach.here)
  next
    case False
    then show ?thesis
    proof (cases rule: pager_run_cases [where keys = keys])
      case (stays p')
      with Cons.IH [of p'] Cons.prems show ?thesis by (auto dest: pager_reach_step)
    qed simp
  qed
qed

subsection \<open>The states that are reached\<close>

definition ascii :: "string \<Rightarrow> bool" where
  "ascii s \<longleftrightarrow> (\<forall>c \<in> set s. (of_char c :: nat) < 128)"

definition key_ascii :: "key \<Rightarrow> bool" where
  "key_ascii key \<longleftrightarrow> (case key of Printable k \<Rightarrow> ascii k | Special _ \<Rightarrow> True)"

text \<open>The keyboard works, and the keys that are pressed are ASCII.\<close>
definition input_ok :: "input_event \<Rightarrow> bool" where
  "input_ok event \<longleftrightarrow> (case event of NoKeyEvent \<Rightarrow> False | WaitFailed \<Rightarrow> False
     | Pressed key \<Rightarrow> key_ascii key | _ \<Rightarrow> True)"

text \<open>A text of \<open>n\<close> lines that the window lies in\<close>
definition pager_ok :: "pager \<Rightarrow> bool" where
  "pager_ok p \<longleftrightarrow> (\<forall>l \<in> set (pg_lines p). ascii l) \<and> ascii (pg_search_pattern p)
     \<and> length (pg_lines p) < 2 ^ 31 \<and> unat (win_line (pg_window p)) < length (pg_lines p)
     \<and> 2 \<le> win_rows (pg_window p) \<and> of_nat (length (pg_lines p) + 1) \<noteq> win_rows (pg_window p)"

lemma char_boundary_ascii: "ascii s \<Longrightarrow> i \<le> length s \<Longrightarrow> char_boundary s i"
proof -
  assume s: "ascii s" and i: "i \<le> length s"
  have "\<not> utf8_continuation (s ! i)" if "i < length s"
    using s nth_mem [OF that] by (auto simp: ascii_def utf8_continuation_def dest!: bspec)
  with i show ?thesis by (auto simp: char_boundary_def)
qed

lemma ascii_simps [simp]: "ascii []" "ascii (s @ t) \<longleftrightarrow> ascii s \<and> ascii t"
  by (auto simp: ascii_def)

lemma ascii_subset: "set s \<subseteq> set t \<Longrightarrow> ascii t \<Longrightarrow> ascii s"
  by (auto simp: ascii_def)

lemma pop_char_set: "set (pop_char s) \<subseteq> set s"
proof
  fix x assume "x \<in> set (pop_char s)"
  then have "x \<in> set (dropWhile utf8_continuation (rev s))"
    by (cases "dropWhile utf8_continuation (rev s)") (auto simp: pop_char_def)
  then show "x \<in> set s" by (auto dest: set_dropWhileD)
qed

lemma unat_of_nat_le: "unat (of_nat n :: 'a::len word) \<le> n"
  by (simp add: unat_of_nat take_bit_eq_mod)

lemma render_line_ok:
  assumes "\<forall>l \<in> set (pg_lines p). ascii l"
  shows "render_line p idx \<noteq> None"
proof (cases "idx < length (pg_lines p)")
  case True
  let ?line = "pg_lines p ! idx"
  have "unat (min (win_columns (pg_window p)) (of_nat (length ?line))) \<le> length ?line"
    using unat_of_nat_le [of "length ?line", where 'a = 64] by (simp add: min_def word_le_nat_alt)
  with True assms have "char_boundary ?line (unat (min (win_columns (pg_window p)) (of_nat (length ?line))))"
    by (intro char_boundary_ascii) auto
  then show ?thesis by (simp add: render_line_def Let_def)
qed (simp add: render_line_def)

lemma render_page_ok: "\<forall>l \<in> set (pg_lines p). ascii l \<Longrightarrow> render_page p \<noteq> None"
proof -
  assume "\<forall>l \<in> set (pg_lines p). ascii l"
  then have "None \<notin> set (map (render_line p) ids)" for ids using render_line_ok [of p] by (metis ex_map_conv image_iff list.set_map)
  then show ?thesis by (simp add: render_page_def Let_def those_None_iff del: set_map)
qed

lemma render_search_ok: "ascii (pg_search_pattern p) \<Longrightarrow> render_search_pattern p \<noteq> None"
  by (simp add: render_search_pattern_def Let_def SEARCH_PATTERN_SIZE_def char_boundary_ascii)

lemma line_status_None_iff:
  "render_line_status p = None \<longleftrightarrow> of_nat (length (pg_lines p) + 1) = win_rows (pg_window p)"
  by (simp add: render_line_status_def Let_def algebra_simps)

lemma pager_ok_render: "pager_ok p \<Longrightarrow> render p \<noteq> None"
  using render_page_ok [of p] render_search_ok [of p] line_status_None_iff [of p]
  by (auto simp: pager_ok_def render_def render_status_bar_def split: pager_mode.split)

lemma sint_of_nat_32: "n < 2 ^ 31 \<Longrightarrow> sint (of_nat n :: 32 word) = int n"
  by (simp add: signed_of_nat signed_take_bit_int_eq_self)

lemma pager_ok_set_line:
  "pager_ok p \<Longrightarrow> n < length (pg_lines p) \<Longrightarrow> pager_ok (set_line (of_nat n) p)"
  by (auto simp: pager_ok_def set_line_def unat_of_nat take_bit_eq_mod)

lemma pager_ok_move_window:
  assumes ok: "pager_ok p"
  shows "\<exists>q. move_window delta p = Some q \<and> pager_ok q"
proof -
  let ?n = "length (pg_lines p)"
  let ?v = "sint (ucast (win_line (pg_window p)) + delta :: 32 word)"
  have n: "0 < ?n" "?n < 2 ^ 31" using ok by (auto simp: pager_ok_def)
  have "of_nat ?n - 1 = (of_nat (?n - 1) :: 32 word)" using n(1) by (cases ?n) simp_all
  moreover have "sint (of_nat (?n - 1) :: 32 word) = int (?n - 1)" using n(2) by (intro sint_of_nat_32) simp
  ultimately have hi: "sint (of_nat ?n - 1 :: 32 word) = int (?n - 1)" by metis
  define m where "m = nat (if ?v < 0 then 0 else if int (?n - 1) < ?v then int (?n - 1) else ?v)"
  have m: "m < ?n" using n(1) unfolding m_def by (cases ?n) (auto simp: nat_less_iff)
  have "of_int (if ?v < 0 then 0 else if int (?n - 1) < ?v then int (?n - 1) else ?v) = (of_nat m :: u64)"
    by (simp add: m_def of_nat_nat del: of_int_of_nat_eq)
  then have "move_window delta p = Some (set_line (of_nat m) p)"
    unfolding move_window_def Let_def hi by simp
  with pager_ok_set_line [OF ok m] show ?thesis by simp
qed

lemma pager_ok_search: "pager_ok p \<Longrightarrow> pager_ok (search indexes p)"
  by (induction indexes p rule: search.induct) (auto intro: pager_ok_set_line)

lemma pager_ok_exec:
  assumes ok: "pager_ok p"
  shows "\<exists>q. pager_exec cmd p = Some q \<and> pager_ok q"
proof -
  have n: "0 < length (pg_lines p)" using ok by (auto simp: pager_ok_def)
  have "win_rows (pg_window p) \<noteq> 1" using ok by (auto simp: pager_ok_def word_le_nat_alt)
  then have rows: "0 < unat (win_rows (pg_window p) - 1)" by (simp add: unat_gt_0)
  have "pager_ok (set_line (of_nat (length (pg_lines p) - unat (win_rows (pg_window p) - 1))) p)"
    using n rows by (intro pager_ok_set_line [OF ok]) simp
  moreover have "pager_ok (set_line 0 p)" using pager_ok_set_line [OF ok n] by simp
  ultimately show ?thesis
    using pager_ok_move_window [OF ok] pager_ok_search [OF ok] ok
    by (cases cmd) (simp_all add: pager_exec_def Let_def)
qed

lemma pager_ok_key:
  assumes "pager_ok p" and "key_ascii key" and "key_command key p = (c, q)"
  shows "pager_ok q"
proof -
  have "ascii (pop_char (pg_search_pattern p))"
    using assms(1) ascii_subset [OF pop_char_set] by (auto simp: pager_ok_def)
  with assms show ?thesis
    by (auto simp: key_command_def view_mode_def search_mode_def key_ascii_def pager_ok_def
        split: pager_mode.splits key.splits scan_code.splits if_splits)
qed

lemma pager_ok_next:
  assumes "pager_ok p" and "input_ok event" and "next_command event p = (r, q)"
  shows "pager_ok q" "r \<noteq> Panics"
  using assms pager_ok_key [of p]
  by (auto simp: next_command_def input_ok_def split: input_event.splits prod.splits option.splits)

lemma pager_ok_step: "pager_step p key q \<Longrightarrow> pager_ok p \<Longrightarrow> input_ok key \<Longrightarrow> pager_ok q"
  by (erule pager_stepE) (metis option.inject pager_ok_exec pager_ok_next(1))+

lemma pager_ok_reach: "pager_reach input_ok p q \<Longrightarrow> pager_ok p \<Longrightarrow> pager_ok q"
  by (induction rule: pager_reach.induct) (auto intro: pager_ok_step)

lemma pager_ok_no_panic:
  assumes "pager_ok p" and "input_ok key"
  shows "\<not> panics p key"
proof -
  obtain r q where r: "next_command key p = (r, q)" by (cases "next_command key p")
  note ok = pager_ok_next [OF assms r]
  show ?thesis
  proof (cases r)
    case (Returns cmd)
    obtain q' where "pager_exec cmd q = Some q'" "pager_ok q'" using pager_ok_exec [OF ok(1)] by blast
    with r Returns pager_ok_render [of q'] show ?thesis by (auto simp: panics_def)
  qed (use r ok(2) in \<open>simp_all add: panics_def\<close>)
qed

subsection \<open>Highlighting\<close>

fun written :: "out_op list \<Rightarrow> string" where
  "written [] = []"
| "written (Write s # ops) = s @ written ops"
| "written (_ # ops) = written ops"

lemma written_append [simp]: "written (xs @ ys) = written xs @ written ys"
  by (induction xs rule: written.induct) simp_all

lemma find_sub_Some:
  "find_sub pat s = Some i \<Longrightarrow> starts_with (drop i s) pat \<and> (\<forall>j < i. \<not> starts_with (drop j s) pat)"
proof (induction pat s arbitrary: i rule: find_sub.induct)
  case (1 pat)
  then show ?case by (auto simp: starts_with_def split: if_splits)
next
  case (2 pat c s)
  show ?case
  proof (cases "starts_with (c # s) pat")
    case False
    with "2.prems" obtain j where j: "i = Suc j" "find_sub pat s = Some j" by auto
    have "\<not> starts_with (drop k (c # s)) pat" if "k < i" for k
      using that False j "2.IH" [OF False j(2)] by (cases k) auto
    with 2 False j show ?thesis by auto
  qed (use "2.prems" in auto)
qed

lemma find_sub_None: "find_sub pat s = None \<Longrightarrow> \<not> starts_with (drop j s) pat"
proof (induction pat s arbitrary: j rule: find_sub.induct)
  case (1 pat)
  then show ?case by (auto simp: starts_with_def split: if_splits)
next
  case (2 pat c s)
  then show ?case by (cases j) (auto split: if_splits)
qed

lemma starts_with_iff: "starts_with s p \<longleftrightarrow> (\<exists>t. s = p @ t)"
  by (auto simp: starts_with_def) (metis append_take_drop_id)

lemma ends_with_iff: "ends_with s p \<longleftrightarrow> (\<exists>t. s = t @ p)"
  by (auto simp: ends_with_def starts_with_iff) (metis rev_append rev_rev_ident)

lemma no_occurrence_ends_with:
  assumes "\<And>j. \<not> starts_with (drop j s) pat"
  shows "\<not> ends_with s pat"
proof
  assume "ends_with s pat"
  then obtain t where "s = t @ pat" by (auto simp: ends_with_iff)
  then show False using assms [of "length t"] by (simp add: starts_with_iff)
qed

text \<open>A piece of the line, once highlighted, is written as it is.\<close>

lemma written_piece:
  assumes "pat \<noteq> []" and "s = t @ pat" and "\<And>j. j < length t \<Longrightarrow> \<not> starts_with (drop j s) pat"
  shows "trim_end_str pat s = t" and "ends_with s pat"
proof -
  show ends: "ends_with s pat" using assms(2) by (auto simp: ends_with_iff)
  have "\<not> ends_with t pat"
  proof
    assume "ends_with t pat"
    then obtain u where "t = u @ pat" by (auto simp: ends_with_iff)
    then show False using assms(3) [of "length u"] assms(1,2) by (auto simp: starts_with_iff)
  qed
  then have "trim_end_str pat t = t" by (subst trim_end_str.simps) simp
  then show "trim_end_str pat s = t" using assms(1,2) ends by (subst trim_end_str.simps) simp
qed

lemma written_pieces:
  "pat \<noteq> [] \<Longrightarrow> written (concat (map (\<lambda>s. [SetColor LightGray Black, Write (trim_end_str pat s)]
     @ (if ends_with s pat then [SetColor Yellow Black, Write pat] else [])) (split_inclusive pat s))) = s"
proof (induction pat s rule: split_inclusive.induct)
  case (1 pat s)
  show ?case
  proof (cases "s = []")
    case True
    then show ?thesis by (subst split_inclusive.simps) simp
  next
    case s: False
    show ?thesis
    proof (cases "find_sub pat s")
      case None
      then have "\<not> ends_with s pat" using find_sub_None no_occurrence_ends_with by blast
      moreover from this have "trim_end_str pat s = s" by (subst trim_end_str.simps) simp
      ultimately show ?thesis using s 1 None by (subst split_inclusive.simps) simp
    next
      case (Some i)
      note first = find_sub_Some [OF Some]
      then obtain r where r: "drop i s = pat @ r" by (auto simp: starts_with_iff)
      have i: "i \<le> length s" using r 1(2) by (metis append_is_Nil_conv drop_all linorder_le_cases)
      have s_eq: "s = take i s @ pat @ r" using r by (metis append_take_drop_id)
      let ?piece = "take i s @ pat"
      have take: "take (i + length pat) s = ?piece" and drop: "drop (i + length pat) s = r"
        using i by (subst s_eq, simp)+
      have "\<not> starts_with (drop j ?piece) pat" if "j < length (take i s)" for j
      proof
        assume "starts_with (drop j ?piece) pat"
        then obtain u where "drop j ?piece = pat @ u" by (auto simp: starts_with_iff)
        moreover have "drop j s = drop j ?piece @ r" using that by (subst s_eq) simp
        ultimately have "starts_with (drop j s) pat" by (simp add: starts_with_iff)
        with first that i show False by simp
      qed
      from written_piece [OF 1(2) refl this] have "trim_end_str pat ?piece = take i s" "ends_with ?piece pat" by auto
      with 1(1) [OF _ Some] 1(2) s s_eq show ?thesis
        by (subst split_inclusive.simps) (simp add: Some take drop)
    qed
  qed
qed

text \<open>Highlighting does not change the text: what a row of the screen shows is the line, cut at the
  number of columns.\<close>

theorem render_line_written:
  assumes "render_line p idx = Some ops" and "idx < length (pg_lines p)"
  shows "written ops = take (unat (min (win_columns (pg_window p)) (of_nat (length (pg_lines p ! idx))))) (pg_lines p ! idx)
    @ newline"
  using assms written_pieces [of "pg_search_pattern p"]
  by (auto simp: render_line_def Let_def split: if_splits)

subsection \<open>Properties\<close>

lemma pager_new_ok:
  assumes "\<forall>l \<in> set (lines content). ascii l" and "lines content \<noteq> []" and "length (lines content) < 2 ^ 31"
    and "2 \<le> rows" and "of_nat (length (lines content) + 1) \<noteq> rows"
  shows "pager_ok (pager_new (Some (columns, rows)) content)"
  using assms by (simp add: pager_ok_def pager_new_def window_new_def window_default_def)

text \<open>C12. The pager does not panic on an ASCII text that is not empty and has fewer than \<open>2^31\<close> lines, on a
  screen of at least two rows, unless the text has exactly one line less than the screen has rows,
  whatever ASCII characters and special keys are pressed, in any order and number: provided that the
  firmware has an event for the keyboard and waiting for it succeeds. Reading a key may fail, which
  ends the pager with that error, or give none. While it waits for a key, the window is on a
  line of the text.\<close>
theorem pager_never_panics:
  assumes "\<forall>l \<in> set (lines content). ascii l" and "lines content \<noteq> []" and "length (lines content) < 2 ^ 31"
    and "2 \<le> rows" and "of_nat (length (lines content) + 1) \<noteq> rows" and events: "\<forall>event \<in> set events. input_ok event"
  shows "pager_display (Some (columns, rows)) content events \<noteq> Panicked
    \<and> (\<forall>p. pager_display (Some (columns, rows)) content events = Waiting p \<longrightarrow>
         unat (win_line (pg_window p)) < length (pg_lines p))"
proof -
  let ?p = "pager_new (Some (columns, rows)) content"
  have ok: "pager_ok ?p" using assms(1-5) by (rule pager_new_ok)
  then have "pager_display (Some (columns, rows)) content events = pager_run ?p events"
    using pager_ok_render [OF ok] by (auto simp: pager_display_def Let_def)
  moreover have "pager_run ?p events \<noteq> Panicked"
    using pager_run_reach(2) [OF events] pager_ok_reach ok pager_ok_no_panic by blast
  moreover have "pager_ok p" if "pager_run ?p events = Waiting p" for p
    using pager_run_reach(1) [OF events that] ok by (rule pager_ok_reach)
  ultimately show ?thesis by (auto simp: pager_ok_def)
qed

definition example_events :: "input_event list" where
  "example_events = [Pressed (Special ScPageDown), NoKey, Pressed (Printable ''/''), Pressed (Printable ''b''),
     Pressed (Printable newline), Pressed (Special ScDown), Pressed (Special ScUp)]"

theorem pager_never_panics_witness:
  "pager_display (Some (80, 2)) (''a'' @ newline @ ''b'') example_events \<noteq> Panicked"
proof -
  have lines: "lines (''a'' @ newline @ ''b'') = [''a'', ''b'']" by code_simp
  have "\<forall>l \<in> set (lines (''a'' @ newline @ ''b'')). ascii l" unfolding lines by (simp add: ascii_def)
  moreover have "\<forall>event \<in> set example_events. input_ok event"
    by (simp add: example_events_def input_ok_def key_ascii_def ascii_def newline_def)
  ultimately show ?thesis
    using pager_never_panics [of "''a'' @ newline @ ''b''" 2 example_events 80]
    unfolding lines by simp
qed

text \<open>The keys have to be ASCII: with a search pattern of 16 characters of two bytes, the part of it that
  fits in the status bar starts within a character, and the pager panics. And the keyboard has to
  work: without an event for it the pager panics as well.\<close>
theorem pager_panics_on_multibyte_pattern:
  "pager_display (Some (80, 2)) (''a'' @ newline @ ''b'')
     (Pressed (Printable ''/'') # replicate 16 (Pressed (Printable [CHR 0xC3, CHR 0xA9]))) = Panicked
   \<and> pager_display (Some (80, 2)) (''a'' @ newline @ ''b'') [NoKeyEvent] = Panicked"
  by code_simp

text \<open>The pager panics before it reads a key exactly if the text has one line less than the screen has
  rows: the line status then divides by zero. The command \<open>decode\<close> shows such a text whenever a
  crash log has that many lines.\<close>
theorem pager_panics_on_full_screen:
  assumes "\<forall>l \<in> set (lines content). ascii l"
  shows "pager_display (Some (columns, rows)) content [] = Panicked \<longleftrightarrow> of_nat (length (lines content) + 1) = rows"
proof -
  let ?p = "pager_new (Some (columns, rows)) content"
  have "render_page ?p \<noteq> None" using assms by (intro render_page_ok) (simp add: pager_new_def)
  then have "render ?p = None \<longleftrightarrow> render_line_status ?p = None"
    by (cases "render_line_status ?p") (auto simp: render_def render_status_bar_def pager_new_def)
  then show ?thesis
    using line_status_None_iff [of ?p] by (simp add: pager_display_def pager_new_def window_new_def)
qed

theorem pager_panics_on_full_screen_witness:
  "pager_display (Some (80, 3)) (''a'' @ newline @ ''b'') [] = Panicked"
proof -
  have lines: "lines (''a'' @ newline @ ''b'') = [''a'', ''b'']" by code_simp
  have "\<forall>l \<in> set (lines (''a'' @ newline @ ''b'')). ascii l" unfolding lines by (simp add: ascii_def)
  from pager_panics_on_full_screen [OF this, of 80 3] show ?thesis unfolding lines by simp
qed

end
