(* ===== verification/EfiApp.thy ===== *)
theory EfiApp
  imports App Pager
begin

text \<open>
  The EFI application around its pager: \<open>efi/src/args.rs\<close>, \<open>decode.rs\<close>, \<open>extract.rs\<close> and \<open>main.rs\<close>. What
  the crate \<open>uefi\<close> does for it is a parameter: the arguments of the shell, the file system, the text
  console, and the conversion to 16 bit strings. Log messages are left out, and a panic is \<open>None\<close>.
\<close>

subsection \<open>The command line\<close>

datatype args_error = InvalidArgument string | MissingArgument string

fun args_error_show :: "args_error \<Rightarrow> string" where
  "args_error_show (MissingArgument arg) = ''Missing argument: '' @ arg"
| "args_error_show (InvalidArgument arg) = ''Invalid argument: '' @ arg"

datatype efi_command =
    EfiExtract "string option"
  | EfiInfo "string list"
  | EfiDecode string
  | EfiTriage "string list"

record args =
  app_name :: string
  arg_help :: bool
  arg_wait :: bool
  arg_command :: "efi_command option"
  arg_verbosity :: nat

definition args_default :: args where
  "args_default = \<lparr>app_name = [], arg_help = False, arg_wait = False, arg_command = None, arg_verbosity = 0\<rparr>"

definition MAX_VERBOSITY_LEVEL :: nat where "MAX_VERBOSITY_LEVEL = 3"

text \<open>The loop over the tokens. \<open>verbosity\<close> is a sum of small counts and does not overflow.\<close>
fun parse_tokens :: "args \<Rightarrow> string list \<Rightarrow> args_error + args" where
  "parse_tokens args [] = Inr args"
| "parse_tokens args (token # tokens) =
     (if token = ''-h'' \<or> token = ''--help'' then parse_tokens (args\<lparr>arg_help := True\<rparr>) tokens
      else if token = ''-w'' \<or> token = ''--wait'' then parse_tokens (args\<lparr>arg_wait := True\<rparr>) tokens
      else if starts_with token ''-v'' then
        parse_tokens (args\<lparr>arg_verbosity := arg_verbosity args
          + min (length (filter (\<lambda>c. c = CHR ''v'') token)) MAX_VERBOSITY_LEVEL\<rparr>) tokens
      else if token = ''extract'' then
        (case tokens of
           [] \<Rightarrow> Inr (args\<lparr>arg_command := Some (EfiExtract None)\<rparr>)
         | [output_path] \<Rightarrow> Inr (args\<lparr>arg_command := Some (EfiExtract (Some output_path))\<rparr>)
         | _ # token # _ \<Rightarrow> Inl (InvalidArgument token))
      else if token = ''info'' then Inr (args\<lparr>arg_command := Some (EfiInfo tokens)\<rparr>)
      else if token = ''decode'' then
        (case tokens of
           [] \<Rightarrow> Inl (MissingArgument ''FILENAME'')
         | [input_path] \<Rightarrow> Inr (args\<lparr>arg_command := Some (EfiDecode input_path)\<rparr>)
         | _ # token # _ \<Rightarrow> Inl (InvalidArgument token))
      else if token = ''triage'' then Inr (args\<lparr>arg_command := Some (EfiTriage tokens)\<rparr>)
      else Inl (InvalidArgument token))"

text \<open>\<open>Args::parse\<close>, with the arguments of the shell, if there is a shell\<close>
definition args_parse :: "string list option \<Rightarrow> args_error + args" where
  "args_parse shell_param = (case shell_param of
     None \<Rightarrow> Inr (args_default\<lparr>arg_command := Some (EfiExtract None), arg_wait := True\<rparr>)
   | Some [] \<Rightarrow> parse_tokens (args_default\<lparr>app_name := ''iclg.efi''\<rparr>) []
   | Some (token # tokens) \<Rightarrow> parse_tokens (args_default\<lparr>app_name := token\<rparr>) tokens)"

definition nl :: "string \<Rightarrow> string" where "nl s = s @ [CHR 0x0A]"

definition show_help :: "string \<Rightarrow> args \<Rightarrow> string list" where
  "show_help version self =
     (let usage = (\<lambda>s. nl (nl (''Usage: '' @ app_name self @ '' [OPTIONS] '' @ s)));
          example = (\<lambda>s. nl (''    > '' @ app_name self @ s)) in
      [nl (''Lightweight Crash Log Framework - UEFI Application, version: '' @ version)]
      @ (case arg_command self of
           None \<Rightarrow> [usage ''[COMMAND] [ARGUMENTS]'', nl ''Commands:'', nl ''    extract'', nl ''    info'',
             nl ''    decode'', nl ''    triage'']
         | Some (EfiExtract _) \<Rightarrow> [usage ''extract [OUTPUT_PATH]'', nl ''Examples:'', example '' extract'',
             example '' extract sample.crashlog'']
         | Some (EfiInfo _) \<Rightarrow> [usage ''info [INPUT_PATH] ...'', nl ''Examples:'', example '' info sample.crashlog'',
             example '' info sample0.crashlog sample1.crashlog'']
         | Some (EfiTriage _) \<Rightarrow> [usage ''triage [INPUT_PATH] ...'', nl ''Examples:'', example '' triage sample.crashlog'',
             example '' triage sample0.crashlog sample1.crashlog'']
         | Some (EfiDecode _) \<Rightarrow> [usage ''decode [INPUT_PATH]'', nl ''Examples:'', example '' decode sample.crashlog''])
      @ [nl ''Options:'', nl ''     -h, --help      print this help'',
         nl ''     -w, --wait      wait for input before exiting'',
         nl ''     -v, -vv, --vvv  set the verbosity level (warn, info, debug, trace)''])"

subsection \<open>The services of the firmware\<close>

datatype uefi_fs_error = UefiIo status | UefiFsOther

text \<open>The file system protocol of the image, if it can be opened; the conversion to a 16 bit string; the
  text mode of the console, if the protocols can be opened; what the keyboard gives to the pager\<close>
record uefi_api =
  ua_file_system :: "status option"
  ua_read :: "string \<Rightarrow> uefi_fs_error + bytes"
  ua_write :: "string \<Rightarrow> bytes \<Rightarrow> uefi_fs_error + unit"
  ua_cstring16 :: "string \<Rightarrow> bool"
  ua_console :: "status + (u64 \<times> u64) option"
  ua_keys :: "input_event list"

text \<open>What the program does to the outside, in its order\<close>
datatype efi_effect = Printed string | Paged run_result | Written string bytes | WaitedForKey

definition fs_status :: "uefi_fs_error \<Rightarrow> status" where
  "fs_status err = (case err of UefiIo status \<Rightarrow> status | UefiFsOther \<Rightarrow> INVALID_PARAMETER)"

definition with_file_system :: "uefi_api \<Rightarrow> uefi_fs_error + 'a \<Rightarrow> status + 'a" where
  "with_file_system uefi r = (case ua_file_system uefi of
     Some status \<Rightarrow> Inl status
   | None \<Rightarrow> (case r of Inl err \<Rightarrow> Inl (fs_status err) | Inr v \<Rightarrow> Inr v))"

subsection \<open>Commands on a file\<close>

definition read_crashlog_from_file :: "'g uguid \<Rightarrow> uefi_api \<Rightarrow> string \<Rightarrow> status + 'g crashlog" where
  "read_crashlog_from_file G uefi input_path =
     (case with_file_system uefi (ua_read uefi input_path) of
        Inl status \<Rightarrow> Inl status
      | Inr data \<Rightarrow> (case crashlog_from_slice G data of
            Inl _ \<Rightarrow> Inl INVALID_PARAMETER | Inr crashlog \<Rightarrow> Inr crashlog))"

text \<open>\<open>crashlog.decode(&mut cm)\<close>, or without the collateral manager if there is none\<close>
definition decode_nodes :: "error + collateral_manager \<Rightarrow> 'g crashlog \<Rightarrow> node option" where
  "decode_nodes cm crashlog = (case cm of
     Inr cm \<Rightarrow> map_option fst (crashlog_decode crashlog cm)
   | Inl _ \<Rightarrow> crashlog_decode_without_cm crashlog)"

text \<open>\<open>J\<close> is \<open>serde_json::to_string_pretty\<close>, which gives \<open>None\<close> where the program panics.\<close>
definition efi_decode :: "'g uguid \<Rightarrow> uefi_api \<Rightarrow> (json \<Rightarrow> string option) \<Rightarrow> error + collateral_manager
    \<Rightarrow> string \<Rightarrow> (efi_effect list \<times> (status + unit)) option" where
  "efi_decode G uefi J cm input_path =
     (case read_crashlog_from_file G uefi input_path of
        Inl status \<Rightarrow> Some ([], Inl status)
      | Inr crashlog \<Rightarrow> do {
          nodes \<leftarrow> decode_nodes cm crashlog;
          serialized_data \<leftarrow> J (node_serialize nodes);
          case ua_console uefi of
            Inl status \<Rightarrow> Some ([], Inl status)
          | Inr mode \<Rightarrow>
              (case pager_display mode serialized_data (ua_keys uefi) of
                 Panicked \<Rightarrow> None
               | Failed status \<Rightarrow> Some ([Paged (Failed status)], Inl status)
               | result \<Rightarrow> Some ([Paged result], Inr ())) })"

definition info_line :: "collateral_manager \<Rightarrow> nat \<times> nat \<times> crash_record \<Rightarrow> string" where
  "info_line cm = (\<lambda>(i, j, record). let h = rec_header record in
     nl (fmt_right 2 (show_dec i) @ ''-'' @ fmt_left 2 (show_dec j) @ '' '' @ fmt_left 16 (record_type_text h) @ '' ''
       @ fmt_right 5 (show_dec (unat (header_revision h))) @ '' '' @ fmt_left 8 (record_product cm h) @ '' ''
       @ fmt_right 6 (show_dec (header_record_size h)) @ '' '' @ fmt_right 4 (show_dec (unat (header_socket_id h))) @ '' ''
       @ fmt_left 9 (checksum_text record) @ '' '' @ option_or (header_die h cm) []))"

definition efi_info :: "'g uguid \<Rightarrow> uefi_api \<Rightarrow> error + collateral_manager \<Rightarrow> string
    \<Rightarrow> efi_effect list \<times> (status + unit)" where
  "efi_info G uefi cm input_path =
     (case read_crashlog_from_file G uefi input_path of
        Inl status \<Rightarrow> ([], Inl status)
      | Inr crashlog \<Rightarrow>
          (case cm of
             Inl _ \<Rightarrow> ([], Inl NOT_READY)
           | Inr cm \<Rightarrow> (map (\<lambda>r. Printed (info_line cm r)) (numbered_records crashlog), Inr ())))"

definition efi_triage :: "'g uguid \<Rightarrow> uefi_api \<Rightarrow> error + collateral_manager \<Rightarrow> string
    \<Rightarrow> (efi_effect list \<times> (status + unit)) option" where
  "efi_triage G uefi cm input_path =
     (case read_crashlog_from_file G uefi input_path of
        Inl status \<Rightarrow> Some ([], Inl status)
      | Inr crashlog \<Rightarrow> do {
          nodes \<leftarrow> decode_nodes cm crashlog;
          Some (map (\<lambda>tag. Printed (nl (tag_show tag))) (analyzer_analyze (with_input analyzer_default nodes)), Inr ()) })"

subsection \<open>Extraction\<close>

definition generate_filename :: "uefi_api \<Rightarrow> 'g crashlog \<Rightarrow> status + string" where
  "generate_filename uefi crashlog = (let name = metadata_show (cl_metadata crashlog) @ ''.crashlog'' in
     if ua_cstring16 uefi name then Inr name else Inl INVALID_PARAMETER)"

definition efi_write_file :: "uefi_api \<Rightarrow> string \<Rightarrow> bytes \<Rightarrow> efi_effect list \<times> (status + unit)" where
  "efi_write_file uefi path data =
     (case with_file_system uefi (ua_write uefi path data) of
        Inl status \<Rightarrow> ([], Inl status) | Inr _ \<Rightarrow> ([Written path data], Inr ()))"

definition efi_extract :: "'g uguid \<Rightarrow> ('g, 't) efi_env \<Rightarrow> uefi_api \<Rightarrow> string option
    \<Rightarrow> efi_effect list \<times> (status + unit)" where
  "efi_extract G efi uefi output_path =
     (case efi_extract_crashlog G efi of
        Inl _ \<Rightarrow> ([], Inl NOT_FOUND)
      | Inr crashlog \<Rightarrow>
          (case (case output_path of Some path \<Rightarrow> Inr path | None \<Rightarrow> generate_filename uefi crashlog) of
             Inl status \<Rightarrow> ([], Inl status)
           | Inr filename \<Rightarrow> efi_write_file uefi filename (crashlog_to_bytes G crashlog)))"

subsection \<open>The program\<close>

text \<open>The loop of \<open>info\<close> and \<open>triage\<close> over the input files: an error is printed, and the loop goes on.\<close>
fun for_files :: "bool \<Rightarrow> (string \<Rightarrow> (efi_effect list \<times> (status + unit)) option) \<Rightarrow> (status \<Rightarrow> string)
    \<Rightarrow> string list \<Rightarrow> efi_effect list option" where
  "for_files several f failed [] = Some []"
| "for_files several f failed (input_path # input_paths) = do {
     (out, r) \<leftarrow> f input_path;
     rest \<leftarrow> for_files several f failed input_paths;
     Some ((if several then [Printed ([CHR 0x0A] @ nl (input_path @ '':''))] else []) @ out
       @ (case r of Inl err \<Rightarrow> [Printed (nl (failed err))] | Inr _ \<Rightarrow> []) @ rest) }"

text \<open>\<open>S\<close> displays a status.\<close>
definition efi_run_command :: "'g uguid \<Rightarrow> ('g, 't) efi_env \<Rightarrow> uefi_api \<Rightarrow> (json \<Rightarrow> string option)
    \<Rightarrow> (status \<Rightarrow> string) \<Rightarrow> string \<Rightarrow> error + collateral_manager \<Rightarrow> args
    \<Rightarrow> (efi_effect list \<times> (status + unit)) option" where
  "efi_run_command G efi uefi J S version cm args =
     (let help = map Printed (show_help version args) in
      if arg_help args then Some (help, Inr ())
      else case arg_command args of
          None \<Rightarrow> Some (help, Inl INVALID_PARAMETER)
        | Some (EfiExtract output_path) \<Rightarrow> Some (efi_extract G efi uefi output_path)
        | Some (EfiInfo input_paths) \<Rightarrow> map_option (\<lambda>out. (out, Inr ()))
            (for_files (length input_paths > 1) (\<lambda>p. Some (efi_info G uefi cm p))
              (\<lambda>err. ''Cannot decode sample: '' @ S err) input_paths)
        | Some (EfiDecode input_path) \<Rightarrow> efi_decode G uefi J cm input_path
        | Some (EfiTriage input_paths) \<Rightarrow> map_option (\<lambda>out. (out, Inr ()))
            (for_files (length input_paths > 1) (efi_triage G uefi cm)
              (\<lambda>err. ''Cannot triage sample: '' @ S err) input_paths))"

definition wait_for_input :: "efi_effect list" where
  "wait_for_input = [Printed (nl ''Press any key to continue''), WaitedForKey]"

definition run_command_and_wait :: "'g uguid \<Rightarrow> ('g, 't) efi_env \<Rightarrow> uefi_api \<Rightarrow> (json \<Rightarrow> string option)
    \<Rightarrow> (status \<Rightarrow> string) \<Rightarrow> string \<Rightarrow> error + collateral_manager \<Rightarrow> args
    \<Rightarrow> (efi_effect list \<times> (status + unit)) option" where
  "run_command_and_wait G efi uefi J S version cm args = do {
     (out, res) \<leftarrow> efi_run_command G efi uefi J S version cm args;
     Some (out @ (if arg_wait args then wait_for_input else []), res) }"

text \<open>The level of the log is set before the command runs; a command line that is not accepted is
  reported at the level of errors.\<close>
definition efi_main :: "'g uguid \<Rightarrow> ('g, 't) efi_env \<Rightarrow> uefi_api \<Rightarrow> (json \<Rightarrow> string option)
    \<Rightarrow> (status \<Rightarrow> string) \<Rightarrow> string \<Rightarrow> error + collateral_manager \<Rightarrow> string list option
    \<Rightarrow> (level_filter \<times> efi_effect list \<times> status) option" where
  "efi_main G efi uefi J S version cm shell_param =
     (case args_parse shell_param of
        Inl err \<Rightarrow> Some (LevelError, [], INVALID_PARAMETER)
      | Inr args \<Rightarrow> do {
          (out, res) \<leftarrow> run_command_and_wait G efi uefi J S version cm args;
          Some (log_level (arg_verbosity args), out, case res of Inr _ \<Rightarrow> SUCCESS | Inl err \<Rightarrow> err) })"

subsection \<open>The command lines that are accepted\<close>

definition is_option :: "string \<Rightarrow> bool" where
  "is_option token \<longleftrightarrow> token \<in> {''-h'', ''--help'', ''-w'', ''--wait''} \<or> starts_with token ''-v''"

text \<open>A command with its operands, or nothing\<close>
fun command_words :: "string list \<Rightarrow> efi_command option \<Rightarrow> bool" where
  "command_words [] command \<longleftrightarrow> command = None"
| "command_words (word # operands) command \<longleftrightarrow>
     (word = ''extract'' \<and> (operands = [] \<and> command = Some (EfiExtract None)
        \<or> (\<exists>p. operands = [p] \<and> command = Some (EfiExtract (Some p)))))
     \<or> (word = ''info'' \<and> command = Some (EfiInfo operands))
     \<or> (word = ''decode'' \<and> (\<exists>p. operands = [p] \<and> command = Some (EfiDecode p)))
     \<or> (word = ''triage'' \<and> command = Some (EfiTriage operands))"

lemma command_words_no_option: "command_words (word # operands) command \<Longrightarrow> \<not> is_option word"
  by (auto simp: is_option_def starts_with_def)

text \<open>The effect of an option\<close>
definition apply_option :: "string \<Rightarrow> args \<Rightarrow> args" where
  "apply_option token args =
     (if token = ''-h'' \<or> token = ''--help'' then args\<lparr>arg_help := True\<rparr>
      else if token = ''-w'' \<or> token = ''--wait'' then args\<lparr>arg_wait := True\<rparr>
      else args\<lparr>arg_verbosity := arg_verbosity args + min (length (filter (\<lambda>c. c = CHR ''v'') token)) MAX_VERBOSITY_LEVEL\<rparr>)"

lemma apply_option_fields [simp]:
  "arg_command (apply_option token args) = arg_command args" "app_name (apply_option token args) = app_name args"
  by (simp_all add: apply_option_def)

lemma apply_option_verbosity: "arg_verbosity (apply_option token args) \<le> arg_verbosity args + MAX_VERBOSITY_LEVEL"
  by (simp add: apply_option_def)

lemma parse_tokens_option:
  assumes "is_option token"
  shows "parse_tokens args (token # tokens) = parse_tokens (apply_option token args) tokens"
proof -
  let ?h = "token = ''-h'' \<or> token = ''--help''" and ?wait = "token = ''-w'' \<or> token = ''--wait''"
  consider ?h | "\<not> ?h" ?wait | "\<not> ?h" "\<not> ?wait" "starts_with token ''-v''"
    using assms unfolding is_option_def by blast
  then show ?thesis
    by cases (simp_all only: parse_tokens.simps apply_option_def if_True if_False simp_thms)
qed

lemma parse_tokens_word:
  assumes "\<not> is_option word"
  shows "parse_tokens args (word # operands) =
    (if word = ''extract'' then
        (case operands of
           [] \<Rightarrow> Inr (args\<lparr>arg_command := Some (EfiExtract None)\<rparr>)
         | [output_path] \<Rightarrow> Inr (args\<lparr>arg_command := Some (EfiExtract (Some output_path))\<rparr>)
         | _ # token # _ \<Rightarrow> Inl (InvalidArgument token))
      else if word = ''info'' then Inr (args\<lparr>arg_command := Some (EfiInfo operands)\<rparr>)
      else if word = ''decode'' then
        (case operands of
           [] \<Rightarrow> Inl (MissingArgument ''FILENAME'')
         | [input_path] \<Rightarrow> Inr (args\<lparr>arg_command := Some (EfiDecode input_path)\<rparr>)
         | _ # token # _ \<Rightarrow> Inl (InvalidArgument token))
      else if word = ''triage'' then Inr (args\<lparr>arg_command := Some (EfiTriage operands)\<rparr>)
      else Inl (InvalidArgument word))"
  using assms unfolding is_option_def parse_tokens.simps by simp

lemma parse_word_outcome:
  assumes "\<not> is_option word"
  shows "parse_tokens args (word # operands) = Inr args' \<Longrightarrow>
      command_words (word # operands) (arg_command args') \<and> args' = args\<lparr>arg_command := arg_command args'\<rparr>"
    and "command_words (word # operands) command \<Longrightarrow>
      parse_tokens args (word # operands) = Inr (args\<lparr>arg_command := command\<rparr>)"
  unfolding parse_tokens_word [OF assms]
  by (auto split: if_splits list.splits)

lemma parse_tokens_accepts:
  "arg_command args = None \<Longrightarrow>
   (\<exists>args'. parse_tokens args tokens = Inr args' \<and> arg_command args' = command)
     \<longleftrightarrow> command_words (dropWhile is_option tokens) command"
proof (induction tokens arbitrary: args)
  case (Cons token tokens)
  show ?case
  proof (cases "is_option token")
    case True
    with Cons.IH [of "apply_option token args"] Cons.prems show ?thesis
      by (simp add: parse_tokens_option del: parse_tokens.simps)
  next
    case False
    with parse_word_outcome [OF False] show ?thesis
      by (simp del: parse_tokens.simps command_words.simps) (metis args.select_convs(4) args.simps(4) args.surjective args.update_convs(4))
  qed
qed auto

lemma parse_tokens_verbosity:
  "parse_tokens args tokens = Inr args' \<Longrightarrow>
   arg_verbosity args' \<le> arg_verbosity args + MAX_VERBOSITY_LEVEL * length (takeWhile is_option tokens)"
proof (induction tokens arbitrary: args)
  case (Cons token tokens)
  show ?case
  proof (cases "is_option token")
    case True
    with Cons.IH [of "apply_option token args"] Cons.prems apply_option_verbosity [of token args] show ?thesis
      by (simp add: parse_tokens_option del: parse_tokens.simps)
  next
    case False
    with parse_word_outcome(1) [OF False Cons.prems] show ?thesis
      by (metis args.select_convs(5) args.surjective args.update_convs(4) le_add1)
  qed
qed simp

text \<open>C40. The EFI application accepts exactly the command lines of options followed by nothing or by one
  command with its operands: at most one for \<open>extract\<close>, exactly one for \<open>decode\<close>, any number for \<open>info\<close> and
  \<open>triage\<close>; and the command it runs is that one. Options after the command are operands.\<close>
theorem args_parse_accepts:
  "(\<exists>args. args_parse (Some (name # tokens)) = Inr args \<and> arg_command args = command)
     \<longleftrightarrow> command_words (dropWhile is_option tokens) command"
  using parse_tokens_accepts [of "args_default\<lparr>app_name := name\<rparr>" tokens command]
  by (simp add: args_parse_def args_default_def)

text \<open>Every option raises the verbosity by at most three, so that levels above \<open>debug\<close> take two of them.\<close>
lemma args_verbosity_bound:
  "args_parse (Some (name # tokens)) = Inr args \<Longrightarrow>
   arg_verbosity args \<le> MAX_VERBOSITY_LEVEL * length (takeWhile is_option tokens)"
  using parse_tokens_verbosity [of "args_default\<lparr>app_name := name\<rparr>" tokens args]
  by (simp add: args_parse_def args_default_def)

text \<open>The help text lists \<open>--vvv\<close>, which is not an option.\<close>
lemma triple_v_rejected: "args_parse (Some [name, ''--vvv'']) = Inl (InvalidArgument ''--vvv'')"
  by (simp add: args_parse_def starts_with_def)

end
