(* ===== verification/Platform.thy ===== *)
theory Platform
  imports AppExtract EfiApp
begin

text \<open>
  From the firmware to the files: what the command \<open>extract\<close> of the two applications writes, composed
  from the sources (\<open>source/\<close>), the container (\<open>crashlog.rs\<close>), and the search for file names
  (\<open>app/src/extract.rs\<close>, \<open>efi/src/extract.rs\<close>).
\<close>

subsection \<open>All PMT endpoints\<close>

text \<open>An endpoint holds a region, or nothing that can be extracted.\<close>
definition endpoint_holds :: "fs \<Rightarrow> endpoint \<Rightarrow> region option \<Rightarrow> bool" where
  "endpoint_holds fs ep content \<longleftrightarrow>
     (let file = fs_read fs (path_push (ep_path ep) ''crashlog'') in
      case content of
        Some region \<Rightarrow> (case file of Inr bytes \<Rightarrow> region_image region bytes | Inl _ \<Rightarrow> False)
      | None \<Rightarrow> (case rbind (io_result file) region_from_slice of Inl _ \<Rightarrow> True | Inr _ \<Rightarrow> False))"

lemma endpoint_holds_extract:
  "endpoint_holds fs ep content \<Longrightarrow>
   (case endpoint_extract fs ep :: error + 'g crashlog of Inr c \<Rightarrow> Some c | Inl _ \<Rightarrow> None)
     = map_option (\<lambda>region. \<lparr>cl_regions = unpack_region (region_bare region), cl_metadata = metadata_default\<rparr>) content"
proof (cases content)
  case None
  assume "endpoint_holds fs ep content"
  with None show ?thesis by (auto simp: endpoint_holds_def Let_def endpoint_extract_def split: sum.splits)
next
  case (Some region)
  assume "endpoint_holds fs ep content"
  with Some have "endpoint_extract fs ep
      = Inr (\<lparr>cl_regions = unpack_region (region_bare region), cl_metadata = metadata_default\<rparr> :: 'g crashlog)"
    by (auto simp: endpoint_holds_def Let_def intro: endpoint_extract_region split: sum.splits)
  with Some show ?thesis by simp
qed

lemma endpoints_hold_regions:
  "list_all2 (endpoint_holds fs) eps contents \<Longrightarrow>
   concat (map cl_regions (List.map_filter (\<lambda>ep. case endpoint_extract fs ep :: error + 'g crashlog of
     Inr c \<Rightarrow> Some c | Inl _ \<Rightarrow> None) eps)) = regions_reread (List.map_filter id contents)"
proof (induction eps contents rule: list_all2_induct)
  case (Cons ep eps content contents)
  with endpoint_holds_extract [OF Cons.hyps(1), where 'g = 'g] show ?case
    by (cases content) (simp_all add: List.map_filter_simps)
qed (simp add: List.map_filter_simps)

lemma from_pmt_sysfs_regions:
  fixes fs :: fs
  assumes "list_all2 (endpoint_holds fs) (get_all_endpoints fs pmt_sysfs_default) contents"
    and "List.map_filter id contents \<noteq> []"
  shows "from_pmt_sysfs fs = Inr (\<lparr>cl_regions = concat (map unpack_region (regions_reread (List.map_filter id contents))),
    cl_metadata = metadata_default\<rparr> :: 'g crashlog)"
proof -
  have "regions_reread (List.map_filter id contents) \<noteq> []"
    using assms(2) regions_reread_subseq [of "List.map_filter id contents"] by auto
  then show ?thesis
    unfolding from_pmt_sysfs_def endpoints_hold_regions [OF assms(1), where 'g = 'g] by (simp add: from_regions_unpack)
qed

lemma from_acpi_sysfs_regions:
  assumes "guid_codec G" "cl_regions c \<noteq> []" "\<forall>r \<in> set (cl_regions c). region_ok r" "crashlog_berr_size c < 2 ^ 32"
    and "fs_read fs (berr_path acpi_sysfs_default) = Inr (berr_to_bytes G (berr_from_crashlog G c))"
  shows "from_acpi_sysfs G fs = Inr \<lparr>cl_regions = regions_reread (cl_regions c), cl_metadata = metadata_default\<rparr>"
  using crashlog_berr_extract [OF assms(1-4)] assms(5)
  by (auto simp: from_acpi_sysfs_def acpi_sysfs_extract_def)

lemma unpack_flat:
  assumes "\<forall>region \<in> set regions. region_flat region"
  shows "concat (map unpack_region regions) = regions"
proof -
  have "map region_bare regions = regions"
    using assms by (intro map_idI region_bare_id) (simp add: region_flat_def)
  with regions_reread_flat [OF assms] show ?thesis by (simp add: regions_reread_def)
qed

lemma read_crashlog_written:
  assumes "guid_codec G" and "crashlog_ok G c" and "cl_metadata c = metadata_default"
    and "fs_read fs p = Inr (crashlog_to_bytes G c)"
  shows "read_crashlog G fs p = Inr \<lparr>cl_regions = regions_reread (cl_regions c), cl_metadata = metadata_default\<rparr>"
  using crashlog_cper_roundtrip [OF assms(1,2)] assms(3,4) by (simp add: read_crashlog_def metadata_default_def)

subsection \<open>Extraction under Linux\<close>

text \<open>C3. End to end under Linux: the command \<open>extract\<close> without sources writes two new files, one with the
  regions that ACPI reports and one with those of all PMT endpoints together, in the order of the
  endpoints, and reading the files gives these regions. It is stated for systems like this: the BERT
  file is a boot error record that this library can have written for a crash log with at least one region and
  less than \<open>2^32\<close> bytes; every PMT endpoint either holds a region, followed by nothing or a
  termination marker and anything else, or cannot be read or parsed, and then it is left out; at least one holds a
  region; in all these regions, and those nested in them, the data of every record starts with its
  header and is as long as the header says (but for a truncated last record), and each of the two
  crash logs fits in a CPER of fewer than \<open>2^16\<close> sections and \<open>2^32\<close> bytes; the output directory (the current
  one if none is given) exists and has no links and no unreadable entries in it; and the file system has
  fewer than \<open>2^31 - 2\<close> entries. If no region has a box record or a parent header then the files give
  exactly the regions reported; otherwise every region is followed by the ones nested in its boxes, once more
  for each time that the program unpacks them: when it reads the boot error record, when it extracts
  an endpoint and when it gathers the endpoints, and when it reads the file.\<close>
theorem linux_extract_decodes:
  fixes efi :: "('g, 't) efi_env"
  assumes "guid_codec G"
    and berr: "cl_regions reported \<noteq> []" "\<forall>r \<in> set (cl_regions reported). region_ok r" "crashlog_berr_size reported < 2 ^ 32"
      "fs_read fs (berr_path acpi_sysfs_default) = Inr (berr_to_bytes G (berr_from_crashlog G reported))"
    and pmt: "list_all2 (endpoint_holds fs) (get_all_endpoints fs pmt_sysfs_default) contents"
      "List.map_filter id contents = held" "held \<noteq> []"
    and ok: "crashlog_ok G \<lparr>cl_regions = regions_reread (cl_regions reported), cl_metadata = metadata_default\<rparr>"
      "crashlog_ok G \<lparr>cl_regions = concat (map unpack_region (regions_reread held)), cl_metadata = metadata_default\<rparr>"
    and out: "plain_out_dir fs output_path" "tree_entries (fs_root fs) + 2 < 2 ^ 31"
  shows "\<exists>p q fs'. app_extract G Linux efi api output_path [] fs = Some (print_path p @ print_path q, fs')
    \<and> p \<noteq> q \<and> \<not> fs_exists fs p \<and> \<not> fs_exists fs q
    \<and> read_crashlog G fs' p = Inr \<lparr>cl_regions = regions_reread (regions_reread (cl_regions reported)),
        cl_metadata = metadata_default\<rparr>
    \<and> read_crashlog G fs' q = Inr \<lparr>cl_regions = regions_reread (concat (map unpack_region (regions_reread held))),
        cl_metadata = metadata_default\<rparr>
    \<and> ((\<forall>region \<in> set (cl_regions reported). region_flat region) \<longrightarrow>
         regions_reread (regions_reread (cl_regions reported)) = cl_regions reported)
    \<and> ((\<forall>region \<in> set held. region_flat region) \<longrightarrow>
         regions_reread (concat (map unpack_region (regions_reread held))) = held)"
proof -
  define acpi where "acpi = (\<lparr>cl_regions = regions_reread (cl_regions reported), cl_metadata = metadata_default\<rparr> :: 'g crashlog)"
  define pmt where "pmt = (\<lparr>cl_regions = concat (map unpack_region (regions_reread held)), cl_metadata = metadata_default\<rparr> :: 'g crashlog)"
  have "from_acpi_sysfs G fs = Inr acpi"
    unfolding acpi_def using assms(1) berr by (rule from_acpi_sysfs_regions)
  moreover have "from_pmt_sysfs fs = Inr pmt"
    unfolding pmt_def using from_pmt_sysfs_regions [OF assms(6), where 'g = 'g] assms(7,8) by simp
  ultimately have result: "extract_result G Linux fs efi api [] = Some [acpi, pmt]"
    by (simp add: extract_result_def List.map_filter_simps)
  have md: "cl_metadata acpi = metadata_default" "cl_metadata pmt = metadata_default" by (simp_all add: acpi_def pmt_def)
  have "CHR ''/'' \<notin> set (metadata_show (metadata_default :: 'g metadata))"
    by (simp add: metadata_show_def metadata_default_def)
  then have "\<exists>ps fs'. write_crashlogs G output_path [acpi, pmt] fs = Some (concat (map print_path ps), fs') \<and> distinct ps
    \<and> list_all2 (\<lambda>c p. \<not> fs_exists fs p \<and> fs_read fs' p = Inr (crashlog_to_bytes G c)) [acpi, pmt] ps"
    using md out by (intro write_crashlogs_in_dir) auto
  then obtain p q fs' where w: "write_crashlogs G output_path [acpi, pmt] fs = Some (print_path p @ print_path q, fs')"
    and pq: "p \<noteq> q" "\<not> fs_exists fs p" "\<not> fs_exists fs q"
    and read: "fs_read fs' p = Inr (crashlog_to_bytes G acpi)" "fs_read fs' q = Inr (crashlog_to_bytes G pmt)"
    by (auto simp: list_all2_Cons1)
  note files = read_crashlog_written [OF assms(1) ok(1) _ read(1) [unfolded acpi_def]]
    read_crashlog_written [OF assms(1) ok(2) _ read(2) [unfolded pmt_def]]
  moreover have "app_extract G Linux efi api output_path [] fs = Some (print_path p @ print_path q, fs')"
    using result w by (simp only: app_extract_def Option.bind.bind_lunit)
  ultimately show ?thesis
    using pq by (intro exI [of _ p] exI [of _ q] exI [of _ fs']) (simp add: regions_reread_flat unpack_flat)
qed

text \<open>A Linux system with a boot error record and one PMT endpoint, and an empty directory \<open>out\<close>\<close>
definition example_linux :: "bytes \<Rightarrow> fs" where
  "example_linux berr = \<lparr>fs_root = Dir [
     (''sys'', Dir [
       (''firmware'', Dir [(''acpi'', Dir [(''tables'', Dir [(''data'', Dir [(''BERT'', File berr)])])])]),
       (''class'', Dir [(''intel_pmt'', Dir [(''crashlog0'', Dir [(''crashlog'', File (region_to_bytes example_region))])])])]),
     (''out'', Dir [])], fs_cwd = []\<rparr>"

definition example_log :: "128 word crashlog" where
  "example_log = \<lparr>cl_regions = [example_region], cl_metadata = metadata_default\<rparr>"

definition example_efi :: "(128 word, unit) efi_env" where
  "example_efi = \<lparr>efi_config_tables = [], efi_acpi2_guid = 0, efi_tables_from_rsdp = (\<lambda>_. Some ()),
     efi_find_table_bert = (\<lambda>_. None), efi_memory = (\<lambda>_. 0), efi_get_time = None\<rparr>"

lemma example_linux_endpoints:
  "get_all_endpoints (example_linux berr) pmt_sysfs_default
     = [\<lparr>ep_path = Path True [[], [], ''sys'', ''class'', ''intel_pmt'', ''crashlog0'']\<rparr>]"
  by code_simp

lemma example_linux_facts:
  "fs_read (example_linux berr) (berr_path acpi_sysfs_default) = Inr berr"
  "fs_read (example_linux berr) (path_push (Path True [[], [], ''sys'', ''class'', ''intel_pmt'', ''crashlog0'']) ''crashlog'')
     = Inr (region_to_bytes example_region)"
  "plain_out_dir (example_linux berr) (Some (Path False [''out'']))"
  "tree_entries (fs_root (example_linux berr)) = 11"
  by code_simp+

lemma example_log_ok: "crashlog_ok uguid_word example_log" "crashlog_berr_size example_log < 2 ^ 32"
  by (simp_all add: crashlog_ok_def example_log_def example_region_ok example_lengths metadata_default_def
      crashlog_cper_size_def RECORD_HEADER_SIZE_def SECTION_DESCRIPTOR_SIZE_def HEADER_REV2_SIZE_def
      crashlog_berr_size_def DATA_ENTRY_HEADER_SIZE_def)

theorem linux_extract_decodes_witness:
  "\<exists>p q fs'. app_extract uguid_word Linux example_efi example_api (Some (Path False [''out''])) []
      (example_linux (berr_to_bytes uguid_word (berr_from_crashlog uguid_word example_log))) = Some (print_path p @ print_path q, fs')
    \<and> p \<noteq> q \<and> read_crashlog uguid_word fs' p = Inr example_log \<and> read_crashlog uguid_word fs' q = Inr example_log"
proof -
  let ?fs = "example_linux (berr_to_bytes uguid_word (berr_from_crashlog uguid_word example_log))"
  have holds: "list_all2 (endpoint_holds ?fs) (get_all_endpoints ?fs pmt_sysfs_default) [Some example_region]"
    unfolding example_linux_endpoints
    by (simp add: endpoint_holds_def example_linux_facts example_region_ok region_image_to_bytes)
  have regions: "regions_reread [example_region] = [example_region]" "unpack_region example_region = [example_region]"
    using example_region_ok regions_reread_flat [of "[example_region]"] unpack_flat [of "[example_region]"] by simp_all
  have reported: "cl_regions example_log \<noteq> []" "\<forall>r \<in> set (cl_regions example_log). region_ok r"
    "cl_regions example_log = [example_region]"
    by (simp_all add: example_log_def example_region_ok)
  have ok: "crashlog_ok uguid_word \<lparr>cl_regions = [example_region], cl_metadata = metadata_default\<rparr>"
    using example_log_ok(1) by (simp add: example_log_def)
  have "tree_entries (fs_root ?fs) + 2 < 2 ^ 31" by (simp add: example_linux_facts)
  then show ?thesis
    using linux_extract_decodes [OF guid_word.guid_codec_axioms reported(1,2) example_log_ok(2) example_linux_facts(1) holds
        _ _ _ _ example_linux_facts(3), where efi = example_efi and api = example_api] ok regions reported(3)
    by (fastforce simp: List.map_filter_simps example_log_def)
qed

end
