(* ===== verification/Unpack.thy ===== *)
theory Unpack
  imports AppExtract
begin

text \<open>
  What the command \<open>unpack\<close> leaves (\<open>app/src/unpack.rs\<close>): a file for each region beside the input file.
\<close>

subsection \<open>Files in a directory\<close>

text \<open>The path \<open>pre\<close> leads to a directory \<open>d\<close> without links.\<close>
definition in_dir :: "fs \<Rightarrow> bool \<Rightarrow> string list \<Rightarrow> string list \<Rightarrow> (string \<times> fs_node) list \<Rightarrow> bool" where
  "in_dir fs a pre d es \<longleftrightarrow> walk (fs_root fs) max_symlinks (if a then [] else fs_cwd fs) pre = Inr d
     \<and> node_at (fs_root fs) d = Some (Dir es) \<and> plain_dir es"

lemma in_dir_canonical:
  assumes "in_dir fs a pre d es" and "plain_name c" and "map_of es c = Some (File b)"
  shows "canonicalize fs (Path a (pre @ [c])) = Inr (d @ [c])" "node_at (fs_root fs) (d @ [c]) = Some (File b)"
proof -
  show "node_at (fs_root fs) (d @ [c]) = Some (File b)"
    using assms by (simp add: in_dir_def node_at_append)
  from assms walk_append [of "fs_root fs" max_symlinks "if a then [] else fs_cwd fs" pre d "[c]"] obtain j where
    "walk (fs_root fs) max_symlinks (if a then [] else fs_cwd fs) (pre @ [c]) = walk (fs_root fs) j d [c]"
    by (auto simp: in_dir_def)
  also have "\<dots> = Inr (d @ [c])" using assms by (simp add: in_dir_def plain_name_def node_at_append)
  finally show "canonicalize fs (Path a (pre @ [c])) = Inr (d @ [c])"
    using assms(2) by (auto simp: canonicalize_def plain_name_def)
qed

lemma in_dir_read:
  "in_dir fs a pre d es \<Longrightarrow> plain_name c \<Longrightarrow> map_of es c = Some (File b) \<Longrightarrow> fs_read fs (Path a (pre @ [c])) = Inr b"
  by (rule fs_read_canonical [OF in_dir_canonical])

lemma update_subset: "set (AList.update k v al) \<subseteq> insert (k, v) (set al)"
  by (induction al) auto

lemma plain_dir_update: "plain_dir es \<Longrightarrow> plain_dir (AList.update c (File b) es)"
  using update_subset [of c "File b" es] by (auto simp: plain_dir_def dest!: subsetD)

text \<open>Writing a file there, new or not\<close>
lemma in_dir_write:
  assumes dir: "in_dir fs a pre d es" and c: "plain_name c" and free: "map_of es c = None \<or> (\<exists>b. map_of es c = Some (File b))"
  obtains fs' es' where "fs_write fs (Path a (pre @ [c])) data = (Inr (), fs')" "in_dir fs' a pre d es'"
    "map_of es' = (map_of es)(c \<mapsto> File data)"
    "\<And>q b. q \<noteq> d @ [c] \<Longrightarrow> node_at (fs_root fs) q = Some (File b) \<Longrightarrow> node_at (fs_root fs') q = Some (File b)"
proof (cases "map_of es c")
  case None
  have "node_at (fs_root fs) (d @ [c]) = None" using dir None by (simp add: in_dir_def node_at_append)
  have new: "\<not> fs_exists fs (Path a (pre @ [c]))"
  proof
    assume "fs_exists fs (Path a (pre @ [c]))"
    then obtain names where "walk (fs_root fs) max_symlinks (if a then [] else fs_cwd fs) (pre @ [c]) = Inr names"
      by (auto simp: fs_exists_def fs_entry_Inr canonicalize_def split: sum.splits if_splits)
    moreover have "c \<noteq> []" "c \<noteq> ''.''" "c \<noteq> ''..''" using c by (simp_all add: plain_name_def)
    ultimately obtain d' es' where "walk (fs_root fs) max_symlinks (if a then [] else fs_cwd fs) pre = Inr d'"
      "node_at (fs_root fs) d' = Some (Dir es')" "map_of es' c \<noteq> None"
      by (rule walk_last_entry)
    with dir None show False by (simp add: in_dir_def)
  qed
  let ?fs = "fs\<lparr>fs_root := node_set (fs_root fs) d (Dir (es @ [(c, File data)]))\<rparr>"
  have w: "fs_write fs (Path a (pre @ [c])) data = (Inr (), ?fs)"
    using dir c new by (intro write_in_dir) (auto simp: in_dir_def)
  note effect = fs_write_new_effect [OF new w]
  have "walk (fs_root ?fs) max_symlinks (if a then [] else fs_cwd ?fs) pre = Inr d"
    using dir effect(1) extends_walk by (auto simp: in_dir_def fs_extends_def)
  moreover have "node_at (fs_root ?fs) d = Some (Dir (es @ [(c, File data)]))"
    using dir by (simp add: in_dir_def node_at_node_set)
  ultimately have "in_dir ?fs a pre d (es @ [(c, File data)])"
    using dir by (auto simp: in_dir_def plain_dir_def)
  moreover have "map_of (es @ [(c, File data)]) = (map_of es)(c \<mapsto> File data)"
    using None by (auto simp: map_add_def fun_eq_iff split: option.split)
  ultimately show thesis using that [OF w] effect(5) by blast
next
  case (Some m)
  with free obtain b where b: "map_of es c = Some (File b)" by auto
  note at = in_dir_canonical [OF dir c b]
  let ?fs = "fs\<lparr>fs_root := node_set (fs_root fs) (d @ [c]) (File data)\<rparr>"
  have same: "same_shape fs ?fs" using at(2) by (rule write_same_shape)
  have "walk_new (fs_root fs) max_symlinks (if a then [] else fs_cwd fs) (pre @ [c]) = Inr (d @ [c])"
  proof -
    from dir walk_new_append [of "fs_root fs" max_symlinks "if a then [] else fs_cwd fs" pre d "[c]"] obtain j where
      "walk_new (fs_root fs) max_symlinks (if a then [] else fs_cwd fs) (pre @ [c]) = walk_new (fs_root fs) j d [c]"
      by (auto simp: in_dir_def)
    also have "\<dots> = Inr (d @ [c])" using dir c b by (simp add: in_dir_def plain_name_def node_at_append)
    finally show ?thesis .
  qed
  then have w: "fs_write fs (Path a (pre @ [c])) data = (Inr (), ?fs)"
    using at(2) c by (auto simp: fs_write_def plain_name_def)
  let ?es = "AList.update c (File data) es"
  have "node_set root (d @ [c]) new = node_set root d (Dir (AList.update c new es))"
    if "node_at root d = Some (Dir es)" for root new
    using that b
  proof (induction root d rule: node_at.induct)
    case (1 n)
    then show ?case by simp
  next
    case (2 fs x xs)
    then show ?case by (auto split: option.splits)
  qed auto
  then have "node_at (fs_root ?fs) d = Some (Dir ?es)"
    using dir by (simp add: in_dir_def node_at_node_set)
  moreover have "walk (fs_root ?fs) max_symlinks (if a then [] else fs_cwd ?fs) pre = Inr d"
    using dir extends_walk same_shape_extends [OF same] by (auto simp: in_dir_def fs_extends_def)
  moreover have "plain_dir ?es"
    using dir by (simp add: in_dir_def plain_dir_update)
  ultimately have "in_dir ?fs a pre d ?es" by (simp add: in_dir_def)
  moreover have "node_at (fs_root ?fs) q = Some (File b')"
    if "q \<noteq> d @ [c]" "node_at (fs_root fs) q = Some (File b')" for q b'
    using node_at_node_set_other [OF at(2) that(2,1)] by simp
  ultimately show thesis using that [OF w] by (auto simp: update_conv')
qed

subsection \<open>Names\<close>

text \<open>The path of the input file without its last name has no empty or dotted end.\<close>
definition tidy :: "bool \<Rightarrow> string list \<Rightarrow> bool" where
  "tidy a pre \<longleftrightarrow> (if pre = [] then \<not> a else plain_name (last pre) \<or> (a \<and> pre = [[]]))"

lemma trim_plain: "plain_name c \<Longrightarrow> trim_names a (c # cs) = c # cs"
  by (simp add: plain_name_def)

lemma path_pop_tidy:
  assumes "tidy a pre" and "plain_name name"
  shows "path_file_name (Path a (pre @ [name])) = Some name" "path_pop (Path a (pre @ [name])) = Path a pre"
proof -
  show "path_file_name (Path a (pre @ [name])) = Some name"
    using assms(2) by (simp add: path_file_name_def plain_name_def)
  have "(let cs = rev (trim_names a (rev pre)) in Path a (if a \<and> cs = [] then [[]] else cs)) = Path a pre"
  proof (cases pre rule: rev_cases)
    case (snoc ys y)
    show ?thesis
    proof (cases "plain_name y")
      case True
      then show ?thesis unfolding snoc rev_append rev.simps append_Nil append_Cons trim_plain [OF True] by simp
    qed (use assms(1) snoc in \<open>auto simp: tidy_def\<close>)
  qed (use assms(1) in \<open>simp add: tidy_def\<close>)
  then show "path_pop (Path a (pre @ [name])) = Path a pre"
    using assms(2) by (simp add: path_pop_def plain_name_def del: trim_names.simps(2)) (simp add: plain_name_def)
qed

definition region_name :: "string \<Rightarrow> nat \<Rightarrow> string" where
  "region_name stem i = stem @ ''_region'' @ show_dec i @ ''.crashlog''"

lemma region_name_plain: "CHR ''/'' \<notin> set stem \<Longrightarrow> plain_name (region_name stem i)"
proof -
  assume "CHR ''/'' \<notin> set stem"
  then have "CHR ''/'' \<notin> set (region_name stem i)"
    by (auto simp: region_name_def is_numeric_def dest: show_dec_numeric)
  moreover have "2 < length (region_name stem i)" by (simp add: region_name_def)
  ultimately show ?thesis by (auto simp: plain_name_def)
qed

lemma region_name_inj: "region_name stem i = region_name stem j \<longleftrightarrow> i = j"
  using show_dec_inj [of i j] by (auto simp: region_name_def)

lemma with_stem_region:
  assumes "tidy a pre" and "plain_name name" and "path_file_stem (Path a (pre @ [name])) = Some stem"
    and "os_display stem = stem" and "CHR ''/'' \<notin> set stem"
  shows "with_stem (Path a (pre @ [name])) (\<lambda>stem. stem @ ''_region'' @ show_dec i @ ''.crashlog'')
    = Path a (pre @ [region_name stem i])"
proof -
  have plain: "plain_name (region_name stem i)" using assms(5) by (rule region_name_plain)
  then have "split_on CHR ''/'' (region_name stem i) = [region_name stem i]"
    by (intro split_where_none) (auto simp: plain_name_def)
  moreover have "\<not> starts_with (region_name stem i) ''/''"
    using plain by (cases "region_name stem i") (auto simp: plain_name_def starts_with_def)
  ultimately show ?thesis
    using assms(3,4) path_pop_tidy [OF assms(1,2)]
    by (simp add: with_stem_def path_set_file_name_def path_push_def region_name_def)
qed

subsection \<open>The regions of a crash log\<close>

lemma unpack_regions_files:
  assumes stem: "\<And>i. with_stem input (\<lambda>stem. stem @ ''_region'' @ show_dec i @ ''.crashlog'') = Path a (pre @ [region_name stem i])"
    and slash: "CHR ''/'' \<notin> set stem"
  shows "in_dir fs a pre d es \<Longrightarrow>
    \<forall>i \<in> {k..<k + length regions}. map_of es (region_name stem i) = None \<or> (\<exists>b. map_of es (region_name stem i) = Some (File b)) \<Longrightarrow>
    \<exists>fs' es'. unpack_regions input (enumerate k regions) fs
        = (concat (map (\<lambda>i. print_path (Path a (pre @ [region_name stem i]))) [k..<k + length regions]), Inr (), fs')
      \<and> in_dir fs' a pre d es'
      \<and> (\<forall>i < length regions. map_of es' (region_name stem (k + i)) = Some (File (region_to_bytes (regions ! i))))
      \<and> (\<forall>i < k. map_of es' (region_name stem i) = map_of es (region_name stem i))
      \<and> (\<forall>q b. (\<forall>i < k + length regions. q \<noteq> d @ [region_name stem i]) \<longrightarrow>
           node_at (fs_root fs) q = Some (File b) \<longrightarrow> node_at (fs_root fs') q = Some (File b))"
proof (induction regions arbitrary: fs es k)
  case Nil
  then show ?case by auto
next
  case (Cons region regions)
  have "map_of es (region_name stem k) = None \<or> (\<exists>b. map_of es (region_name stem k) = Some (File b))"
    using Cons.prems(2) by (metis atLeastLessThan_iff le_refl length_Cons less_add_Suc1 add_Suc_right)
  from in_dir_write [OF Cons.prems(1) region_name_plain [OF slash] this, of "region_to_bytes region"]
  obtain fs1 es1 where w: "fs_write fs (Path a (pre @ [region_name stem k])) (region_to_bytes region) = (Inr (), fs1)"
    and dir: "in_dir fs1 a pre d es1" and es1: "map_of es1 = (map_of es)(region_name stem k \<mapsto> File (region_to_bytes region))"
    and keeps: "\<And>q b. q \<noteq> d @ [region_name stem k] \<Longrightarrow> node_at (fs_root fs) q = Some (File b) \<Longrightarrow> node_at (fs_root fs1) q = Some (File b)"
    by blast
  have "\<forall>i \<in> {Suc k..<Suc k + length regions}. map_of es1 (region_name stem i) = None \<or> (\<exists>b. map_of es1 (region_name stem i) = Some (File b))"
    using Cons.prems(2) by (auto simp: es1)
  from Cons.IH [OF dir this] obtain fs' es' where
    rest: "unpack_regions input (enumerate (Suc k) regions) fs1
        = (concat (map (\<lambda>i. print_path (Path a (pre @ [region_name stem i]))) [Suc k..<Suc k + length regions]), Inr (), fs')"
    and dir': "in_dir fs' a pre d es'"
    and files: "\<And>i. i < length regions \<Longrightarrow> map_of es' (region_name stem (Suc k + i)) = Some (File (region_to_bytes (regions ! i)))"
    and old: "\<And>i. i < Suc k \<Longrightarrow> map_of es' (region_name stem i) = map_of es1 (region_name stem i)"
    and keeps': "\<And>q b. (\<forall>i < Suc k + length regions. q \<noteq> d @ [region_name stem i]) \<Longrightarrow>
           node_at (fs_root fs1) q = Some (File b) \<Longrightarrow> node_at (fs_root fs') q = Some (File b)"
    by blast
  have "unpack_regions input (enumerate k (region # regions)) fs
      = (print_path (Path a (pre @ [region_name stem k]))
          @ concat (map (\<lambda>i. print_path (Path a (pre @ [region_name stem i]))) [Suc k..<Suc k + length regions]), Inr (), fs')"
    unfolding enumerate_simps unpack_regions.simps Let_def stem write_file_def w prod.case io_result_simps sum.case rest ..
  moreover have "[k..<k + length (region # regions)] = k # [Suc k..<Suc k + length regions]"
    using upt_conv_Cons [of k "k + length (region # regions)"] by (simp del: upt_Suc)
  moreover have "map_of es' (region_name stem (k + i)) = Some (File (region_to_bytes ((region # regions) ! i)))"
    if "i < length (region # regions)" for i
    using that files [of "i - 1"] old [of k] by (cases i) (auto simp: es1)
  moreover have "map_of es' (region_name stem i) = map_of es (region_name stem i)" if "i < k" for i
    using that old [of i] by (simp add: es1 region_name_inj)
  moreover have "node_at (fs_root fs') q = Some (File b)"
    if "\<forall>i < k + length (region # regions). q \<noteq> d @ [region_name stem i]" "node_at (fs_root fs) q = Some (File b)" for q b
    using that keeps [of q b] keeps' [of q b] by auto
  ultimately show ?case using dir' by (intro exI [of _ fs'] exI [of _ es']) simp
qed

text \<open>C9. Unpacking writes every region of a crash log, in order, to a file of its own beside the input file,
  named after it and numbered, replacing a file of that name. The file has exactly the bytes of the
  records of the region, and reads back as the region without its parent header, which is the region
  itself if it was not nested in a box record; the latter needs that every header fits in its own
  record. No other file changes. The name of the input file must have a stem that is UTF-8, the path before it
  must not end in an empty name, \<open>.\<close> or \<open>..\<close>, its directory must have no links and no unreadable entries
  in it, and no directory or device may have the name of a region file.\<close>
theorem unpack_reads_back:
  assumes input: "tidy a pre" "plain_name name" "path_file_stem (Path a (pre @ [name])) = Some stem"
      "os_display stem = stem" "CHR ''/'' \<notin> set stem"
    and dir: "in_dir fs a pre d es"
    and free: "\<forall>i < length (cl_regions c). map_of es (region_name stem i) = None \<or> (\<exists>b. map_of es (region_name stem i) = Some (File b))"
    and read: "read_crashlog G fs (Path a (pre @ [name])) = Inr c"
  shows "\<exists>fs'. unpack_crashlog G (Path a (pre @ [name])) fs
      = (concat (map (\<lambda>i. print_path (Path a (pre @ [region_name stem i]))) [0..<length (cl_regions c)]), Inr (), fs')
    \<and> (\<forall>i < length (cl_regions c).
         fs_read fs' (Path a (pre @ [region_name stem i])) = Inr (concat (map rec_data (reg_records (cl_regions c ! i))))
         \<and> ((\<forall>r \<in> set (reg_records (cl_regions c ! i)). header_size (rec_header r) \<le> length (rec_data r)) \<longrightarrow>
            rbind (io_result (fs_read fs' (Path a (pre @ [region_name stem i])))) region_from_slice
              = Inr (region_bare (cl_regions c ! i)))
         \<and> ((\<forall>r \<in> set (reg_records (cl_regions c ! i)). rec_context r = context_default) \<longrightarrow>
            region_bare (cl_regions c ! i) = cl_regions c ! i))
    \<and> (\<forall>q b. (\<forall>i < length (cl_regions c). q \<noteq> d @ [region_name stem i]) \<longrightarrow>
         node_at (fs_root fs) q = Some (File b) \<longrightarrow> node_at (fs_root fs') q = Some (File b))"
proof -
  have stem: "with_stem (Path a (pre @ [name])) (\<lambda>stem. stem @ ''_region'' @ show_dec i @ ''.crashlog'')
      = Path a (pre @ [region_name stem i])" for i
    using input by (rule with_stem_region)
  have "\<forall>i \<in> {0..<0 + length (cl_regions c)}. map_of es (region_name stem i) = None \<or> (\<exists>b. map_of es (region_name stem i) = Some (File b))"
    using free by simp
  from unpack_regions_files [OF stem input(5) dir this] obtain fs' es' where
    u: "unpack_regions (Path a (pre @ [name])) (enumerate 0 (cl_regions c)) fs
        = (concat (map (\<lambda>i. print_path (Path a (pre @ [region_name stem i]))) [0..<length (cl_regions c)]), Inr (), fs')"
    and dir': "in_dir fs' a pre d es'"
    and files: "\<And>i. i < length (cl_regions c) \<Longrightarrow> map_of es' (region_name stem i) = Some (File (region_to_bytes (cl_regions c ! i)))"
    and keeps: "\<And>q b. (\<forall>i < length (cl_regions c). q \<noteq> d @ [region_name stem i]) \<Longrightarrow>
           node_at (fs_root fs) q = Some (File b) \<Longrightarrow> node_at (fs_root fs') q = Some (File b)"
    by auto
  have data: "fs_read fs' (Path a (pre @ [region_name stem i])) = Inr (region_to_bytes (cl_regions c ! i))"
    if "i < length (cl_regions c)" for i
    using in_dir_read [OF dir' region_name_plain [OF input(5)] files [OF that]] .
  have "region_parsed (cl_regions c ! i)" if "i < length (cl_regions c)" for i
    using read that crashlog_from_slice_parsed [of G _ c "cl_regions c ! i"]
    by (cases "fs_read fs (Path a (pre @ [name]))") (auto simp: read_crashlog_def)
  then have "region_from_slice (region_to_bytes (cl_regions c ! i)) = Inr (region_bare (cl_regions c ! i))"
    if "i < length (cl_regions c)"
      "\<forall>r \<in> set (reg_records (cl_regions c ! i)). header_size (rec_header r) \<le> length (rec_data r)" for i
    using that by (intro region_ok_reads region_parsed_ok) auto
  with u read keeps data region_bare_id show ?thesis
    by (auto simp: unpack_crashlog_def simp flip: region_to_bytes_eq)
qed

definition example_input :: "bytes \<Rightarrow> fs" where
  "example_input data = \<lparr>fs_root = Dir [(''in.crashlog'', File data), (''in_region1.crashlog'', File [7])], fs_cwd = []\<rparr>"

theorem unpack_reads_back_witness:
  "\<exists>out fs'. unpack_crashlog uguid_word (Path False [''in.crashlog''])
      (example_input (crashlog_to_bytes uguid_word example_crashlog)) = (out, Inr (), fs')
    \<and> rbind (io_result (fs_read fs' (Path False [region_name ''in'' 1]))) region_from_slice = Inr example_region"
proof -
  let ?data = "crashlog_to_bytes uguid_word example_crashlog"
  let ?c = "\<lparr>cl_regions = [example_region, example_region],
    cl_metadata = metadata_default\<lparr>md_extra_cper_sections := md_extra_cper_sections (cl_metadata example_crashlog)\<rparr>\<rparr>"
  have names: "tidy False []" "plain_name ''in.crashlog''" "path_file_stem (Path False ([] @ [''in.crashlog''])) = Some ''in''"
    "CHR ''/'' \<notin> set ''in''"
    by code_simp+
  have "os_display ''in'' = map (\<lambda>b. char_of (unat b)) (map of_char ''in'' :: bytes)"
    unfolding os_display_def by (rule from_utf8_lossy_valid [OF check_utf8_ascii]) simp
  also have "\<dots> = ''in''" by code_simp
  finally have display: "os_display ''in'' = ''in''" .
  have dir: "in_dir (example_input data) False [] [] [(''in.crashlog'', File data), (''in_region1.crashlog'', File [7])]" for data
    by (simp add: in_dir_def example_input_def plain_dir_def)
  have "fs_read (example_input data) (Path False ([] @ [''in.crashlog''])) = Inr data" for data
    by (rule in_dir_read [OF dir]) (simp_all add: plain_name_def)
  then have read: "read_crashlog uguid_word (example_input ?data) (Path False ([] @ [''in.crashlog''])) = Inr ?c"
    using crashlog_cper_roundtrip [OF guid_word.guid_codec_axioms example_crashlog_ok(1)]
    unfolding example_crashlog_reread by (simp add: read_crashlog_def example_crashlog_def)
  have "map_of [(''in.crashlog'', File ?data), (''in_region1.crashlog'', File [7])] x = None
      \<or> (\<exists>b. map_of [(''in.crashlog'', File ?data), (''in_region1.crashlog'', File [7])] x = Some (File b))" for x
    by simp
  moreover have "\<forall>r \<in> set (reg_records example_region). header_size (rec_header r) \<le> length (rec_data r)"
    and "region_bare example_region = example_region" by code_simp+
  ultimately show ?thesis
    using unpack_reads_back [OF names(1-3) display names(4) dir _ read] by fastforce
qed

end
