(* ===== verification/Spec2Isabelle.thy ===== *)
theory Spec2Isabelle
  imports Analysis Ffi CollateralFs Json Platform Unpack
begin

text \<open>
  Verification library of the Intel Crash Log framework: the library crate (\<open>lib/src\<close>) with its C
  interface and its build script, the command line application (\<open>app/src\<close>) and the EFI application
  (\<open>efi/src\<close>).

  \<^bold>\<open>The program.\<close> The firmware leaves a crash log as binary regions of records. A source (\<open>source.rs\<close>)
  extracts them: the ACPI boot error record (\<open>source/acpi\<close>, \<open>bert\<close>), the Intel PMT devices in the Linux
  sysfs (\<open>source/pmt\<close>), or the Windows event log (\<open>source/event_log\<close>). A \<open>CrashLog\<close> is a list of regions
  with metadata; it is read from and written to BERT, CPER and raw files (\<open>crashlog.rs\<close>, \<open>cper.rs\<close>,
  \<open>bert.rs\<close>). Decoding (\<open>record/decode.rs\<close>) makes a tree of registers (\<open>node.rs\<close>) from a record and its
  decode definitions, which the collateral manager (\<open>collateral.rs\<close>) takes from a tree of files, either
  in a file system or embedded at build time. The analysis (\<open>analysis\<close>) makes triage tags from the
  tree. The two applications and the C interface (\<open>ffi.rs\<close>) call all of this.

  \<^bold>\<open>Theories.\<close>
  \<^item> \<open>Prelude\<close>, \<open>RustString\<close>, \<open>BTreeMap\<close>, \<open>BinaryHeap\<close>, \<open>FileSystem\<close>, \<open>FileWrite\<close>: what the code uses of the Rust
    standard library. Little-endian bytes, slices and \<open>Option\<close>/\<open>Result\<close>; UTF-8, splitting, parsing and
    printing of integers; \<open>BTreeMap\<close> as a sorted association list; \<open>BinaryHeap\<close> as the array heap with its
    two sifts; paths and a file system with directories, files, symbolic links and devices.
  \<^item> \<open>Node\<close> (\<open>node.rs\<close>), \<open>Header\<close> (\<open>header.rs\<close>, \<open>errata.rs\<close>, \<open>error.rs\<close>), \<open>Region\<close> (\<open>region.rs\<close>, \<open>record.rs\<close>,
    \<open>read_field\<close> of \<open>record/decode.rs\<close>), \<open>Cper\<close> (\<open>cper.rs\<close>, \<open>cper/\<close>), \<open>Bert\<close> (\<open>bert.rs\<close>, \<open>bert/\<close>), \<open>Source\<close>
    (identifiers of \<open>source.rs\<close> and \<open>source/pmt\<close>), \<open>CrashLog\<close> (\<open>crashlog.rs\<close>, \<open>metadata.rs\<close>).
  \<^item> \<open>Collateral\<close> (\<open>collateral.rs\<close>, \<open>collateral/\<close>) and \<open>CollateralFs\<close> (\<open>collateral/fs.rs\<close>, \<open>build.rs\<close>): two
    providers of the tree interface, and the manager with its cache. \<open>Decode\<close> (\<open>record/\<close>), \<open>Analysis\<close>
    (\<open>analysis/\<close>).
  \<^item> \<open>Pmt\<close> (\<open>source/pmt.rs\<close>, \<open>source/pmt/sysfs.rs\<close>), \<open>Sources\<close> (\<open>source/acpi\<close>, \<open>source/event_log\<close>, the
    operations of \<open>source.rs\<close>).
  \<^item> \<open>Ffi\<close> (\<open>ffi.rs\<close>): the objects behind raw pointers in a store with fresh addresses.
  \<^item> \<open>Table\<close>, \<open>App\<close>, \<open>AppExtract\<close> (\<open>app/src\<close>); \<open>Pager\<close> (\<open>efi/src/pager\<close>), \<open>EfiApp\<close> (the rest of \<open>efi/src\<close>).
  \<^item> \<open>Json\<close>, \<open>Unpack\<close>, \<open>Platform\<close>: what the output is worth to its readers. The registers in the JSON text, the
    files of \<open>unpack\<close>, and the way from the devices of a Linux system to the files of \<open>extract\<close>.

  A definition has the name of its function or type. Names of HOL and of Isabelle are avoided by a
  prefix (\<open>crash_record\<close>, \<open>app_extract\<close>), and the methods of a type have the type in front
  (\<open>header_from_slice\<close>). The body of a loop is a recursive function beside its function, such as
  \<open>region_loop\<close> and \<open>query_loop\<close>.

  \<^bold>\<open>Conventions.\<close> Fields of the file formats are words of their width. A \<open>usize\<close> has 64 bits: it is a
  \<open>nat\<close> where it is the length or an index of something in memory, and a word where the code computes
  it, and wraps as in the release profile. An error is the left summand of \<open>error + 'a\<close>, an absent value
  \<open>None\<close>. A panic is \<open>None\<close> in a function of type option; functions of the C interface end in \<open>Done\<close>,
  \<open>Panic\<close> or \<open>UB\<close>. A function that changes \<open>&mut self\<close> returns the new value; the iteration order of a
  \<open>HashMap\<close> is never observed, so it is a partial function. Code that is compiled for one platform only
  takes the platform as an argument (\<open>target_os\<close>).

  \<^bold>\<open>Parameters.\<close> Third party crates are arguments: \<open>uguid\<close> (record \<open>uguid\<close>, with the law \<open>guid_codec\<close> that
  128 bits survive a round trip), \<open>serde_json\<close> (functions between JSON texts and values), the ACPI table
  parser and physical memory (\<open>efi_env\<close>), the Windows event log (\<open>win_api\<close>), the UEFI services
  (\<open>uefi_api\<close>). Each law is shown to hold for an instance, and the witnesses use that instance.

  \<^bold>\<open>Interfaces.\<close> The locales state what one part relies on from another, and each is interpreted on the
  model: maps with and without an order (\<open>keyed_map\<close>, \<open>ordered_map\<close>: the sorted association list and the
  hash map), the priority queue behind the analysis (\<open>priority_queue\<close>: the array heap), codecs of fixed
  size (\<open>fixed_codec\<close>: the structures of the CPER and BERT formats, some of them over \<open>guid_codec\<close>), the tree
  of collateral files (\<open>collateral_provider\<close>: the embedded tree), the iterators of the C interface
  (\<open>c_iterator\<close>: crash logs and children) and the control commands of a PMT endpoint (\<open>endpoint_command\<close>).

  \<^bold>\<open>What is shown.\<close>
  \<^item> Round trips: a crash log exported as a CPER or BERT file, through the C interface in chunks of any
    sizes, or to files by the command line tool, reads back with its regions in order and its sections.
    The regions must be as their headers say (\<open>region_ok\<close>, which every parsed region is whose headers fit in
    its records). A file has no parent headers, and the reader unpacks box records: what is read back is
    \<open>regions_reread\<close>, which is the list of regions itself when these have no boxes and no parents. The
    writers invert the parsers for versions, regions, CPER records, BERT data and source names; what PMT
    and ACPI sources report is what their files and memory hold, and under Linux \<open>extract\<close> writes it to
    files that decode; \<open>unpack\<close> writes regions that parse back; a reader of the JSON output gets every
    register with its value.
  \<^item> Parsing: which byte strings are accepted, where records are cut, how nested box regions are ordered
    and what context they carry; the layout of a written CPER record.
  \<^item> The register tree: merging keeps every value and the well-formedness of the tree; decoding a
    definition file yields the bits at the offsets it names; decoding does not depend on the cache and
    adds the header of every record.
  \<^item> The collateral manager refines the search for the highest security level; reading a file of the tree
    never leaves the directory of its product; the embedded tree holds what the file system held.
  \<^item> Analysis: the report is sorted by priority and complete, and the counters of stuck transactions are
    those of a reference definition.
  \<^item> The C interface: a session of calls that uses only live pointers is defined and frees what it owns;
    iteration visits every child; buffers are written within their sizes.
  \<^item> Control and extraction: which endpoints a command writes and what stays unchanged; the discovery of
    PMT devices; the crash logs found in the event log.
  \<^item> The applications: extraction ends, except for an output path that is a device or a pipe, never changes
    a file that was there, and writes files that decode; for an ASCII text that is not empty, the pager
    keeps its window in the text for every sequence of ASCII keys, as long as the keyboard works, and panics
    only if the text has one line less than the screen; the EFI parser accepts exactly its grammar.
  \<^item> Where the code departs from its purpose or its documentation, a theorem states what it does, such as
    \<open>create_hierarchy_panics_iff\<close>, \<open>pager_panics_on_full_screen\<close>, \<open>pager_panics_on_multibyte_pattern\<close>,
    \<open>box_region_exported_twice\<close>, \<open>pmt_gathers_box_regions_twice\<close> and \<open>fer_revision1_export_shifts_payload\<close>.

  \<^bold>\<open>Fuel and bounds.\<close> Loops over data recurse on the data or have a measure. \<open>visit_dirs\<close> of the build
  script takes the depth to which it recurses, since a cycle of links is endless; the height of the tree
  is enough. The resolution of a path follows at most 40 links, as Linux does. The search for a file name
  (\<open>extract_loop\<close>) may not end and is a partial function; it ends if the tree has fewer than \<open>2 ^ 31\<close> entries.
  The pager reads a list of what the keyboard gives, a key or one of the ways in which getting one fails, and
  stops where the list does.

  \<^bold>\<open>Not modelled.\<close> Log messages; the parser of the command line that \<open>clap\<close> generates; the generation of C
  headers by \<open>cbindgen\<close> in the build script; the handles and buffers of the Windows event log, which are
  released when they are dropped; the unused flags of the CPER format; module declarations and re-exports (\<open>lib.rs\<close>, \<open>prelude.rs\<close>). Case conversion and numeric
  characters are those of ASCII. A file system has no permissions and no concurrent writers.
\<close>

subsection \<open>Properties that span components\<close>

text \<open>C5. Export through the C interface: a client that exports a crash log as a CPER record and reads it
  through buffers that together are large enough has a file that decodes to the same regions and the
  same extra sections. The pointer must be one to a live crash log, and not null, and the crash log must be
  one that a CPER can represent, as in the export to that format: at least one region, fewer than
  \<open>2^16\<close> sections and \<open>2^32\<close> bytes, records whose data starts with their header and is as long as it says
  (but for a truncated last one), and extra sections that are firmware error records of revision 2 or
  later that hold no crash log, or of another type. The regions come back without parent headers, each
  followed by the regions nested in its box records; they are the same when none has a box or a
  parent.\<close>
theorem export_through_c_interface:
  fixes st :: "'g store"
  assumes "guid_codec G" and "crashlog_ok G c" and "store_ok st" and "p \<noteq> 0"
    and "st_objs st p = Some (CrashLogObj c)"
    and "length (crashlog_to_bytes G c) \<le> sum_list (map length buffers)"
  shows "\<exists>e st1 data st2. crashlog_export_to_cper G p st = Done e st1 \<and> read_chunks e buffers st1 = Done data st2
    \<and> crashlog_from_slice G data = Inr \<lparr>cl_regions = regions_reread (cl_regions c),
        cl_metadata = metadata_default\<lparr>md_extra_cper_sections := md_extra_cper_sections (cl_metadata c)\<rparr>\<rparr>
    \<and> ((\<forall>region \<in> set (cl_regions c). region_flat region) \<longrightarrow> regions_reread (cl_regions c) = cl_regions c)"
proof -
  obtain e st1 where a: "alloc (ExportObj (crashlog_to_bytes G c)) st = Done e st1" by (simp add: alloc_def)
  note e = alloc_spec [OF assms(3) a]
  have "st_objs st1 e = Some (ExportObj (crashlog_to_bytes G c))" using e by simp
  from read_chunks_eq [OF e(2) this, of buffers] assms(6) obtain st2 where
    "read_chunks e buffers st1 = Done (crashlog_to_bytes G c) st2" by auto
  moreover have "crashlog_export_to_cper G p st = Done e st1"
    using assms(4,5) a by (simp add: crashlog_export_to_cper_def)
  ultimately show ?thesis using crashlog_cper_roundtrip [OF assms(1,2)] regions_reread_flat by blast
qed

theorem export_through_c_interface_witness:
  "\<exists>e st1 data st2. crashlog_export_to_cper uguid_word 1
        \<lparr>st_objs = [1 \<mapsto> CrashLogObj example_crashlog], st_next = 2\<rparr> = Done e st1
    \<and> read_chunks e [crashlog_to_bytes uguid_word example_crashlog] st1 = Done data st2
    \<and> (\<exists>c. crashlog_from_slice uguid_word data = Inr c \<and> cl_regions c = [example_region, example_region])"
proof -
  have "store_ok \<lparr>st_objs = [1 \<mapsto> CrashLogObj example_crashlog], st_next = 2\<rparr>" by (simp add: store_ok_def)
  from export_through_c_interface [OF guid_word.guid_codec_axioms example_crashlog_ok(1) this, of 1
      "[crashlog_to_bytes uguid_word example_crashlog]"]
  show ?thesis unfolding example_crashlog_reread by (fastforce simp: example_crashlog_def)
qed

end
